(* ===== verification/Prelude.thy ===== *)
theory Prelude
  imports Main "HOL-Library.Word" "HOL-Library.Monad_Syntax"
begin

text \<open>
  Vocabulary shared by every component of the ZeOS development: the widths of the
  C integer types (\<open>include/types.h\<close>: \<open>Byte\<close>, \<open>Word\<close>, \<open>DWord\<close>), the counted
  \<open>for\<close> loop over a state that may fault, its invariant rule, and the collections of
  rewrite rules the component theories extend.

  A kernel routine that dereferences a null pointer, or a pointer that does not lie in
  an object of the type it is cast to, has no meaning in C. Such a run is the value
  \<^const>\<open>None\<close>; a routine that completes is \<open>Some\<close> of its result. Error codes
  that the code returns are ordinary values.
\<close>

unbundle bit_operations_syntax

type_synonym u8 = "8 word"
type_synonym u16 = "16 word"
type_synonym u32 = "32 word"
type_synonym u64 = "64 word"

named_theorems const_defs \<comment> \<open>the numeric macros of the header files\<close>
named_theorems queue_simps \<comment> \<open>effect of list operations on queue contents\<close>
named_theorems frame_simps \<comment> \<open>fields an operation leaves alone\<close>

section \<open>Counted loops\<close>

text \<open>\<open>for (i = lo; i < hi; i++) body(i)\<close> over a state, stopping at a fault.\<close>

function for_loop :: "nat \<Rightarrow> nat \<Rightarrow> (nat \<Rightarrow> 's \<Rightarrow> 's option) \<Rightarrow> 's \<Rightarrow> 's option" where
  "for_loop lo hi body s =
     (if lo < hi then body lo s \<bind> for_loop (Suc lo) hi body else Some s)"
  by pat_completeness auto
termination
  by (relation "measure (\<lambda>(lo, hi, body, s). hi - lo)") auto

declare for_loop.simps [simp del]

lemma for_loop_done [simp]: "hi \<le> lo \<Longrightarrow> for_loop lo hi body s = Some s"
  by (simp add: for_loop.simps)

lemma for_loop_step: "lo < hi \<Longrightarrow> for_loop lo hi body s = body lo s \<bind> for_loop (Suc lo) hi body"
  by (simp add: for_loop.simps)

lemma for_loop_invariant:
  assumes "lo \<le> hi" and "I lo s"
    and "\<And>i s. lo \<le> i \<Longrightarrow> i < hi \<Longrightarrow> I i s \<Longrightarrow> \<exists>s'. body i s = Some s' \<and> I (Suc i) s'"
  shows "\<exists>s'. for_loop lo hi body s = Some s' \<and> I hi s'"
  using assms
proof (induction lo hi body s rule: for_loop.induct)
  case (1 lo hi body s)
  show ?case
  proof (cases "lo < hi")
    case True
    with "1.prems" obtain s1 where s1: "body lo s = Some s1" "I (Suc lo) s1" by blast
    have "\<exists>s'. for_loop (Suc lo) hi body s1 = Some s' \<and> I hi s'"
      using True s1 "1.prems"(3) by (intro "1.IH") auto
    with True s1(1) show ?thesis by (simp add: for_loop_step)
  next
    case False
    with "1.prems" show ?thesis by simp
  qed
qed

text \<open>The same loop whose body cannot fault.\<close>

function for_each :: "nat \<Rightarrow> nat \<Rightarrow> (nat \<Rightarrow> 's \<Rightarrow> 's) \<Rightarrow> 's \<Rightarrow> 's" where
  "for_each lo hi body s = (if lo < hi then for_each (Suc lo) hi body (body lo s) else s)"
  by pat_completeness auto
termination
  by (relation "measure (\<lambda>(lo, hi, body, s). hi - lo)") auto

declare for_each.simps [simp del]

lemma for_each_done [simp]: "hi \<le> lo \<Longrightarrow> for_each lo hi body s = s"
  by (simp add: for_each.simps)

lemma for_each_step: "lo < hi \<Longrightarrow> for_each lo hi body s = for_each (Suc lo) hi body (body lo s)"
  by (simp add: for_each.simps)

lemma for_each_invariant:
  assumes "lo \<le> hi" and "I lo s"
    and "\<And>i s. lo \<le> i \<Longrightarrow> i < hi \<Longrightarrow> I i s \<Longrightarrow> I (Suc i) (body i s)"
  shows "I hi (for_each lo hi body s)"
  using assms
proof (induction lo hi body s rule: for_each.induct)
  case (1 lo hi body s)
  show ?case
  proof (cases "lo < hi")
    case True
    have "I hi (for_each (Suc lo) hi body (body lo s))"
      using True "1.prems" by (intro "1.IH") auto
    with True show ?thesis by (simp add: for_each_step)
  next
    case False
    with "1.prems" show ?thesis by simp
  qed
qed

lemma for_each_snoc:
  "lo \<le> hi \<Longrightarrow> for_each lo (Suc hi) body s = body hi (for_each lo hi body s)"
proof (induction lo hi body s rule: for_each.induct)
  case (1 lo hi body s)
  then show ?case
    by (cases "lo < hi") (simp_all add: for_each_step)
qed

section \<open>Lists and words\<close>

lemma remove1_hd: "xs \<noteq> [] \<Longrightarrow> remove1 (hd xs) xs = tl xs"
  by (cases xs) auto

lemma set_remove1_distinct: "distinct xs \<Longrightarrow> set (remove1 x xs) = set xs - {x}"
  by (rule set_remove1_eq)

lemma unat_of_nat32: "n < 2 ^ 32 \<Longrightarrow> unat (of_nat n :: u32) = n"
  by (simp add: unsigned_of_nat take_bit_nat_eq_self)

lemma unat_minus_one32: "unat (-1 :: u32) = 4294967295"
  by (simp add: unsigned_minus_1_eq_mask mask_eq_exp_minus_1)

lemma unat_add32: "unat (a :: u32) + unat b < 2 ^ 32 \<Longrightarrow> unat (a + b) = unat a + unat b"
  by (simp add: unat_word_ariths)

lemma unat_add_of_nat32:
  "unat (a :: u32) + m < 2 ^ 32 \<Longrightarrow> unat (a + of_nat m) = unat a + m"
  using unat_of_nat32 [of m] by (simp add: unat_add32)

lemma unat_less32: "unat (a :: u32) < 2 ^ 32"
  using unsigned_less [where 'a = nat, of a] by simp

lemma page_of_unat: "unat (drop_bit 12 (a :: u32)) = unat a div 4096"
  by (simp only: unat_drop_bit_eq) (simp add: drop_bit_eq_div)

lemma sint_small32: "unat (a :: u32) < 2 ^ 31 \<Longrightarrow> sint a = int (unat a)"
proof -
  assume a: "unat a < 2 ^ 31"
  then have "int (unat a) < int (2 ^ 31)" by (simp only: of_nat_less_iff)
  then have "int (unat a) < 2 ^ 31" by (simp only: of_nat_power of_nat_numeral)
  moreover have "- (2 ^ 31) \<le> int (unat a)" by (rule order_trans [of _ 0]) (simp, rule of_nat_0_le_iff)
  ultimately have "signed_take_bit 31 (int (unat a)) = int (unat a)"
    by (intro signed_take_bit_int_eq_self)
  then show ?thesis by (simp add: sint_uint)
qed

lemma sint_nonneg32: "0 \<le> sint (a :: 32 word) \<Longrightarrow> sint a = int (unat a)"
proof -
  assume "0 \<le> sint a"
  moreover have "sint a < 2 ^ 31" by (simp only: sint_uint) (rule order_less_le_trans [OF signed_take_bit_int_less_exp], simp)
  ultimately have "take_bit 32 (sint a) = sint a" by (simp add: take_bit_int_eq_self)
  moreover have "uint (of_int (sint a) :: 32 word) = take_bit 32 (sint a)" by (simp only: unsigned_of_int) simp
  ultimately show ?thesis by simp
qed

end
