(* ===== verification/Lists.thy ===== *)
theory Lists
  imports Prelude
begin

text \<open>
  \<open>list.c\<close> and \<open>include/list.h\<close>: circular doubly linked lists whose nodes are embedded
  in other objects. A heap maps every node address to its \<open>struct list_head\<close>; the type
  of addresses is a parameter. The first half translates the operations pointer by
  pointer; the second half relates a heap to the sequence of nodes that a list head
  stands for and shows that each operation acts on that sequence as a queue operation.
\<close>

section \<open>The operations of list.c\<close>

record 'n list_head =
  lh_next :: "'n option"
  lh_prev :: "'n option"

type_synonym 'n lheap = "'n \<Rightarrow> 'n list_head"

text \<open>
  Writes through a pointer: \<open>p->next = v\<close> and \<open>p->prev = v\<close>. A null pointer is no node of the heap and
  gives \<^const>\<open>None\<close> here; what the store does then depends on the page table, and theory Kernel follows
  it there (\<open>k_list_del\<close>, \<open>k_list_add_tail\<close>).
\<close>

definition store_next :: "'n option \<Rightarrow> 'n option \<Rightarrow> 'n lheap \<Rightarrow> 'n lheap option" where
  "store_next p v h = (case p of None \<Rightarrow> None | Some n \<Rightarrow> Some (h(n := (h n)\<lparr>lh_next := v\<rparr>)))"

definition store_prev :: "'n option \<Rightarrow> 'n option \<Rightarrow> 'n lheap \<Rightarrow> 'n lheap option" where
  "store_prev p v h = (case p of None \<Rightarrow> None | Some n \<Rightarrow> Some (h(n := (h n)\<lparr>lh_prev := v\<rparr>)))"

definition INIT_LIST_HEAD :: "'n \<Rightarrow> 'n lheap \<Rightarrow> 'n lheap" where
  "INIT_LIST_HEAD list h =
     (let h1 = h(list := (h list)\<lparr>lh_next := Some list\<rparr>)
      in h1(list := (h1 list)\<lparr>lh_prev := Some list\<rparr>))"

text \<open>\<open>__list_add(new, prev, next)\<close>.\<close>

definition list_add_between ::
  "'n \<Rightarrow> 'n option \<Rightarrow> 'n option \<Rightarrow> 'n lheap \<Rightarrow> 'n lheap option" where
  "list_add_between new pv nx h = do {
     h1 \<leftarrow> store_prev nx (Some new) h;
     h2 \<leftarrow> store_next (Some new) nx h1;
     h3 \<leftarrow> store_prev (Some new) pv h2;
     store_next pv (Some new) h3
   }"

definition list_add :: "'n \<Rightarrow> 'n \<Rightarrow> 'n lheap \<Rightarrow> 'n lheap option" where
  "list_add new head h = list_add_between new (Some head) (lh_next (h head)) h"

definition list_add_tail :: "'n \<Rightarrow> 'n \<Rightarrow> 'n lheap \<Rightarrow> 'n lheap option" where
  "list_add_tail new head h = list_add_between new (lh_prev (h head)) (Some head) h"

text \<open>\<open>__list_del(prev, next)\<close>.\<close>

definition list_del_between :: "'n option \<Rightarrow> 'n option \<Rightarrow> 'n lheap \<Rightarrow> 'n lheap option" where
  "list_del_between pv nx h = do {
     h1 \<leftarrow> store_prev nx pv h;
     store_next pv nx h1
   }"

definition list_del :: "'n \<Rightarrow> 'n lheap \<Rightarrow> 'n lheap option" where
  "list_del entry h = do {
     h1 \<leftarrow> list_del_between (lh_prev (h entry)) (lh_next (h entry)) h;
     h2 \<leftarrow> store_next (Some entry) None h1;
     store_prev (Some entry) None h2
   }"

definition list_is_last :: "'n \<Rightarrow> 'n \<Rightarrow> 'n lheap \<Rightarrow> bool" where
  "list_is_last list head h \<longleftrightarrow> lh_next (h list) = Some head"

definition list_empty :: "'n \<Rightarrow> 'n lheap \<Rightarrow> bool" where
  "list_empty head h \<longleftrightarrow> lh_next (h head) = Some head"

definition list_first :: "'n \<Rightarrow> 'n lheap \<Rightarrow> 'n option" where
  "list_first head h = lh_next (h head)"

text \<open>
  The cursor of \<open>list_for_each(pos, head)\<close>, collecting the nodes it visits. The loop
  need not end and may run into a null pointer; both are \<^const>\<open>None\<close>.
\<close>

partial_function (option) list_for_each_from ::
  "'n lheap \<Rightarrow> 'n \<Rightarrow> 'n option \<Rightarrow> 'n list \<Rightarrow> 'n list option" where
  "list_for_each_from h head pos acc =
     (case pos of
        None \<Rightarrow> None
      | Some n \<Rightarrow>
          if n = head then Some (rev acc)
          else list_for_each_from h head (lh_next (h n)) (n # acc))"

definition list_for_each :: "'n \<Rightarrow> 'n lheap \<Rightarrow> 'n list option" where
  "list_for_each head h = list_for_each_from h head (lh_next (h head)) []"

section \<open>The sequence a list head stands for\<close>

text \<open>Consecutive nodes of a path point at each other.\<close>

fun linked :: "'n lheap \<Rightarrow> 'n list \<Rightarrow> bool" where
  "linked h (a # b # p) \<longleftrightarrow> lh_next (h a) = Some b \<and> lh_prev (h b) = Some a \<and> linked h (b # p)"
| "linked h p \<longleftrightarrow> True"

definition queue :: "'n lheap \<Rightarrow> 'n \<Rightarrow> 'n list \<Rightarrow> bool" where
  "queue h head xs \<longleftrightarrow> distinct (head # xs) \<and> linked h (head # xs @ [head])"

lemma linked_join:
  "p \<noteq> [] \<Longrightarrow> q \<noteq> [] \<Longrightarrow>
     linked h (p @ q) \<longleftrightarrow> linked h p \<and> lh_next (h (last p)) = Some (hd q)
       \<and> lh_prev (h (hd q)) = Some (last p) \<and> linked h q"
proof (induction p rule: induct_list012)
  case (2 a)
  then show ?case by (cases q) auto
qed auto

lemma linked_cong:
  assumes "\<And>x. x \<in> set (butlast p) \<Longrightarrow> lh_next (h' x) = lh_next (h x)"
    and "\<And>x. x \<in> set (tl p) \<Longrightarrow> lh_prev (h' x) = lh_prev (h x)"
  shows "linked h' p = linked h p"
  using assms
proof (induction p rule: induct_list012)
  case (3 a b p)
  have "linked h' (b # p) = linked h (b # p)"
  proof (rule "3.IH"(2))
    fix x assume "x \<in> set (tl (b # p))"
    then show "lh_prev (h' x) = lh_prev (h x)" using "3.prems"(2) by simp
  qed (use "3.prems"(1) in auto)
  with "3.prems" show ?case by auto
qed simp_all

lemma queue_cong:
  assumes "\<And>x. x \<in> set (head # xs) \<Longrightarrow> h' x = h x"
  shows "queue h' head xs = queue h head xs"
proof -
  have "linked h' (head # xs @ [head]) = linked h (head # xs @ [head])"
    using assms by (intro linked_cong) (auto simp: butlast_append)
  then show ?thesis by (simp add: queue_def)
qed

lemma queue_distinct: "queue h head xs \<Longrightarrow> distinct xs"
  by (simp add: queue_def)

lemma queue_head_notin: "queue h head xs \<Longrightarrow> head \<notin> set xs"
  by (simp add: queue_def)

lemma queue_next: "queue h head xs \<Longrightarrow> lh_next (h head) = Some (hd (xs @ [head]))"
  by (cases xs) (auto simp: queue_def)

lemma queue_tail_link:
  "linked h (head # xs @ [head]) \<longleftrightarrow>
     linked h (head # xs) \<and> lh_next (h (last (head # xs))) = Some head
       \<and> lh_prev (h head) = Some (last (head # xs))"
  using linked_join [of "head # xs" "[head]" h] by simp

lemma queue_prev: "queue h head xs \<Longrightarrow> lh_prev (h head) = Some (last (head # xs))"
  by (simp only: queue_def queue_tail_link)

lemma queue_empty_iff: "queue h head xs \<Longrightarrow> list_empty head h \<longleftrightarrow> xs = []"
  by (cases xs) (auto simp: queue_def list_empty_def)

lemma queue_first: "queue h head xs \<Longrightarrow> xs \<noteq> [] \<Longrightarrow> list_first head h = Some (hd xs)"
  by (simp add: list_first_def queue_next)

lemma queue_first_empty: "queue h head [] \<Longrightarrow> list_first head h = Some head"
  by (simp add: list_first_def queue_next)

lemma queue_INIT: "queue (INIT_LIST_HEAD head h) head []"
  by (simp add: queue_def INIT_LIST_HEAD_def Let_def)

lemma INIT_other [frame_simps]: "x \<noteq> l \<Longrightarrow> INIT_LIST_HEAD l h x = h x"
  by (simp add: INIT_LIST_HEAD_def Let_def)

section \<open>Each operation on one list\<close>

lemma list_add_between_fields:
  assumes "n \<noteq> pv" and "n \<noteq> nx"
  shows "\<exists>h'. list_add_between n (Some pv) (Some nx) h = Some h'
    \<and> (\<forall>x. lh_next (h' x) = (if x = pv then Some n else if x = n then Some nx else lh_next (h x)))
    \<and> (\<forall>x. lh_prev (h' x) = (if x = nx then Some n else if x = n then Some pv else lh_prev (h x)))
    \<and> (\<forall>x. x \<notin> {n, pv, nx} \<longrightarrow> h' x = h x)"
  using assms by (simp add: list_add_between_def store_next_def store_prev_def)

lemma list_del_fields:
  assumes "lh_prev (h n) = Some pv" and "lh_next (h n) = Some nx" and "n \<noteq> pv" and "n \<noteq> nx"
  shows "\<exists>h'. list_del n h = Some h'
    \<and> (\<forall>x. lh_next (h' x) = (if x = pv then Some nx else if x = n then None else lh_next (h x)))
    \<and> (\<forall>x. lh_prev (h' x) = (if x = nx then Some pv else if x = n then None else lh_prev (h x)))
    \<and> (\<forall>x. x \<notin> {n, pv, nx} \<longrightarrow> h' x = h x)"
  using assms by (auto simp: list_del_def list_del_between_def store_next_def store_prev_def)

text \<open>A linked sequence is untouched by a change of the next field of its last node and of the previous
  field of its first.\<close>

lemma linked_update:
  assumes "distinct xs" and "n \<notin> set xs" and "pv \<notin> set xs \<or> pv = last xs"
    and "\<And>x. x \<noteq> pv \<Longrightarrow> x \<noteq> n \<Longrightarrow> lh_next (h' x) = lh_next (h x)" and "nx \<notin> set xs \<or> nx = hd xs"
    and "\<And>x. x \<noteq> nx \<Longrightarrow> x \<noteq> n \<Longrightarrow> lh_prev (h' x) = lh_prev (h x)"
  shows "linked h' xs = linked h xs"
proof (rule linked_cong)
  show "lh_next (h' x) = lh_next (h x)" if "x \<in> set (butlast xs)" for x
  proof (rule assms(4))
    show "x \<noteq> pv" using that assms(1,3) by (cases xs rule: rev_cases) auto
    show "x \<noteq> n" using in_set_butlastD [OF that] assms(2) by auto
  qed
  show "lh_prev (h' x) = lh_prev (h x)" if "x \<in> set (tl xs)" for x
  proof (rule assms(6))
    show "x \<noteq> nx" "x \<noteq> n" using that assms(1,2,5) by (cases xs; auto)+
  qed
qed

text \<open>A path is closed up behind its last node, and opened at a node that leaves it.\<close>

lemma queue_split:
  "linked h (head # (ys @ n # zs) @ [head]) \<longleftrightarrow>
     linked h (head # ys) \<and> lh_next (h (last (head # ys))) = Some n
       \<and> lh_prev (h n) = Some (last (head # ys)) \<and> lh_next (h n) = Some (hd (zs @ [head]))
       \<and> lh_prev (h (hd (zs @ [head]))) = Some n \<and> linked h (zs @ [head])"
proof -
  have "linked h (n # zs @ [head]) \<longleftrightarrow> lh_next (h n) = Some (hd (zs @ [head]))
      \<and> lh_prev (h (hd (zs @ [head]))) = Some n \<and> linked h (zs @ [head])"
    by (cases zs) auto
  then show ?thesis using linked_join [of "head # ys" "n # zs @ [head]" h] by simp
qed

lemma list_add_tail_queue:
  assumes q: "queue h head xs" and n: "n \<notin> set (head # xs)"
  shows "\<exists>h'. list_add_tail n head h = Some h' \<and> queue h' head (xs @ [n])
    \<and> (\<forall>x. x \<notin> set (n # head # xs) \<longrightarrow> h' x = h x)"
proof -
  let ?l = "last (head # xs)"
  have l: "?l \<in> set (head # xs)" by (rule last_in_set) simp
  with n have nl: "n \<noteq> ?l" "n \<noteq> head" by auto
  obtain h' where h': "list_add_tail n head h = Some h'"
    and nx: "\<And>x. lh_next (h' x) = (if x = ?l then Some n else if x = n then Some head else lh_next (h x))"
    and pv: "\<And>x. lh_prev (h' x) = (if x = head then Some n else if x = n then Some ?l else lh_prev (h x))"
    and fr: "\<And>x. x \<notin> {n, ?l, head} \<Longrightarrow> h' x = h x"
    using list_add_between_fields [OF nl, of h] by (auto simp: list_add_tail_def queue_prev [OF q])
  from q have lk: "linked h (head # xs)" and dd: "distinct (head # xs)"
    by (simp_all add: queue_def queue_tail_link)
  have "linked h' (head # xs) = linked h (head # xs)"
    by (rule linked_update [of _ n ?l _ _ head]) (use n dd in \<open>auto simp: nx pv simp del: last.simps\<close>)
  with lk have "linked h' (head # xs)" by simp
  moreover have "lh_next (h' ?l) = Some n" "lh_prev (h' n) = Some ?l"
      "lh_next (h' n) = Some head" "lh_prev (h' head) = Some n"
    using nl by (simp_all add: nx pv del: last.simps)
  ultimately have "linked h' (head # (xs @ [n]) @ [head])"
    using queue_split [of h' head xs n "[]"] by (simp del: last.simps)
  then have "queue h' head (xs @ [n])" using dd n by (auto simp: queue_def)
  moreover have "\<forall>x. x \<notin> set (n # head # xs) \<longrightarrow> h' x = h x"
    using l by (auto intro!: fr simp del: last.simps)
  ultimately show ?thesis using h' by blast
qed

lemma list_del_queue:
  assumes q: "queue h head (ys @ n # zs)"
  shows "\<exists>h'. list_del n h = Some h' \<and> queue h' head (ys @ zs)
    \<and> h' n = \<lparr>lh_next = None, lh_prev = None\<rparr>
    \<and> (\<forall>x. x \<notin> set (head # ys @ n # zs) \<longrightarrow> h' x = h x)"
proof -
  let ?pv = "last (head # ys)" and ?nx = "hd (zs @ [head])"
  have ends: "?pv \<in> set (head # ys)" "?nx \<in> set (zs @ [head])"
    by (rule last_in_set, simp) (rule hd_in_set, simp)
  from q have dd: "distinct (head # ys @ n # zs)" by (simp add: queue_def)
  with ends have ne: "n \<noteq> ?pv" "n \<noteq> ?nx" by (auto simp del: last.simps)
  from q have lk: "linked h (head # ys)" "linked h (zs @ [head])"
    and lp: "lh_prev (h n) = Some ?pv" "lh_next (h n) = Some ?nx"
    unfolding queue_def queue_split by blast+
  obtain h' where h': "list_del n h = Some h'"
    and nx: "\<And>x. lh_next (h' x) = (if x = ?pv then Some ?nx else if x = n then None else lh_next (h x))"
    and pv: "\<And>x. lh_prev (h' x) = (if x = ?nx then Some ?pv else if x = n then None else lh_prev (h x))"
    and fr: "\<And>x. x \<notin> {n, ?pv, ?nx} \<Longrightarrow> h' x = h x"
    using list_del_fields [of h n ?pv ?nx] lp ne by auto
  have "linked h' (head # ys) = linked h (head # ys)"
    by (rule linked_update [of _ n ?pv _ _ ?nx]) (use dd ends(2) in \<open>auto simp: nx pv simp del: last.simps\<close>)
  with lk(1) have l1: "linked h' (head # ys)" by simp
  have "linked h' (zs @ [head]) = linked h (zs @ [head])"
    by (rule linked_update [of _ n ?pv _ _ ?nx]) (use dd ends(1) in \<open>auto simp: nx pv simp del: last.simps\<close>)
  with lk(2) have l2: "linked h' (zs @ [head])" by simp
  have "lh_next (h' ?pv) = Some ?nx" "lh_prev (h' ?nx) = Some ?pv"
    using ne by (simp_all add: nx pv del: last.simps)
  with l1 l2 have "linked h' (head # (ys @ zs) @ [head])"
    using linked_join [of "head # ys" "zs @ [head]" h'] by simp
  then have "queue h' head (ys @ zs)" using dd by (auto simp: queue_def)
  moreover have "h' n = \<lparr>lh_next = None, lh_prev = None\<rparr>"
    using nx [of n] pv [of n] ne by (simp del: last.simps)
  moreover have "\<forall>x. x \<notin> set (head # ys @ n # zs) \<longrightarrow> h' x = h x"
    using ends by (auto intro!: fr simp del: last.simps)
  ultimately show ?thesis using h' by blast
qed

text \<open>A well-formed list is traversed in order, and the traversal ends.\<close>

lemma list_for_each_from_queue:
  "linked h (p @ [head]) \<Longrightarrow> head \<notin> set p \<Longrightarrow>
     list_for_each_from h head (Some (hd (p @ [head]))) acc = Some (rev acc @ p)"
proof (induction p arbitrary: acc)
  case Nil
  then show ?case by (simp add: list_for_each_from.simps)
next
  case (Cons a p)
  from Cons.prems have "linked h (p @ [head])" "lh_next (h a) = Some (hd (p @ [head]))"
    by (cases p; simp)+
  with Cons show ?case by (subst list_for_each_from.simps) auto
qed

lemma list_for_each_queue: "queue h head xs \<Longrightarrow> list_for_each head h = Some xs"
proof -
  assume q: "queue h head xs"
  then have "linked h (xs @ [head])" by (cases xs) (auto simp: queue_def)
  then show ?thesis
    using q list_for_each_from_queue [of h xs head "[]"] queue_next [OF q]
    by (simp add: list_for_each_def queue_def)
qed

lemma queue_unique: "queue h head xs \<Longrightarrow> queue h head ys \<Longrightarrow> xs = ys"
  by (drule list_for_each_queue)+ simp

lemma list_add_queue:
  assumes q: "queue h head xs" and n: "n \<notin> set (head # xs)"
  shows "\<exists>h'. list_add n head h = Some h' \<and> queue h' head (n # xs)"
proof -
  let ?f = "hd (xs @ [head])"
  have f: "?f \<in> set (head # xs)" by (cases xs) auto
  with n have nf: "n \<noteq> head" "n \<noteq> ?f" by auto
  obtain h' where h': "list_add n head h = Some h'"
    and nx: "\<And>x. lh_next (h' x) = (if x = head then Some n else if x = n then Some ?f else lh_next (h x))"
    and pv: "\<And>x. lh_prev (h' x) = (if x = ?f then Some n else if x = n then Some head else lh_prev (h x))"
    using list_add_between_fields [OF nf, of h] by (auto simp: list_add_def queue_next [OF q])
  have dd: "distinct (head # xs)" and lk: "linked h (xs @ [head])"
    using q by (cases xs; auto simp: queue_def)+
  have "linked h' (xs @ [head]) = linked h (xs @ [head])"
    by (rule linked_update [of _ n head _ _ ?f]) (use n dd in \<open>auto simp: nx pv\<close>)
  with lk have "linked h' (head # ([] @ n # xs) @ [head])"
    using nf by (subst queue_split) (simp add: nx pv)
  then have "queue h' head (n # xs)" using dd n by (auto simp: queue_def)
  with h' show ?thesis by blast
qed

section \<open>Many lists in one heap\<close>

text \<open>
  The kernel keeps a set \<open>H\<close> of list heads; \<open>Q a\<close> is the sequence of nodes queued at
  head \<open>a\<close>. A heap has this shape when every head stands for its sequence, no head is
  queued anywhere, and no node is queued twice.
\<close>

definition shape :: "'n lheap \<Rightarrow> 'n set \<Rightarrow> ('n \<Rightarrow> 'n list) \<Rightarrow> bool" where
  "shape h H Q \<longleftrightarrow> (\<forall>a\<in>H. queue h a (Q a)) \<and> (\<forall>a\<in>H. set (Q a) \<inter> H = {})
     \<and> (\<forall>a\<in>H. \<forall>b\<in>H. a \<noteq> b \<longrightarrow> set (Q a) \<inter> set (Q b) = {})"

definition queued :: "'n set \<Rightarrow> ('n \<Rightarrow> 'n list) \<Rightarrow> 'n \<Rightarrow> bool" where
  "queued H Q n \<longleftrightarrow> (\<exists>a\<in>H. n \<in> set (Q a))"

lemma shapeD_queue: "shape h H Q \<Longrightarrow> a \<in> H \<Longrightarrow> queue h a (Q a)"
  by (simp add: shape_def)

lemma shapeD_head: "shape h H Q \<Longrightarrow> a \<in> H \<Longrightarrow> x \<in> set (Q a) \<Longrightarrow> x \<notin> H"
  by (auto simp: shape_def)

lemma shapeD_one: "shape h H Q \<Longrightarrow> a \<in> H \<Longrightarrow> b \<in> H \<Longrightarrow> x \<in> set (Q a) \<Longrightarrow> x \<in> set (Q b) \<Longrightarrow> a = b"
  unfolding shape_def by blast

lemma shape_others:
  assumes "shape h H Q" and "a \<in> H" and "queue h' a xs"
    and "\<And>x. x \<notin> insert a (set (Q a)) \<union> N \<Longrightarrow> h' x = h x"
    and "set xs \<subseteq> set (Q a) \<union> N" and "N \<inter> H = {}" and "\<And>n. n \<in> N \<Longrightarrow> \<not> queued (H - {a}) Q n"
  shows "shape h' H (Q(a := xs))"
proof -
  have other: "queue h' b (Q b)" if b: "b \<in> H" "b \<noteq> a" for b
  proof -
    have "x \<notin> insert a (set (Q a)) \<union> N" if "x \<in> set (b # Q b)" for x
    proof -
      from that have "x = b \<or> x \<in> set (Q b)" by simp
      with b assms(1,2,6,7) show ?thesis
        unfolding shape_def queued_def by blast
    qed
    with assms(4) have "\<And>x. x \<in> set (b # Q b) \<Longrightarrow> h' x = h x" by blast
    then have "queue h' b (Q b) = queue h b (Q b)" by (rule queue_cong)
    with b assms(1) show ?thesis by (simp add: shape_def)
  qed
  show ?thesis
    using assms(1,2,3,5,6,7) other unfolding shape_def queued_def
    by (auto; blast)
qed

lemma shape_add_tail:
  assumes "shape h H Q" and "a \<in> H" and "n \<notin> H" and "\<not> queued H Q n"
  shows "\<exists>h'. list_add_tail n a h = Some h' \<and> shape h' H (Q(a := Q a @ [n]))
    \<and> (\<forall>x. x \<notin> H \<and> x \<noteq> n \<and> \<not> queued H Q x \<longrightarrow> h' x = h x)"
proof -
  have q: "queue h a (Q a)" and n: "n \<notin> set (a # Q a)"
    using assms by (auto simp: shape_def queued_def)
  from list_add_tail_queue [OF this] obtain h' where h': "list_add_tail n a h = Some h'"
    "queue h' a (Q a @ [n])" "\<And>x. x \<notin> set (n # a # Q a) \<Longrightarrow> h' x = h x" by blast
  have "shape h' H (Q(a := Q a @ [n]))"
    using assms h' by (intro shape_others [where N = "{n}"]) (auto simp: queued_def)
  with h' assms(2) show ?thesis by (auto simp: queued_def)
qed

lemma shape_del:
  assumes "shape h H Q" and "a \<in> H" and "n \<in> set (Q a)"
  shows "\<exists>h'. list_del n h = Some h' \<and> shape h' H (Q(a := remove1 n (Q a)))
    \<and> (\<forall>x. x \<notin> H \<and> \<not> queued H Q x \<longrightarrow> h' x = h x)"
proof -
  have q: "queue h a (Q a)" using assms by (simp add: shape_def)
  obtain ys zs where Q: "Q a = ys @ n # zs" using split_list [OF assms(3)] by blast
  from q Q have r: "remove1 n (Q a) = ys @ zs" by (auto simp: queue_def remove1_append)
  from list_del_queue [OF q [unfolded Q]] obtain h' where h': "list_del n h = Some h'"
    "queue h' a (ys @ zs)" "\<And>x. x \<notin> set (a # ys @ n # zs) \<Longrightarrow> h' x = h x" by blast
  have "shape h' H (Q(a := ys @ zs))"
    using assms h' Q by (intro shape_others [where N = "{}"]) auto
  moreover have "h' x = h x" if "x \<notin> H" "\<not> queued H Q x" for x
    using that assms(2) Q by (intro h'(3)) (auto simp: queued_def)
  ultimately show ?thesis using h'(1) r Q by auto
qed

lemma shape_init:
  assumes "shape h H Q" and "\<not> queued H Q a"
  shows "shape (INIT_LIST_HEAD a h) (insert a H) (Q(a := []))"
proof -
  have "queue (INIT_LIST_HEAD a h) b (Q b)" if "b \<in> H" "b \<noteq> a" for b
  proof -
    have "queue (INIT_LIST_HEAD a h) b (Q b) = queue h b (Q b)"
      using that assms(2) by (intro queue_cong INIT_other) (auto simp: queued_def)
    with that assms(1) show ?thesis by (simp add: shape_def)
  qed
  with assms show ?thesis by (auto simp: shape_def queued_def queue_INIT)
qed

lemma shape_empty_iff: "shape h H Q \<Longrightarrow> a \<in> H \<Longrightarrow> list_empty a h \<longleftrightarrow> Q a = []"
  by (rule queue_empty_iff) (rule shapeD_queue)

lemma shape_first: "shape h H Q \<Longrightarrow> a \<in> H \<Longrightarrow> Q a \<noteq> [] \<Longrightarrow> list_first a h = Some (hd (Q a))"
  by (rule queue_first) (rule shapeD_queue)

lemma shape_first_empty: "shape h H Q \<Longrightarrow> a \<in> H \<Longrightarrow> Q a = [] \<Longrightarrow> list_first a h = Some a"
  using queue_first_empty shapeD_queue by metis

lemma shape_cong: "shape h H Q \<Longrightarrow> (\<And>a. a \<in> H \<Longrightarrow> Q' a = Q a) \<Longrightarrow> shape h H Q'"
  by (simp add: shape_def)

section \<open>The queue interface the kernel uses\<close>

text \<open>
  The scheduler and the system calls use lists only through these operations and these
  laws. \<open>sh h H Q\<close> is the relation above, kept abstract.
\<close>

locale intrusive_queues =
  fixes sh :: "'h \<Rightarrow> 'n set \<Rightarrow> ('n \<Rightarrow> 'n list) \<Rightarrow> bool"
    and add_tail :: "'n \<Rightarrow> 'n \<Rightarrow> 'h \<Rightarrow> 'h option"
    and del :: "'n \<Rightarrow> 'h \<Rightarrow> 'h option"
    and first :: "'n \<Rightarrow> 'h \<Rightarrow> 'n option"
    and cell :: "'h \<Rightarrow> 'n \<Rightarrow> 'c"
  assumes add_tail_law: "sh h H Q \<Longrightarrow> a \<in> H \<Longrightarrow> n \<notin> H \<Longrightarrow> \<not> queued H Q n \<Longrightarrow>
      \<exists>h'. add_tail n a h = Some h' \<and> sh h' H (Q(a := Q a @ [n]))
        \<and> (\<forall>x. x \<notin> H \<and> x \<noteq> n \<and> \<not> queued H Q x \<longrightarrow> cell h' x = cell h x)"
    and del_law: "sh h H Q \<Longrightarrow> a \<in> H \<Longrightarrow> n \<in> set (Q a) \<Longrightarrow>
      \<exists>h'. del n h = Some h' \<and> sh h' H (Q(a := remove1 n (Q a)))
        \<and> (\<forall>x. x \<notin> H \<and> \<not> queued H Q x \<longrightarrow> cell h' x = cell h x)"
    and first_law: "sh h H Q \<Longrightarrow> a \<in> H \<Longrightarrow> Q a \<noteq> [] \<Longrightarrow> first a h = Some (hd (Q a))"
    and disjoint_law: "sh h H Q \<Longrightarrow> a \<in> H \<Longrightarrow> b \<in> H \<Longrightarrow> x \<in> set (Q a) \<Longrightarrow> x \<in> set (Q b) \<Longrightarrow> a = b"
    and distinct_law: "sh h H Q \<Longrightarrow> a \<in> H \<Longrightarrow> distinct (Q a)"
    and head_law: "sh h H Q \<Longrightarrow> a \<in> H \<Longrightarrow> x \<in> set (Q a) \<Longrightarrow> x \<notin> H"
begin

text \<open>A node taken off its list is free to be queued again.\<close>

lemma unqueued_after_del:
  "sh h H Q \<Longrightarrow> a \<in> H \<Longrightarrow> n \<in> set (Q a) \<Longrightarrow> \<not> queued H (Q(a := remove1 n (Q a))) n"
proof
  assume p: "sh h H Q" "a \<in> H" "n \<in> set (Q a)" and "queued H (Q(a := remove1 n (Q a))) n"
  then obtain b where b: "b \<in> H" "n \<in> set ((Q(a := remove1 n (Q a))) b)"
    by (auto simp only: queued_def)
  show False
  proof (cases "b = a")
    case True
    with b p distinct_law [OF p(1,2)] show False by simp
  next
    case False
    with b p show False using disjoint_law [OF p(1,2) b(1) p(3)] by simp
  qed
qed

text \<open>\<open>list_del\<close> followed by \<open>list_add_tail\<close> moves a node between two lists.\<close>

lemma move:
  assumes "sh h H Q" and "a \<in> H" and "b \<in> H" and "n \<in> set (Q a)"
  shows "\<exists>h1 h2. del n h = Some h1 \<and> add_tail n b h1 = Some h2
    \<and> sh h2 H ((Q(a := remove1 n (Q a)))(b := (Q(a := remove1 n (Q a))) b @ [n]))
    \<and> (\<forall>x. x \<notin> H \<and> \<not> queued H Q x \<longrightarrow> cell h2 x = cell h x)"
proof -
  let ?Q1 = "Q(a := remove1 n (Q a))"
  obtain h1 where h1: "del n h = Some h1" "sh h1 H ?Q1"
    "\<And>x. x \<notin> H \<Longrightarrow> \<not> queued H Q x \<Longrightarrow> cell h1 x = cell h x"
    using del_law [OF assms(1,2,4)] by blast
  have "n \<notin> H" using assms head_law by blast
  moreover have "\<not> queued H ?Q1 n" using assms by (intro unqueued_after_del)
  ultimately obtain h2 where h2: "add_tail n b h1 = Some h2" "sh h2 H (?Q1(b := ?Q1 b @ [n]))"
    "\<And>x. x \<notin> H \<Longrightarrow> x \<noteq> n \<Longrightarrow> \<not> queued H ?Q1 x \<Longrightarrow> cell h2 x = cell h1 x"
    using add_tail_law [OF h1(2) assms(3)] by blast
  have "cell h2 x = cell h x" if x: "x \<notin> H" "\<not> queued H Q x" for x
  proof -
    have "x \<noteq> n" using x assms by (auto simp: queued_def)
    moreover have "\<not> queued H ?Q1 x"
      using x notin_set_remove1 by (fastforce simp: queued_def split: if_splits)
    ultimately show ?thesis using x h1(3) h2(3) by simp
  qed
  with h1 h2 show ?thesis by blast
qed

text \<open>The first node of one list moves to the end of another: one round of a drain loop.\<close>

lemma transfer_first:
  assumes "sh h H Q" and "a \<in> H" and "b \<in> H" and "a \<noteq> b" and "Q a = n # r"
  shows "\<exists>h1 h2. first a h = Some n \<and> del n h = Some h1 \<and> add_tail n b h1 = Some h2
    \<and> sh h2 H (Q(a := r, b := Q b @ [n]))
    \<and> (\<forall>x. x \<notin> H \<and> \<not> queued H Q x \<longrightarrow> cell h2 x = cell h x)"
proof -
  have "n \<in> set (Q a)" using assms by simp
  from move [OF assms(1-3) this] show ?thesis
    using assms first_law [OF assms(1,2)] by simp
qed

text \<open>The first node of a list moves to its end: one round of round robin.\<close>

lemma rotate_first:
  assumes "sh h H Q" and "a \<in> H" and "Q a = n # r"
  shows "\<exists>h1 h2. first a h = Some n \<and> del n h = Some h1 \<and> add_tail n a h1 = Some h2
    \<and> sh h2 H (Q(a := r @ [n]))
    \<and> (\<forall>x. x \<notin> H \<and> \<not> queued H Q x \<longrightarrow> cell h2 x = cell h x)"
proof -
  have "n \<in> set (Q a)" using assms by simp
  from move [OF assms(1,2,2) this] show ?thesis
    using assms first_law [OF assms(1,2)] by simp
qed

end

interpretation lq: intrusive_queues shape list_add_tail list_del list_first "\<lambda>h. h"
proof unfold_locales
  fix h :: "'n lheap" and H Q a n
  assume "shape h H Q" "a \<in> H" "n \<notin> H" "\<not> queued H Q n"
  then show "\<exists>h'. list_add_tail n a h = Some h' \<and> shape h' H (Q(a := Q a @ [n]))
      \<and> (\<forall>x. x \<notin> H \<and> x \<noteq> n \<and> \<not> queued H Q x \<longrightarrow> h' x = h x)"
    by (rule shape_add_tail)
next
  fix h :: "'n lheap" and H Q a n
  assume "shape h H Q" "a \<in> H" "n \<in> set (Q a)"
  then show "\<exists>h'. list_del n h = Some h' \<and> shape h' H (Q(a := remove1 n (Q a)))
      \<and> (\<forall>x. x \<notin> H \<and> \<not> queued H Q x \<longrightarrow> h' x = h x)"
    by (rule shape_del)
qed (auto intro: shape_first dest: shapeD_one shapeD_queue [THEN queue_distinct] shapeD_head)

section \<open>Correctness\<close>

definition null_node :: "'n list_head" where
  "null_node = \<lparr>lh_next = None, lh_prev = None\<rparr>"

text \<open>C38: \<open>list_add_tail\<close> is a FIFO insertion: in a heap of well-formed lists it completes, the
  new node becomes the last one a \<open>list_for_each\<close> over the head visits, every other list and
  every node that is on no list is unchanged.\<close>

theorem list_add_tail_fifo:
  assumes "shape h H Q" and "a \<in> H" and "n \<notin> H" and "\<not> queued H Q n"
  shows "\<exists>h'. list_add_tail n a h = Some h' \<and> shape h' H (Q(a := Q a @ [n]))
    \<and> list_for_each a h' = Some (Q a @ [n])
    \<and> (\<forall>b\<in>H. b \<noteq> a \<longrightarrow> list_for_each b h' = list_for_each b h)
    \<and> (\<forall>x. x \<notin> H \<and> x \<noteq> n \<and> \<not> queued H Q x \<longrightarrow> h' x = h x)"
proof -
  obtain h' where h': "list_add_tail n a h = Some h'" "shape h' H (Q(a := Q a @ [n]))"
    "\<forall>x. x \<notin> H \<and> x \<noteq> n \<and> \<not> queued H Q x \<longrightarrow> h' x = h x"
    using lq.add_tail_law [OF assms] by blast
  have "list_for_each b h' = Some ((Q(a := Q a @ [n])) b)" "list_for_each b h = Some (Q b)" if "b \<in> H" for b
    using shapeD_queue [OF h'(2) that] shapeD_queue [OF assms(1) that] by (simp_all add: list_for_each_queue)
  with h' assms(2) show ?thesis by auto
qed

lemma list_add_tail_fifo_witness:
  "\<exists>h'. list_add_tail 1 0 (INIT_LIST_HEAD (0::nat) (\<lambda>_. null_node)) = Some h' \<and> list_for_each 0 h' = Some [1]"
  using list_add_tail_fifo [of "INIT_LIST_HEAD (0::nat) (\<lambda>_. null_node)" "{0}" "\<lambda>_. []" 0 1]
  by (auto simp: shape_def queued_def queue_INIT)

text \<open>A deleted node cannot be deleted again: its pointers are null.\<close>

lemma list_del_twice:
  assumes "shape h H Q" and "a \<in> H" and "n \<in> set (Q a)"
  obtains h' where "list_del n h = Some h'" and "shape h' H (Q(a := remove1 n (Q a)))"
    and "h' n = null_node" and "list_del n h' = None"
proof -
  obtain ys zs where Q: "Q a = ys @ n # zs" using split_list [OF assms(3)] by blast
  have q: "queue h a (ys @ n # zs)" using shapeD_queue [OF assms(1,2)] Q by simp
  obtain h' where h': "list_del n h = Some h'" "shape h' H (Q(a := remove1 n (Q a)))"
    using lq.del_law [OF assms] by blast
  have n: "h' n = null_node" using list_del_queue [OF q] h'(1) by (auto simp: null_node_def)
  then have "list_del n h' = None"
    by (simp add: null_node_def list_del_def list_del_between_def store_next_def store_prev_def)
  with h' n show thesis by (rule that)
qed

text \<open>\<open>list_del\<close> unlinks exactly its node: the other nodes keep their order, the node's own
  pointers become null, so that deleting it a second time dereferences a null pointer.\<close>

theorem list_del_unlinks:
  assumes "shape h H Q" and "a \<in> H" and "n \<in> set (Q a)"
  shows "\<exists>h'. list_del n h = Some h' \<and> shape h' H (Q(a := remove1 n (Q a)))
    \<and> list_for_each a h' = Some (remove1 n (Q a)) \<and> h' n = null_node \<and> list_del n h' = None"
proof -
  obtain h' where h': "list_del n h = Some h'" "shape h' H (Q(a := remove1 n (Q a)))"
    "h' n = null_node" "list_del n h' = None" by (rule list_del_twice [OF assms])
  moreover have "list_for_each a h' = Some (remove1 n (Q a))"
    using shapeD_queue [OF h'(2) assms(2)] by (simp add: list_for_each_queue)
  ultimately show ?thesis by blast
qed

lemma list_del_unlinks_witness:
  "\<exists>h'. list_del 1 (\<lambda>x::nat. if x = 0 then \<lparr>lh_next = Some 1, lh_prev = Some 1\<rparr> else \<lparr>lh_next = Some 0, lh_prev = Some 0\<rparr>)
     = Some h' \<and> list_del 1 h' = None"
  using list_del_unlinks [of "\<lambda>x::nat. if x = 0 then \<lparr>lh_next = Some 1, lh_prev = Some 1\<rparr>
      else \<lparr>lh_next = Some 0, lh_prev = Some 0\<rparr>" "{0}" "\<lambda>_. [1]" 0 1]
  by (auto simp: shape_def queue_def)

text \<open>\<open>list_del\<close> undoes \<open>list_add\<close>: the heap is the same again, cell by cell.\<close>

theorem list_add_del_roundtrip:
  assumes "queue h head xs" and "n \<notin> set (head # xs)" and "h n = null_node"
  shows "\<exists>h'. list_add n head h = Some h' \<and> queue h' head (n # xs) \<and> list_del n h' = Some h"
proof -
  let ?f = "hd (xs @ [head])"
  have "?f \<in> set (head # xs)" by (cases xs) auto
  with assms(2) have nf: "n \<noteq> head" "n \<noteq> ?f" by auto
  have first: "lh_next (h head) = Some ?f" by (rule queue_next [OF assms(1)])
  have last: "lh_prev (h ?f) = Some head"
    using assms(1) by (cases xs) (auto simp: queue_def)
  obtain h' where h': "list_add n head h = Some h'" "queue h' head (n # xs)"
    using list_add_queue [OF assms(1,2)] by blast
  obtain g where g: "list_add n head h = Some g"
    and nx: "\<And>x. lh_next (g x) = (if x = head then Some n else if x = n then Some ?f else lh_next (h x))"
    and pv: "\<And>x. lh_prev (g x) = (if x = ?f then Some n else if x = n then Some head else lh_prev (h x))"
    using list_add_between_fields [OF nf, of h] first by (auto simp: list_add_def)
  have n: "lh_prev (g n) = Some head" "lh_next (g n) = Some ?f" using nf by (simp_all add: nx pv)
  obtain k where k: "list_del n g = Some k"
    and nx': "\<And>x. lh_next (k x) = (if x = head then Some ?f else if x = n then None else lh_next (g x))"
    and pv': "\<And>x. lh_prev (k x) = (if x = ?f then Some head else if x = n then None else lh_prev (g x))"
    using list_del_fields [of g n head ?f] n nf by auto
  have "k x = h x" for x
    using assms(3) first last by (intro list_head.equality) (auto simp: nx' pv' nx pv null_node_def)
  then have "k = h" by (rule ext)
  with g k h' show ?thesis by auto
qed

lemma list_add_del_roundtrip_witness:
  "\<exists>h'. list_add 1 0 (INIT_LIST_HEAD (0::nat) (\<lambda>_. null_node)) = Some h'
     \<and> list_del 1 h' = Some (INIT_LIST_HEAD 0 (\<lambda>_. null_node))"
  using list_add_del_roundtrip [of "INIT_LIST_HEAD (0::nat) (\<lambda>_. null_node)" 0 "[]" 1]
  by (auto simp: queue_INIT INIT_other)

end
