(* ===== verification/Types.thy ===== *)
theory Types
  imports Prelude
begin

text \<open>
  The data formats the kernel shares with the processor and with user programs: the
  constants of \<open>include/errno.h\<close>, \<open>include/segment.h\<close>, \<open>include/mm_address.h\<close> and
  \<open>include/sched.h\<close>, the address-splitting macros and the structures of
  \<open>include/types.h\<close>, and the page table entry, which the code reads both as one 32-bit
  number and as bit fields.
\<close>

section \<open>Constants\<close>

definition EPERM :: u32 where [const_defs]: "EPERM = 1"
definition EBADF :: u32 where [const_defs]: "EBADF = 9"
definition EAGAIN :: u32 where [const_defs]: "EAGAIN = 11"
definition ENOMEM :: u32 where [const_defs]: "ENOMEM = 12"
definition EACCES :: u32 where [const_defs]: "EACCES = 13"
definition EFAULT :: u32 where [const_defs]: "EFAULT = 14"
definition EBUSY :: u32 where [const_defs]: "EBUSY = 16"
definition EINVAL :: u32 where [const_defs]: "EINVAL = 22"
definition ENOSYS :: u32 where [const_defs]: "ENOSYS = 38"

definition KERNEL_CS :: u16 where [const_defs]: "KERNEL_CS = 0x10"
definition KERNEL_DS :: u16 where [const_defs]: "KERNEL_DS = 0x18"
definition USER_CS :: u16 where [const_defs]: "USER_CS = 0x23"
definition USER_DS :: u16 where [const_defs]: "USER_DS = 0x2B"
definition KERNEL_TSS :: u16 where [const_defs]: "KERNEL_TSS = 0x30"

definition TOTAL_PAGES :: nat where [simp]: "TOTAL_PAGES = 1024"
definition NUM_PAG_KERNEL :: nat where [simp]: "NUM_PAG_KERNEL = 256"
definition L_USER_START :: u32 where [simp]: "L_USER_START = 0x100000"
definition PAG_LOG_INIT_CODE :: nat where [simp]: "PAG_LOG_INIT_CODE = 0x100000 div 2 ^ 12"
definition NUM_PAG_CODE :: nat where [simp]: "NUM_PAG_CODE = 8"
definition PAG_LOG_INIT_DATA :: nat where [simp]: "PAG_LOG_INIT_DATA = PAG_LOG_INIT_CODE + NUM_PAG_CODE"
definition NUM_PAG_DATA :: nat where [simp]: "NUM_PAG_DATA = 20"
definition PAGE_SIZE :: nat where [simp]: "PAGE_SIZE = 0x1000"
definition USER_FIRST_PAGE :: u32 where [simp]: "USER_FIRST_PAGE = drop_bit 12 L_USER_START"
definition USER_ESP :: u32 where
  [const_defs]: "USER_ESP = L_USER_START + (8 + 20) * 0x1000 - 16"

definition NR_TASKS :: nat where [simp]: "NR_TASKS = 10"
definition NR_THREADS :: nat where [simp]: "NR_THREADS = 20"
definition NR_MUTEX :: nat where [simp]: "NR_MUTEX = 20"
definition KERNEL_STACK_SIZE :: nat where [simp]: "KERNEL_STACK_SIZE = 1024"
definition DEFAULT_QUANTUM_P :: u32 where [const_defs]: "DEFAULT_QUANTUM_P = 20"
definition DEFAULT_QUANTUM_T :: u32 where [const_defs]: "DEFAULT_QUANTUM_T = 10"

section \<open>Splitting addresses\<close>

definition highWord :: "u32 \<Rightarrow> u16" where
  "highWord address = ucast (drop_bit 16 address AND 0xFFFF)"

definition lowWord :: "u32 \<Rightarrow> u16" where
  "lowWord address = ucast (address AND 0xFFFF)"

definition midByte :: "u32 \<Rightarrow> u8" where
  "midByte address = ucast (drop_bit 16 address AND 0xFF)"

definition highByte :: "u32 \<Rightarrow> u8" where
  "highByte address = ucast (drop_bit (16 + 8) address AND 0xFF)"

text \<open>How the processor puts the parts back together.\<close>

definition join_words :: "u16 \<Rightarrow> u16 \<Rightarrow> u32" where
  "join_words hi lo = push_bit 16 (ucast hi) OR ucast lo"

definition join_base :: "u8 \<Rightarrow> u8 \<Rightarrow> u16 \<Rightarrow> u32" where
  "join_base hi mid lo = push_bit 24 (ucast hi) OR push_bit 16 (ucast mid) OR ucast lo"

text \<open>The masks of the code keep the low bits of a word.\<close>

lemma and_masks:
  "x AND 0xFFFF = take_bit 16 (x :: u32)" "x AND 0xFF = take_bit 8 (x :: u32)"
  "x AND 0xFFF = take_bit 12 (x :: u32)" "x AND 0xFFFFF = take_bit 20 (x :: u32)"
  by (simp_all add: take_bit_eq_mask mask_eq_exp_minus_1)

lemma join_words_split: "join_words (highWord a) (lowWord a) = a"
  by (rule bit_word_eqI)
    (auto simp: join_words_def highWord_def lowWord_def bit_simps and_masks)

lemma join_base_split: "join_base (highByte a) (midByte a) (lowWord a) = a"
proof (rule bit_word_eqI)
  fix n assume n: "n < LENGTH(32)"
  then have "24 \<le> n \<or> (16 \<le> n \<and> n - 16 < 8) \<or> n < 16" by auto
  with n show "bit (join_base (highByte a) (midByte a) (lowWord a)) n = bit a n"
    by (auto simp: join_base_def highByte_def midByte_def lowWord_def bit_simps and_masks)
qed

section \<open>Structures the processor reads\<close>

record Gate =
  lowOffset :: u16
  segmentSelector :: u16
  gate_flags :: u16
  highOffset :: u16

record Descriptor =
  desc_limit :: u16
  lowBase :: u16
  midBase :: u8
  flags1 :: u8
  flags2 :: u8
  highBase :: u8

record Register =
  reg_limit :: u16
  reg_base :: u32

section \<open>Page table entries\<close>

text \<open>
  The union \<open>page_table_entry\<close>: its \<open>entry\<close> view is the word itself; the \<open>bits\<close> view
  has \<open>present\<close> in bit 0, \<open>rw\<close> in bit 1, \<open>user\<close> in bit 2 and \<open>pbase_addr\<close> in bits
  12 to 31. A store to the 20-bit field keeps the low 20 bits of the value.
\<close>

type_synonym page_table_entry = u32

definition pte_present :: "page_table_entry \<Rightarrow> bool" where "pte_present e = bit e 0"
definition pte_rw :: "page_table_entry \<Rightarrow> bool" where "pte_rw e = bit e 1"
definition pte_user :: "page_table_entry \<Rightarrow> bool" where "pte_user e = bit e 2"
definition pbase_addr :: "page_table_entry \<Rightarrow> u32" where "pbase_addr e = drop_bit 12 e"

definition set_present :: "bool \<Rightarrow> page_table_entry \<Rightarrow> page_table_entry" where
  "set_present v e = (if v then set_bit 0 e else unset_bit 0 e)"
definition set_rw :: "bool \<Rightarrow> page_table_entry \<Rightarrow> page_table_entry" where
  "set_rw v e = (if v then set_bit 1 e else unset_bit 1 e)"
definition set_user :: "bool \<Rightarrow> page_table_entry \<Rightarrow> page_table_entry" where
  "set_user v e = (if v then set_bit 2 e else unset_bit 2 e)"
definition set_pbase_addr :: "u32 \<Rightarrow> page_table_entry \<Rightarrow> page_table_entry" where
  "set_pbase_addr f e = (e AND 0xFFF) OR push_bit 12 f"

lemmas pte_defs = pte_present_def pte_rw_def pte_user_def pbase_addr_def
  set_present_def set_rw_def set_user_def set_pbase_addr_def

lemma pte_set_flags [simp]:
  "pte_present (set_present v e) = v" "pte_present (set_rw v e) = pte_present e"
  "pte_present (set_user v e) = pte_present e" "pte_present (set_pbase_addr f e) = pte_present e"
  "pte_rw (set_present v e) = pte_rw e" "pte_rw (set_rw v e) = v"
  "pte_rw (set_user v e) = pte_rw e" "pte_rw (set_pbase_addr f e) = pte_rw e"
  "pte_user (set_present v e) = pte_user e" "pte_user (set_rw v e) = pte_user e"
  "pte_user (set_user v e) = v" "pte_user (set_pbase_addr f e) = pte_user e"
  by (auto simp: pte_defs bit_simps and_masks)

lemma drop_bit_set_low:
  "k < m \<Longrightarrow> drop_bit m (set_bit k (e :: u32)) = drop_bit m e"
  "k < m \<Longrightarrow> drop_bit m (unset_bit k (e :: u32)) = drop_bit m e"
  by (rule bit_word_eqI, auto simp: bit_simps dest: bit_imp_le_length)+

lemma pbase_addr_set_flags [simp]:
  "pbase_addr (set_present v e) = pbase_addr e" "pbase_addr (set_rw v e) = pbase_addr e"
  "pbase_addr (set_user v e) = pbase_addr e"
  unfolding pte_defs by (simp_all only: drop_bit_set_low split: if_split) simp_all

lemma pbase_addr_set_pbase [simp]: "pbase_addr (set_pbase_addr f e) = f AND 0xFFFFF"
  by (rule bit_word_eqI) (auto simp: pte_defs bit_simps and_masks)

lemma pte_zero [simp]:
  "pbase_addr 0 = 0" "\<not> pte_present 0" "\<not> pte_rw 0" "\<not> pte_user 0"
  by (simp_all add: pte_defs)

lemma and_20_bits: "unat f < 2 ^ 20 \<Longrightarrow> f AND 0xFFFFF = (f :: u32)"
  by (simp add: and_masks word_unat_eq_iff unsigned_take_bit_eq take_bit_nat_eq_self)

end
