(* ===== verification/Layout.thy ===== *)
theory Layout
  imports Lists Types
begin

text \<open>
  Where the kernel's objects lie. Task and thread descriptors are unions with a
  one-page kernel stack and live in page-aligned arrays (section \<open>.data.task\<close> of
  \<open>system.lds\<close>); \<open>list_head_to_task_struct\<close>, \<open>list_head_to_thread_struct\<close> and
  \<open>current_t\<close> recover a descriptor by clearing the low twelve bits of an address that
  points into it. The base addresses are chosen by the linker: they are the record
  \<open>symbols\<close>, and \<open>layout_ok\<close> states what \<open>system.lds\<close> guarantees about them. List heads
  are named symbolically by \<open>lnode\<close>; \<open>node_addr\<close> gives their addresses, from the field
  offsets of the C structures (all fields are 4 bytes wide).
\<close>

section \<open>Addresses\<close>

record symbols =
  task_base :: u32        \<comment> \<open>\<open>&protected_tasks[1]\<close>, that is \<open>task\<close>\<close>
  thread_base :: u32      \<comment> \<open>\<open>&thread_tasks[0]\<close>\<close>
  dir_base :: u32         \<comment> \<open>\<open>&dir_pages[0]\<close>\<close>
  pagusr_base :: u32      \<comment> \<open>\<open>&pagusr_table[0]\<close>\<close>
  mutex_base :: u32       \<comment> \<open>\<open>&mutex_vector[0]\<close>\<close>
  freequeue_addr :: u32
  readyqueue_addr :: u32
  free_threadqueue_addr :: u32
  cpu_idle_addr :: u32
  ret_from_fork_addr :: u32
  sysenter_fin_addr :: u32  \<comment> \<open>where \<open>system_call_handler\<close> goes on after the call\<close>

text \<open>The list nodes of the kernel: three queue heads and the nodes inside descriptors.\<close>

datatype lnode =
    Freequeue | Readyqueue | Free_threadqueue
  | TaskList nat | ReadyThreads nat | BlockedThreads nat
  | ThreadList nat
  | MutexBlocked nat

text \<open>Element \<open>i\<close> of an array of page-sized elements, and the element an address starts.\<close>

definition elem_addr :: "u32 \<Rightarrow> nat \<Rightarrow> u32" where
  "elem_addr base i = base + of_nat (4096 * i)"

definition elem_at :: "u32 \<Rightarrow> nat \<Rightarrow> u32 \<Rightarrow> nat option" where
  "elem_at base n a =
     (if unat base \<le> unat a \<and> (unat a - unat base) mod 4096 = 0
         \<and> (unat a - unat base) div 4096 < n
      then Some ((unat a - unat base) div 4096) else None)"

definition task_addr :: "symbols \<Rightarrow> nat \<Rightarrow> u32" where
  "task_addr \<sigma> i = elem_addr (task_base \<sigma>) i"

definition thread_addr :: "symbols \<Rightarrow> nat \<Rightarrow> u32" where
  "thread_addr \<sigma> i = elem_addr (thread_base \<sigma>) i"

definition task_at :: "symbols \<Rightarrow> u32 \<Rightarrow> nat option" where
  "task_at \<sigma> a = elem_at (task_base \<sigma>) NR_TASKS a"

definition thread_at :: "symbols \<Rightarrow> u32 \<Rightarrow> nat option" where
  "thread_at \<sigma> a = elem_at (thread_base \<sigma>) (NR_THREADS + 2) a"

text \<open>
  Offsets: \<open>task_struct\<close> has \<open>list\<close> at 8, \<open>ready_threads\<close> at 24, \<open>blocked_threads\<close> at
  32; \<open>thread_struct\<close> has \<open>list\<close> at 24; \<open>mutex_t\<close> is 20 bytes with \<open>blocked\<close> at 12.
\<close>

definition node_addr :: "symbols \<Rightarrow> lnode \<Rightarrow> u32" where
  "node_addr \<sigma> l =
     (case l of
        Freequeue \<Rightarrow> freequeue_addr \<sigma>
      | Readyqueue \<Rightarrow> readyqueue_addr \<sigma>
      | Free_threadqueue \<Rightarrow> free_threadqueue_addr \<sigma>
      | TaskList i \<Rightarrow> task_addr \<sigma> i + 8
      | ReadyThreads i \<Rightarrow> task_addr \<sigma> i + 24
      | BlockedThreads i \<Rightarrow> task_addr \<sigma> i + 32
      | ThreadList i \<Rightarrow> thread_addr \<sigma> i + 24
      | MutexBlocked n \<Rightarrow> mutex_base \<sigma> + of_nat (20 * n) + 12)"

text \<open>
  The casts only clear bits and never fail. A caller that uses the result names the descriptor with
  \<^const>\<open>task_at\<close> or \<^const>\<open>thread_at\<close>. These are \<^const>\<open>None\<close> for a page that holds none, such as
  that of a list head; the code would take whatever lies there for a descriptor, the model does
  not follow it.
\<close>

definition list_head_to_task_struct :: "symbols \<Rightarrow> lnode \<Rightarrow> u32" where
  "list_head_to_task_struct \<sigma> l = node_addr \<sigma> l AND 0xfffff000"

definition list_head_to_thread_struct :: "symbols \<Rightarrow> lnode \<Rightarrow> u32" where
  "list_head_to_thread_struct \<sigma> l = node_addr \<sigma> l AND 0xfffff000"

text \<open>
  Word \<open>k\<close> of a thread's kernel stack, \<open>&stack[k]\<close>, and the cell a kernel stack
  pointer addresses.
\<close>

definition stack_addr :: "symbols \<Rightarrow> nat \<Rightarrow> nat \<Rightarrow> u32" where
  "stack_addr \<sigma> i k = thread_addr \<sigma> i + of_nat (4 * k)"

definition stack_slot :: "symbols \<Rightarrow> u32 \<Rightarrow> (nat \<times> nat) option" where
  "stack_slot \<sigma> a =
     (case thread_at \<sigma> (a AND 0xfffff000) of
        None \<Rightarrow> None
      | Some i \<Rightarrow> if unat a mod 4 = 0 then Some (i, unat a mod 4096 div 4) else None)"

section \<open>What the linker script guarantees\<close>

text \<open>
  The kernel image lies between \<open>0x10000\<close> and \<open>0x100000\<close>. Section \<open>.data.task\<close> starts on
  a page boundary after \<open>.data\<close> and \<open>.bss\<close>; it holds the page-sized arrays, each element
  on a page of its own, with \<open>protected_tasks[0]\<close> and \<open>protected_tasks[11]\<close> around the
  tasks.
\<close>

definition in_data_task :: "u32 \<Rightarrow> nat \<Rightarrow> bool" where
  "in_data_task base n \<longleftrightarrow> unat base mod 4096 = 0 \<and> 0x10000 \<le> unat base \<and> unat base + 4096 * n \<le> 0x100000"

definition apart :: "u32 \<Rightarrow> nat \<Rightarrow> u32 \<Rightarrow> nat \<Rightarrow> bool" where
  "apart a n b m \<longleftrightarrow> unat a + n \<le> unat b \<or> unat b + m \<le> unat a"

definition before_data_task :: "symbols \<Rightarrow> u32 \<Rightarrow> nat \<Rightarrow> bool" where
  "before_data_task \<sigma> a n \<longleftrightarrow> 0x10000 \<le> unat a \<and> unat a + n \<le> unat (task_base \<sigma>)
     \<and> unat a + n \<le> unat (thread_base \<sigma>)"

definition layout_ok :: "symbols \<Rightarrow> bool" where
  "layout_ok \<sigma> \<longleftrightarrow>
     in_data_task (task_base \<sigma>) 11 \<and> in_data_task (thread_base \<sigma>) 22
   \<and> in_data_task (dir_base \<sigma>) 10 \<and> in_data_task (pagusr_base \<sigma>) 10
   \<and> apart (task_base \<sigma>) (4096 * 11) (thread_base \<sigma>) (4096 * 22)
   \<and> before_data_task \<sigma> (mutex_base \<sigma>) 440 \<and> before_data_task \<sigma> (freequeue_addr \<sigma>) 8
   \<and> before_data_task \<sigma> (readyqueue_addr \<sigma>) 8 \<and> before_data_task \<sigma> (free_threadqueue_addr \<sigma>) 8
   \<and> apart (freequeue_addr \<sigma>) 8 (readyqueue_addr \<sigma>) 8
   \<and> apart (freequeue_addr \<sigma>) 8 (free_threadqueue_addr \<sigma>) 8
   \<and> apart (readyqueue_addr \<sigma>) 8 (free_threadqueue_addr \<sigma>) 8
   \<and> apart (mutex_base \<sigma>) 440 (freequeue_addr \<sigma>) 8 \<and> apart (mutex_base \<sigma>) 440 (readyqueue_addr \<sigma>) 8
   \<and> apart (mutex_base \<sigma>) 440 (free_threadqueue_addr \<sigma>) 8"

section \<open>Clearing the low twelve bits\<close>

lemma unat_page_mask: "unat (a AND 0xfffff000 :: u32) = unat a - unat a mod 4096"
proof -
  have "(0xfffff000 :: u32) = NOT (mask 12)"
    by (simp add: mask_eq_exp_minus_1 not_eq_complement)
  moreover have "a AND NOT (mask 12) = push_bit 12 (drop_bit 12 a)"
    by (rule bit_word_eqI) (auto simp: bit_simps)
  moreover have "push_bit 12 (drop_bit 12 a) + take_bit 12 a = a" by (rule bits_ident)
  ultimately have "a AND 0xfffff000 = a - take_bit 12 a" by (simp add: eq_diff_eq)
  moreover have "unat (take_bit 12 a) = unat a mod 4096"
    by (simp only: unsigned_take_bit_eq) (simp add: take_bit_eq_mod)
  moreover from this have "take_bit 12 a \<le> a" by (simp add: word_le_nat_alt)
  ultimately show ?thesis by (simp add: unat_sub)
qed

lemma unat_elem_addr:
  "unat base + 4096 * i < 2 ^ 32 \<Longrightarrow> unat (elem_addr base i) = unat base + 4096 * i"
  unfolding elem_addr_def by (rule unat_add_of_nat32)

lemma elem_at_elem_addr:
  "i < n \<Longrightarrow> unat base + 4096 * i < 2 ^ 32 \<Longrightarrow> elem_at base n (elem_addr base i) = Some i"
  by (simp add: elem_at_def unat_elem_addr)

lemma elem_at_mask:
  assumes "unat base mod 4096 = 0" and "i < n" and "unat base + 4096 * i + d < 2 ^ 32" and "d < 4096"
  shows "elem_at base n (elem_addr base i + of_nat d AND 0xfffff000) = Some i"
proof -
  have "unat (elem_addr base i + of_nat d) = unat base + 4096 * i + d"
    using assms by (subst unat_add_of_nat32) (simp_all add: unat_elem_addr)
  moreover have "(unat base + 4096 * i + d) mod 4096 = d"
    using assms(1,4) by (metis mod_add_left_eq mod_mult_self2 mod_less add_0)
  ultimately have "unat (elem_addr base i + of_nat d AND 0xfffff000) = unat base + 4096 * i"
    by (simp add: unat_page_mask)
  with assms show ?thesis by (simp add: elem_at_def)
qed

lemma elem_at_outside:
  assumes "unat a < unat base \<or> unat base + 4096 * n \<le> unat a" and "unat base mod 4096 = 0"
  shows "elem_at base n (a AND 0xfffff000) = None"
proof (cases "unat a < unat base")
  case True
  moreover have "unat a - unat a mod 4096 \<le> unat a" by simp
  ultimately have "\<not> unat base \<le> unat a - unat a mod 4096" by linarith
  then show ?thesis by (simp add: elem_at_def unat_page_mask)
next
  case False
  with assms obtain b where b: "unat base = 4096 * b" "4096 * (b + n) \<le> unat a"
    by (auto simp: mod_eq_0_iff_dvd algebra_simps elim!: dvdE)
  then have "b + n \<le> unat a div 4096" by (simp add: less_eq_div_iff_mult_less_eq mult.commute)
  then have "4096 * (b + n) \<le> unat a - unat a mod 4096" by (simp add: minus_mod_eq_mult_div)
  with b have "n \<le> (unat a - unat a mod 4096 - unat base) div 4096"
    by (simp add: less_eq_div_iff_mult_less_eq algebra_simps)
  then show ?thesis by (simp add: elem_at_def unat_page_mask)
qed

text \<open>The bounds the proofs use, one by one.\<close>

lemma layout_task:
  "layout_ok \<sigma> \<Longrightarrow> unat (task_base \<sigma>) mod 4096 = 0"
  "layout_ok \<sigma> \<Longrightarrow> unat (task_base \<sigma>) + 4096 * 11 \<le> 0x100000"
  by (simp_all only: layout_ok_def in_data_task_def)

lemma layout_thread:
  "layout_ok \<sigma> \<Longrightarrow> unat (thread_base \<sigma>) mod 4096 = 0"
  "layout_ok \<sigma> \<Longrightarrow> unat (thread_base \<sigma>) + 4096 * 22 \<le> 0x100000"
  by (simp_all only: layout_ok_def in_data_task_def)

lemma layout_tables:
  "layout_ok \<sigma> \<Longrightarrow> unat (dir_base \<sigma>) + 4096 * 10 \<le> 0x100000"
  "layout_ok \<sigma> \<Longrightarrow> unat (pagusr_base \<sigma>) mod 4096 = 0"
  "layout_ok \<sigma> \<Longrightarrow> unat (pagusr_base \<sigma>) + 4096 * 10 \<le> 0x100000"
  by (simp_all only: layout_ok_def in_data_task_def)

lemma layout_apart:
  "layout_ok \<sigma> \<Longrightarrow> unat (task_base \<sigma>) + 4096 * 11 \<le> unat (thread_base \<sigma>)
     \<or> unat (thread_base \<sigma>) + 4096 * 22 \<le> unat (task_base \<sigma>)"
  by (simp only: layout_ok_def apart_def)

lemma layout_mutex:
  "layout_ok \<sigma> \<Longrightarrow> unat (mutex_base \<sigma>) + 440 \<le> unat (task_base \<sigma>)"
  "layout_ok \<sigma> \<Longrightarrow> unat (mutex_base \<sigma>) + 440 \<le> unat (thread_base \<sigma>)"
  by (simp_all only: layout_ok_def before_data_task_def)

lemma task_of_node:
  "layout_ok \<sigma> \<Longrightarrow> i < NR_TASKS \<Longrightarrow> task_at \<sigma> (list_head_to_task_struct \<sigma> (TaskList i)) = Some i"
  using elem_at_mask [of "task_base \<sigma>" i 10 8] layout_task [of \<sigma>]
  by (simp add: list_head_to_task_struct_def task_at_def node_addr_def task_addr_def)

lemma thread_of_node:
  "layout_ok \<sigma> \<Longrightarrow> i < NR_THREADS + 2 \<Longrightarrow> thread_at \<sigma> (list_head_to_thread_struct \<sigma> (ThreadList i)) = Some i"
  using elem_at_mask [of "thread_base \<sigma>" i 22 24] layout_thread [of \<sigma>]
  by (simp add: list_head_to_thread_struct_def thread_at_def node_addr_def thread_addr_def)

text \<open>The head of a queue of threads is not inside a thread descriptor.\<close>

lemma unat_task_field:
  "layout_ok \<sigma> \<Longrightarrow> i < 10 \<Longrightarrow> d < 4096 \<Longrightarrow>
     unat (task_addr \<sigma> i + of_nat d) = unat (task_base \<sigma>) + 4096 * i + d"
  using layout_task(2) [of \<sigma>] unfolding task_addr_def
  by (subst unat_add_of_nat32) (simp_all add: unat_elem_addr)

lemma unat_mutex_field:
  assumes "layout_ok \<sigma>" and "n < 22"
  shows "unat (mutex_base \<sigma> + of_nat (20 * n) + 12) = unat (mutex_base \<sigma>) + 20 * n + 12"
proof -
  have b: "unat (mutex_base \<sigma>) + 440 < 2 ^ 32"
    using layout_mutex(1) [OF assms(1)] layout_task(2) [OF assms(1)] by simp
  have "unat (mutex_base \<sigma> + of_nat (20 * n)) = unat (mutex_base \<sigma>) + 20 * n"
    using assms(2) b by (intro unat_add_of_nat32) simp
  then show ?thesis using assms(2) b by (subst unat_add32) simp_all
qed

lemma thread_of_ready_head:
  assumes "layout_ok \<sigma>" and "i < NR_TASKS"
  shows "thread_at \<sigma> (list_head_to_thread_struct \<sigma> (ReadyThreads i)) = None"
proof -
  have u: "unat (task_addr \<sigma> i + 24) = unat (task_base \<sigma>) + 4096 * i + 24"
    using unat_task_field [of \<sigma> i 24] assms by simp
  have "elem_at (thread_base \<sigma>) (NR_THREADS + 2) (task_addr \<sigma> i + 24 AND 0xfffff000) = None"
  proof (rule elem_at_outside)
    show "unat (task_addr \<sigma> i + 24) < unat (thread_base \<sigma>)
        \<or> unat (thread_base \<sigma>) + 4096 * (NR_THREADS + 2) \<le> unat (task_addr \<sigma> i + 24)"
      using layout_apart [OF assms(1)] assms(2) unfolding u by (simp; linarith)
  qed (rule layout_thread(1) [OF assms(1)])
  then show ?thesis
    by (simp add: list_head_to_thread_struct_def thread_at_def node_addr_def)
qed

lemma thread_of_mutex_head:
  assumes "layout_ok \<sigma>" and "n < NR_MUTEX + 2"
  shows "thread_at \<sigma> (list_head_to_thread_struct \<sigma> (MutexBlocked n)) = None"
proof -
  have n: "n < 22" using assms(2) by simp
  have "elem_at (thread_base \<sigma>) (NR_THREADS + 2) (mutex_base \<sigma> + of_nat (20 * n) + 12 AND 0xfffff000) = None"
  proof (rule elem_at_outside)
    show "unat (mutex_base \<sigma> + of_nat (20 * n) + 12) < unat (thread_base \<sigma>)
        \<or> unat (thread_base \<sigma>) + 4096 * (NR_THREADS + 2) \<le> unat (mutex_base \<sigma> + of_nat (20 * n) + 12)"
      using layout_mutex(2) [OF assms(1)] n unfolding unat_mutex_field [OF assms(1) n] by linarith
  qed (rule layout_thread(1) [OF assms(1)])
  then show ?thesis
    by (simp add: list_head_to_thread_struct_def thread_at_def node_addr_def)
qed

lemma unat_stack_addr:
  "layout_ok \<sigma> \<Longrightarrow> i < 22 \<Longrightarrow> k \<le> 1024 \<Longrightarrow>
     unat (stack_addr \<sigma> i k) = unat (thread_base \<sigma>) + 4096 * i + 4 * k"
  using layout_thread(2) [of \<sigma>] unfolding stack_addr_def thread_addr_def
  by (subst unat_add_of_nat32) (simp_all add: unat_elem_addr)

lemma stack_slot_addr:
  assumes "layout_ok \<sigma>" and "i < 22" and "k < 1024"
  shows "stack_slot \<sigma> (stack_addr \<sigma> i k) = Some (i, k)"
proof -
  let ?a = "stack_addr \<sigma> i k"
  have u: "unat ?a = unat (thread_base \<sigma>) + 4096 * i + 4 * k"
    using assms by (simp add: unat_stack_addr)
  obtain b where b: "unat (thread_base \<sigma>) = 4096 * b"
    using layout_thread(1) [OF assms(1)] by (auto simp: mod_eq_0_iff_dvd elim!: dvdE)
  have "thread_at \<sigma> (?a AND 0xfffff000) = Some i"
    using assms elem_at_mask [of "thread_base \<sigma>" i 22 "4 * k"] layout_thread [OF assms(1)]
    by (simp add: thread_at_def stack_addr_def thread_addr_def)
  moreover have "unat ?a = 4096 * (b + i) + 4 * k" using u b by (simp add: algebra_simps)
  then have "unat ?a mod 4096 = 4 * k" using assms(3) by (simp only: mod_mult_self4) simp
  moreover have "unat ?a = 4 * (1024 * (b + i) + k)" using u b by (simp add: algebra_simps)
  then have "unat ?a mod 4 = 0" by simp
  ultimately show ?thesis by (simp add: stack_slot_def)
qed

section \<open>Distinct nodes occupy distinct memory\<close>

definition valid_node :: "lnode \<Rightarrow> bool" where
  "valid_node l =
     (case l of
        TaskList i \<Rightarrow> i < NR_TASKS | ReadyThreads i \<Rightarrow> i < NR_TASKS | BlockedThreads i \<Rightarrow> i < NR_TASKS
      | ThreadList i \<Rightarrow> i < NR_THREADS + 2 | MutexBlocked n \<Rightarrow> n < NR_MUTEX + 2 | _ \<Rightarrow> True)"

lemma unat_node_addr:
  assumes "layout_ok \<sigma>" and "valid_node l"
  shows "unat (node_addr \<sigma> l) =
     (case l of
        Freequeue \<Rightarrow> unat (freequeue_addr \<sigma>)
      | Readyqueue \<Rightarrow> unat (readyqueue_addr \<sigma>)
      | Free_threadqueue \<Rightarrow> unat (free_threadqueue_addr \<sigma>)
      | TaskList i \<Rightarrow> unat (task_base \<sigma>) + 4096 * i + 8
      | ReadyThreads i \<Rightarrow> unat (task_base \<sigma>) + 4096 * i + 24
      | BlockedThreads i \<Rightarrow> unat (task_base \<sigma>) + 4096 * i + 32
      | ThreadList i \<Rightarrow> unat (thread_base \<sigma>) + 4096 * i + 24
      | MutexBlocked n \<Rightarrow> unat (mutex_base \<sigma>) + 20 * n + 12)"
proof -
  have off: "unat (elem_addr base i + d) = unat base + 4096 * i + unat d"
    if "unat base + 4096 * i + unat d < 2 ^ 32" for base i d
    using that by (subst unat_add32) (simp_all add: unat_elem_addr)
  have base: "unat (task_base \<sigma>) \<le> 0x100000" "unat (thread_base \<sigma>) \<le> 0x100000"
    using layout_task(2) [OF assms(1)] layout_thread(2) [OF assms(1)] by simp_all
  show ?thesis
  proof (cases l)
    case (MutexBlocked n)
    then show ?thesis
      using unat_mutex_field [OF assms(1), of n] assms(2) by (simp add: node_addr_def valid_node_def)
  qed (use assms(2) base in
      \<open>simp_all add: node_addr_def task_addr_def thread_addr_def valid_node_def off\<close>)
qed

definition region :: "lnode \<Rightarrow> nat" where
  "region l = (case l of TaskList _ \<Rightarrow> 1 | ReadyThreads _ \<Rightarrow> 1 | BlockedThreads _ \<Rightarrow> 1
     | ThreadList _ \<Rightarrow> 2 | _ \<Rightarrow> 0)"

lemma region_0:
  assumes "layout_ok \<sigma>" and "valid_node l" and "region l = 0"
  shows "unat (node_addr \<sigma> l) + 8 \<le> unat (task_base \<sigma>) \<and> unat (node_addr \<sigma> l) + 8 \<le> unat (thread_base \<sigma>)"
proof -
  have "before_data_task \<sigma> (mutex_base \<sigma>) 440" "before_data_task \<sigma> (freequeue_addr \<sigma>) 8"
    "before_data_task \<sigma> (readyqueue_addr \<sigma>) 8" "before_data_task \<sigma> (free_threadqueue_addr \<sigma>) 8"
    using assms(1) by (simp_all only: layout_ok_def)
  then show ?thesis
    using assms(3) unat_node_addr [OF assms(1,2)] assms(2)
    by (cases l) (simp_all add: region_def valid_node_def before_data_task_def)
qed

lemma region_1:
  assumes "layout_ok \<sigma>" and "valid_node l" and "region l = 1"
  shows "unat (task_base \<sigma>) \<le> unat (node_addr \<sigma> l)"
    "unat (node_addr \<sigma> l) + 8 \<le> unat (task_base \<sigma>) + 4096 * 11"
  using assms(3) unat_node_addr [OF assms(1,2)] assms(2)
  by (cases l; simp add: region_def valid_node_def)+

lemma region_2:
  assumes "layout_ok \<sigma>" and "valid_node l" and "region l = 2"
  shows "unat (thread_base \<sigma>) \<le> unat (node_addr \<sigma> l)"
    "unat (node_addr \<sigma> l) + 8 \<le> unat (thread_base \<sigma>) + 4096 * 22"
  using assms(3) unat_node_addr [OF assms(1,2)] assms(2)
  by (cases l; simp add: region_def valid_node_def)+

lemma region_cases: "region l = 0 \<or> region l = 1 \<or> region l = 2"
  by (cases l) (simp_all add: region_def)

fun elem_index :: "lnode \<Rightarrow> nat" where
  "elem_index (TaskList i) = i" | "elem_index (ReadyThreads i) = i"
| "elem_index (BlockedThreads i) = i" | "elem_index (ThreadList i) = i" | "elem_index _ = 0"

fun field_offset :: "lnode \<Rightarrow> nat" where
  "field_offset (TaskList _) = 8" | "field_offset (ReadyThreads _) = 24"
| "field_offset (BlockedThreads _) = 32" | "field_offset (ThreadList _) = 24" | "field_offset _ = 0"

lemma page_offsets_apart:
  assumes "i \<noteq> j \<or> a + 8 \<le> b \<or> b + 8 \<le> a" and "a + 8 \<le> 4096" and "b + 8 \<le> 4096"
  shows "base + 4096 * i + a + 8 \<le> base + 4096 * j + b \<or> base + 4096 * j + b + 8 \<le> base + 4096 * i + (a :: nat)"
proof -
  consider "i < j" | "j < i" | "i = j" by linarith
  then show ?thesis using assms by cases linarith+
qed

lemma page_region_apart:
  assumes "layout_ok \<sigma>" and "valid_node l" and "valid_node l'" and "l \<noteq> l'"
    and "region l = region l'" and "region l \<noteq> 0"
  shows "apart (node_addr \<sigma> l) 8 (node_addr \<sigma> l') 8"
proof -
  define base where "base = (if region l = 1 then unat (task_base \<sigma>) else unat (thread_base \<sigma>))"
  have u: "unat (node_addr \<sigma> k) = base + 4096 * elem_index k + field_offset k"
    if "valid_node k" "region k = region l" for k
    using unat_node_addr [OF assms(1) that(1)] that(2) assms(6)
    by (cases k) (auto simp: region_def base_def split: lnode.splits if_splits)
  have "elem_index l \<noteq> elem_index l' \<or> field_offset l + 8 \<le> field_offset l'
      \<or> field_offset l' + 8 \<le> field_offset l"
    using assms(4-6) by (cases l; cases l') (auto simp: region_def)
  moreover have "field_offset k + 8 \<le> 4096" for k by (cases k) auto
  ultimately show ?thesis
    unfolding apart_def using u [of l] u [of l'] assms(2,3,5) page_offsets_apart by simp
qed

lemma data_region_apart:
  assumes "layout_ok \<sigma>" and "valid_node l" and "valid_node l'" and "l \<noteq> l'"
    and "region l = 0" and "region l' = 0"
  shows "apart (node_addr \<sigma> l) 8 (node_addr \<sigma> l') 8"
proof -
  have inside: "unat m + 20 * n + 12 + 8 \<le> unat q \<or> unat q + 8 \<le> unat m + 20 * n + 12"
    if "apart m 440 q 8" "n < 22" for m q :: u32 and n
    using that by (auto simp: apart_def)
  have one: "apart (freequeue_addr \<sigma>) 8 (readyqueue_addr \<sigma>) 8"
    "apart (freequeue_addr \<sigma>) 8 (free_threadqueue_addr \<sigma>) 8"
    "apart (readyqueue_addr \<sigma>) 8 (free_threadqueue_addr \<sigma>) 8"
    "apart (mutex_base \<sigma>) 440 (freequeue_addr \<sigma>) 8" "apart (mutex_base \<sigma>) 440 (readyqueue_addr \<sigma>) 8"
    "apart (mutex_base \<sigma>) 440 (free_threadqueue_addr \<sigma>) 8"
    using assms(1) by (simp_all add: layout_ok_def)
  note mutexes = one(4-6) [THEN inside]
  have two: "20 * i + 20 \<le> 20 * j \<or> 20 * j + 20 \<le> 20 * i" if "i \<noteq> j" for i j :: nat
    using that by linarith
  show ?thesis
    unfolding apart_def unat_node_addr [OF assms(1,2)] unat_node_addr [OF assms(1,3)]
    using one(1-3) assms(2-6)
    by (cases l; cases l')
      (auto simp: region_def valid_node_def apart_def add.assoc [symmetric] dest: mutexes two)
qed

lemma node_addr_apart:
  assumes "layout_ok \<sigma>" and "valid_node l" and "valid_node l'" and "l \<noteq> l'"
  shows "apart (node_addr \<sigma> l) 8 (node_addr \<sigma> l') 8"
proof (cases "region l = region l'")
  case True
  with assms show ?thesis
    by (cases "region l = 0") (auto intro: data_region_apart page_region_apart)
next
  case False
  note tt = layout_apart [OF assms(1)]
  note l = region_0 [OF assms(1,2), THEN conjunct1] region_0 [OF assms(1,2), THEN conjunct2] region_1 [OF assms(1,2)] region_2 [OF assms(1,2)]
  note l' = region_0 [OF assms(1,3), THEN conjunct1] region_0 [OF assms(1,3), THEN conjunct2] region_1 [OF assms(1,3)] region_2 [OF assms(1,3)]
  from False region_cases [of l] region_cases [of l'] consider
      "region l = 0" "region l' = 1" | "region l = 0" "region l' = 2"
    | "region l = 1" "region l' = 0" | "region l = 1" "region l' = 2"
    | "region l = 2" "region l' = 0" | "region l = 2" "region l' = 1" by linarith
  then show ?thesis
  proof cases
    case 1
    then show ?thesis using l(1) l'(3) by (simp add: apart_def)
  next
    case 2
    then show ?thesis using l(2) l'(5) by (simp add: apart_def)
  next
    case 3
    then show ?thesis using l(3) l'(1) by (simp add: apart_def)
  next
    case 4
    then show ?thesis using l(3,4) [OF 4(1)] l'(5,6) [OF 4(2)] tt unfolding apart_def by linarith
  next
    case 5
    then show ?thesis using l(5) l'(2) by (simp add: apart_def)
  next
    case 6
    then show ?thesis using l(5,6) [OF 6(1)] l'(3,4) [OF 6(2)] tt unfolding apart_def by linarith
  qed
qed

section \<open>Correctness\<close>

text \<open>One way the linker may place the objects.\<close>

definition example_layout :: symbols where
  "example_layout = \<lparr>task_base = 0x21000, thread_base = 0x30000, dir_base = 0x50000, pagusr_base = 0x60000,
     mutex_base = 0x18000, freequeue_addr = 0x19000, readyqueue_addr = 0x19010,
     free_threadqueue_addr = 0x19020, cpu_idle_addr = 0x11000, ret_from_fork_addr = 0x11100,
     sysenter_fin_addr = 0x11200\<rparr>"

lemma example_layout_ok: "layout_ok example_layout"
  by (simp add: layout_ok_def example_layout_def in_data_task_def apart_def before_data_task_def)

text \<open>\<open>list_head_to_task_struct\<close> and \<open>list_head_to_thread_struct\<close> invert the placement of
  the nodes: from a node inside a descriptor they recover that descriptor, and from the head
  of a thread queue that lies in a task or a mutex no thread at all.\<close>

theorem list_head_conversions:
  assumes "layout_ok \<sigma>"
  shows "(i < NR_TASKS \<longrightarrow> task_at \<sigma> (list_head_to_task_struct \<sigma> (TaskList i)) = Some i
      \<and> thread_at \<sigma> (list_head_to_thread_struct \<sigma> (ReadyThreads i)) = None)
    \<and> (t < NR_THREADS + 2 \<longrightarrow> thread_at \<sigma> (list_head_to_thread_struct \<sigma> (ThreadList t)) = Some t)
    \<and> (m < NR_MUTEX \<longrightarrow> thread_at \<sigma> (list_head_to_thread_struct \<sigma> (MutexBlocked m)) = None)"
  using task_of_node [OF assms, of i] thread_of_node [OF assms, of t] thread_of_ready_head [OF assms, of i]
    thread_of_mutex_head [OF assms, of m] by simp

lemma list_head_conversions_witness:
  "thread_at example_layout (list_head_to_thread_struct example_layout (ThreadList 21)) = Some 21"
  using list_head_conversions [OF example_layout_ok, of 0 21 0] by simp

text \<open>C39: the symbolic names of list nodes are faithful: two different nodes of the kernel never
  share a byte, so that writing one cannot change another.\<close>

theorem nodes_do_not_overlap:
  assumes "layout_ok \<sigma>" and "valid_node l" and "valid_node l'" and "l \<noteq> l'"
  shows "apart (node_addr \<sigma> l) 8 (node_addr \<sigma> l') 8"
  using node_addr_apart [OF assms] .

lemma nodes_do_not_overlap_witness:
  "apart (node_addr example_layout (ReadyThreads 9)) 8 (node_addr example_layout (ThreadList 0)) 8"
  by (rule nodes_do_not_overlap [OF example_layout_ok]) (simp_all add: valid_node_def)

end
