(* ===== verification/Mm.thy ===== *)
theory Mm
  imports Types
begin

text \<open>
  Physical frames and page tables (\<open>mm.c\<close>): the byte map \<open>phys_mem\<close> with
  \<open>init_frames\<close>, \<open>alloc_frame\<close> and \<open>free_frame\<close>, and the operations on one page table,
  \<open>set_ss_pag\<close>, \<open>del_ss_pag\<close> and \<open>get_frame\<close>, with the address translation the
  processor performs through such a table. The interface of the frame allocator is the
  locale \<open>frame_pool\<close>; its client is the loop that maps a run of fresh pages.
\<close>

section \<open>Frames\<close>

definition FREE_FRAME :: u8 where [simp]: "FREE_FRAME = 0"
definition USED_FRAME :: u8 where [simp]: "USED_FRAME = 1"

type_synonym frame_map = "nat \<Rightarrow> u8"

definition init_frames :: "frame_map \<Rightarrow> frame_map" where
  "init_frames phys_mem =
     (let m = for_each 0 TOTAL_PAGES (\<lambda>i m. m(i := FREE_FRAME)) phys_mem
      in for_each 0 NUM_PAG_KERNEL (\<lambda>i m. m(i := USED_FRAME)) m)"

function alloc_frame_from :: "nat \<Rightarrow> frame_map \<Rightarrow> u32 \<times> frame_map" where
  "alloc_frame_from i phys_mem =
     (if i < TOTAL_PAGES then
        if phys_mem i = FREE_FRAME then (of_nat i, phys_mem(i := USED_FRAME))
        else alloc_frame_from (i + 2) phys_mem
      else (-1, phys_mem))"
  by pat_completeness auto
termination
  by (relation "measure (\<lambda>(i, m). TOTAL_PAGES - i)") auto

declare alloc_frame_from.simps [simp del]

definition alloc_frame :: "frame_map \<Rightarrow> u32 \<times> frame_map" where
  "alloc_frame phys_mem = alloc_frame_from NUM_PAG_KERNEL phys_mem"

definition free_frame :: "u32 \<Rightarrow> frame_map \<Rightarrow> frame_map" where
  "free_frame frame phys_mem =
     (if unat frame > NUM_PAG_KERNEL \<and> unat frame < TOTAL_PAGES
      then phys_mem(unat frame := FREE_FRAME) else phys_mem)"

text \<open>The frames that \<open>alloc_frame\<close> can hand out: every second one above the kernel.\<close>

definition pool_frame :: "nat \<Rightarrow> bool" where
  "pool_frame i \<longleftrightarrow> NUM_PAG_KERNEL \<le> i \<and> i < TOTAL_PAGES \<and> even i"

definition free_frames :: "frame_map \<Rightarrow> nat set" where
  "free_frames m = {i. pool_frame i \<and> m i = FREE_FRAME}"

lemma finite_free_frames [simp]: "finite (free_frames m)"
  by (rule finite_subset [of _ "{..<1024}"]) (auto simp: free_frames_def pool_frame_def)

lemma for_each_fill:
  "lo \<le> hi \<Longrightarrow> for_each lo hi (\<lambda>i m. m(i := v)) m = (\<lambda>x. if lo \<le> x \<and> x < hi then v else m x)"
proof (induction "hi - lo" arbitrary: lo m)
  case 0
  then show ?case by (auto simp: fun_eq_iff)
next
  case (Suc d)
  then have "for_each (Suc lo) hi (\<lambda>i m. m(i := v)) (m(lo := v))
      = (\<lambda>x. if Suc lo \<le> x \<and> x < hi then v else (m(lo := v)) x)"
    by (intro Suc.hyps(1)) auto
  with Suc.hyps(2) show ?case by (auto simp: for_each_step fun_eq_iff)
qed

lemma init_frames_eq:
  "init_frames m = (\<lambda>x. if x < 256 then USED_FRAME else if x < 1024 then FREE_FRAME else m x)"
  by (auto simp: init_frames_def for_each_fill Let_def fun_eq_iff)

lemma free_frames_init: "free_frames (init_frames m) = {i. pool_frame i}"
  by (auto simp: free_frames_def init_frames_eq pool_frame_def)

lemma card_pool: "card {i. pool_frame i} = 384"
proof -
  have "{i. pool_frame i} = (\<lambda>k. 256 + 2 * k) ` {..<384}"
  proof (intro set_eqI iffI)
    fix i assume "i \<in> {i. pool_frame i}"
    then obtain k where "i = 2 * k" "128 \<le> k" "k < 512" by (auto simp: pool_frame_def)
    then have "i = 256 + 2 * (k - 128)" "k - 128 < 384" by auto
    then show "i \<in> (\<lambda>k. 256 + 2 * k) ` {..<384}" by blast
  qed (auto simp: pool_frame_def)
  moreover have "inj_on (\<lambda>k. 256 + 2 * k :: nat) {..<384}" by (auto intro: inj_onI)
  ultimately show ?thesis by (simp add: card_image)
qed

text \<open>The scan returns the first free frame of its stride, or \<open>-1\<close>.\<close>

lemma alloc_frame_from_spec:
  assumes "even i"
  shows "(\<exists>k\<ge>i. k < 1024 \<and> even k \<and> m k = FREE_FRAME
           \<and> (\<forall>j. i \<le> j \<and> j < k \<and> even j \<longrightarrow> m j \<noteq> FREE_FRAME)
           \<and> alloc_frame_from i m = (of_nat k, m(k := USED_FRAME)))
       \<or> ((\<forall>j. i \<le> j \<and> j < 1024 \<and> even j \<longrightarrow> m j \<noteq> FREE_FRAME)
           \<and> alloc_frame_from i m = (-1, m))"
  using assms
proof (induction i m rule: alloc_frame_from.induct)
  case (1 i m)
  note step = alloc_frame_from.simps [of i m]
  consider (out) "\<not> i < 1024" | (free) "i < 1024" "m i = FREE_FRAME"
    | (used) "i < 1024" "m i \<noteq> FREE_FRAME" by blast
  then show ?case
  proof cases
    case out
    then show ?thesis by (intro disjI2) (auto simp: step)
  next
    case free
    with "1.prems" show ?thesis by (intro disjI1 exI [of _ i]) (auto simp: step fun_upd_def)
  next
    case used
    have skip: "j = i \<or> i + 2 \<le> j" if "i \<le> j" "even j" for j
    proof -
      from that "1.prems" have "j \<noteq> Suc i" by auto
      with that show ?thesis by auto
    qed
    from used "1.prems" have "(\<exists>k\<ge>i + 2. k < 1024 \<and> even k \<and> m k = FREE_FRAME
           \<and> (\<forall>j. i + 2 \<le> j \<and> j < k \<and> even j \<longrightarrow> m j \<noteq> FREE_FRAME)
           \<and> alloc_frame_from (i + 2) m = (of_nat k, m(k := USED_FRAME)))
       \<or> ((\<forall>j. i + 2 \<le> j \<and> j < 1024 \<and> even j \<longrightarrow> m j \<noteq> FREE_FRAME)
           \<and> alloc_frame_from (i + 2) m = (-1, m))"
      by (intro "1.IH") auto
    then show ?thesis
    proof (elim disjE exE conjE)
      fix k assume "i + 2 \<le> k" "k < 1024" "even k" "m k = FREE_FRAME"
        "\<forall>j. i + 2 \<le> j \<and> j < k \<and> even j \<longrightarrow> m j \<noteq> FREE_FRAME"
        "alloc_frame_from (i + 2) m = (of_nat k, m(k := USED_FRAME))"
      with used skip show ?thesis by (intro disjI1 exI [of _ k]) (auto simp: step)
    qed (use used skip in \<open>auto simp: step\<close>)
  qed
qed

lemma alloc_frame_cases:
  obtains (some) k where "k \<in> free_frames m" "\<And>j. j \<in> free_frames m \<Longrightarrow> k \<le> j"
      "alloc_frame m = (of_nat k, m(k := USED_FRAME))"
  | (none) "free_frames m = {}" "alloc_frame m = (-1, m)"
proof -
  have "even NUM_PAG_KERNEL" by simp
  from alloc_frame_from_spec [OF this, of m] show thesis
  proof (elim disjE exE conjE)
    fix k assume k: "NUM_PAG_KERNEL \<le> k" "k < 1024" "even k" "m k = FREE_FRAME"
      "\<forall>j. NUM_PAG_KERNEL \<le> j \<and> j < k \<and> even j \<longrightarrow> m j \<noteq> FREE_FRAME"
      "alloc_frame_from NUM_PAG_KERNEL m = (of_nat k, m(k := USED_FRAME))"
    show thesis
    proof (rule some)
      show "k \<in> free_frames m" using k by (simp add: free_frames_def pool_frame_def)
      show "k \<le> j" if "j \<in> free_frames m" for j
        using that k(5) by (force simp: free_frames_def pool_frame_def not_less [symmetric])
      show "alloc_frame m = (of_nat k, m(k := USED_FRAME))"
        using k(6) by (simp only: alloc_frame_def)
    qed
  next
    assume "\<forall>j. NUM_PAG_KERNEL \<le> j \<and> j < 1024 \<and> even j \<longrightarrow> m j \<noteq> FREE_FRAME"
      "alloc_frame_from NUM_PAG_KERNEL m = (- 1, m)"
    then show thesis
      by (intro none) (auto simp: free_frames_def pool_frame_def alloc_frame_def)
  qed
qed

lemma unat_pool_frame: "pool_frame k \<Longrightarrow> unat (of_nat k :: u32) = k"
  by (rule unat_of_nat32) (auto simp: pool_frame_def)

lemma pool_frame_not_minus1: "pool_frame k \<Longrightarrow> (of_nat k :: u32) \<noteq> -1"
proof
  assume k: "pool_frame k" and "(of_nat k :: u32) = -1"
  then have "unat (of_nat k :: u32) = unat (-1 :: u32)" by simp
  then have "k = 4294967295" using unat_pool_frame [OF k] unat_minus_one32 by simp
  with k show False by (simp add: pool_frame_def)
qed

lemma free_frames_upd:
  "pool_frame k \<Longrightarrow> free_frames (m(k := USED_FRAME)) = free_frames m - {k}"
  "pool_frame k \<Longrightarrow> free_frames (m(k := FREE_FRAME)) = insert k (free_frames m)"
  by (auto simp: free_frames_def)

lemma alloc_frame_fails_iff: "fst (alloc_frame m) = -1 \<longleftrightarrow> free_frames m = {}"
  by (rule alloc_frame_cases [of m])
    (auto simp: free_frames_def dest: pool_frame_not_minus1)


section \<open>The allocator as an interface\<close>

text \<open>
  What the code that maps pages relies on: an allocation hands out a frame that was
  available and nothing else changes, and it fails only when nothing is available.
  \<open>take_frames\<close> is a run of \<open>n\<close> successful allocations.
\<close>

fun take_frames :: "('m \<Rightarrow> u32 \<times> 'm) \<Rightarrow> nat \<Rightarrow> 'm \<Rightarrow> u32 list \<times> 'm" where
  "take_frames alloc 0 m = ([], m)"
| "take_frames alloc (Suc n) m =
     (let (f, m1) = alloc m; (fs, m2) = take_frames alloc n m1 in (f # fs, m2))"

locale frame_pool =
  fixes alloc :: "'m \<Rightarrow> u32 \<times> 'm"
    and avail :: "'m \<Rightarrow> nat set"
  assumes avail_finite: "finite (avail m)"
    and avail_small: "k \<in> avail m \<Longrightarrow> k < 2 ^ 20"
    and alloc_some: "avail m \<noteq> {} \<Longrightarrow>
      \<exists>k m'. k \<in> avail m \<and> alloc m = (of_nat k, m') \<and> avail m' = avail m - {k}"
    and alloc_none: "avail m = {} \<Longrightarrow> alloc m = (-1, m)"
begin

lemma alloc_fails_iff: "fst (alloc m) = -1 \<longleftrightarrow> avail m = {}"
proof (cases "avail m = {}")
  case True
  then show ?thesis by (simp add: alloc_none)
next
  case False
  then obtain k m' where k: "k \<in> avail m" "alloc m = (of_nat k, m')" using alloc_some by blast
  have "unat (of_nat k :: u32) = k" using avail_small [OF k(1)] by (intro unat_of_nat32) simp
  with avail_small [OF k(1)] have "unat (of_nat k :: u32) \<noteq> unat (-1 :: u32)"
    by (simp add: unat_minus_one32)
  then have "(of_nat k :: u32) \<noteq> -1" by metis
  with False k show ?thesis by simp
qed

text \<open>As many allocations as there are available frames succeed, on distinct frames.\<close>

lemma take_frames_spec:
  "n \<le> card (avail m) \<Longrightarrow> take_frames alloc n m = (fs, m') \<Longrightarrow>
     length fs = n \<and> distinct fs \<and> unat ` set fs \<subseteq> avail m \<and> avail m' = avail m - unat ` set fs
       \<and> -1 \<notin> set fs"
proof (induction n arbitrary: m fs m')
  case 0
  then show ?case by simp
next
  case (Suc n)
  have ne: "avail m \<noteq> {}" using Suc.prems(1) by auto
  then obtain k m1 where k: "k \<in> avail m" "alloc m = (of_nat k, m1)" "avail m1 = avail m - {k}"
    using alloc_some by blast
  obtain gs m2 where rest: "take_frames alloc n m1 = (gs, m2)" by fastforce
  with Suc.prems(2) k have e: "fs = of_nat k # gs" "m' = m2" by auto
  have u: "unat (of_nat k :: u32) = k" using avail_small [OF k(1)] by (intro unat_of_nat32) simp
  have "n \<le> card (avail m1)" using Suc.prems(1) k avail_finite [of m] by simp
  note IH = Suc.IH [OF this rest]
  have "(of_nat k :: u32) \<notin> set gs" using IH k u by auto
  moreover have "(of_nat k :: u32) \<noteq> -1" using alloc_fails_iff [of m] ne k by simp
  ultimately show ?case using IH k u e by auto
qed

end

interpretation fp: frame_pool alloc_frame free_frames
proof unfold_locales
  fix m :: frame_map
  show "free_frames m \<noteq> {} \<Longrightarrow> \<exists>k m'. k \<in> free_frames m \<and> alloc_frame m = (of_nat k, m')
      \<and> free_frames m' = free_frames m - {k}"
    by (rule alloc_frame_cases [of m]) (auto simp: free_frames_def)
  show "free_frames m = {} \<Longrightarrow> alloc_frame m = (-1, m)"
    by (rule alloc_frame_cases [of m]) auto
qed (auto simp: free_frames_def pool_frame_def)

section \<open>One page table\<close>

type_synonym page_table = "nat \<Rightarrow> page_table_entry"

definition set_ss_pag :: "page_table \<Rightarrow> nat \<Rightarrow> u32 \<Rightarrow> page_table" where
  "set_ss_pag PT page frame =
     (let p0 = PT(page := 0);
          p1 = p0(page := set_pbase_addr frame (p0 page));
          p2 = p1(page := set_user True (p1 page));
          p3 = p2(page := set_rw True (p2 page))
      in p3(page := set_present True (p3 page)))"

definition del_ss_pag :: "page_table \<Rightarrow> nat \<Rightarrow> page_table" where
  "del_ss_pag PT logical_page = PT(logical_page := 0)"

definition get_frame :: "page_table \<Rightarrow> nat \<Rightarrow> u32" where
  "get_frame PT logical_page = pbase_addr (PT logical_page)"

text \<open>The entry of a read-only user page, as \<open>set_user_pages\<close> writes for code.\<close>

definition set_code_pag :: "page_table \<Rightarrow> nat \<Rightarrow> u32 \<Rightarrow> page_table" where
  "set_code_pag PT page frame =
     (let p0 = PT(page := 0);
          p1 = p0(page := set_pbase_addr frame (p0 page));
          p2 = p1(page := set_user True (p1 page))
      in p2(page := set_present True (p2 page)))"

definition user_entry :: "u32 \<Rightarrow> page_table_entry" where
  "user_entry f = set_present True (set_rw True (set_user True (set_pbase_addr f 0)))"

lemma set_ss_pag_eq: "set_ss_pag PT page f = PT(page := user_entry f)"
  by (simp add: set_ss_pag_def user_entry_def)

lemma user_entry_fields [simp]:
  "pte_present (user_entry f)" "pte_rw (user_entry f)" "pte_user (user_entry f)"
  "pbase_addr (user_entry f) = f AND 0xFFFFF"
  by (simp_all add: user_entry_def)

lemma get_frame_set_same: "unat f < 2 ^ 20 \<Longrightarrow> get_frame (set_ss_pag PT page f) page = f"
  by (simp add: get_frame_def set_ss_pag_eq and_20_bits)

lemma get_frame_set_other:
  "page \<noteq> page' \<Longrightarrow> get_frame (set_ss_pag PT page f) page' = get_frame PT page'"
  by (simp add: get_frame_def set_ss_pag_eq)

lemma get_frame_del: "get_frame (del_ss_pag PT page) page = 0"
  by (simp add: get_frame_def del_ss_pag_def)

section \<open>Address translation\<close>

text \<open>
  What a user-mode access does with a table that maps the first four megabytes: the
  entry of the page must be present and marked user (and writable, for a store).
\<close>

definition translate :: "page_table \<Rightarrow> bool \<Rightarrow> u32 \<Rightarrow> (nat \<times> nat) option" where
  "translate PT write a =
     (let page = unat a div PAGE_SIZE; e = PT page
      in if page < TOTAL_PAGES \<and> pte_present e \<and> pte_user e \<and> (write \<longrightarrow> pte_rw e)
         then Some (unat (pbase_addr e), unat a mod PAGE_SIZE) else None)"

lemma translate_set_ss_pag:
  assumes "page < TOTAL_PAGES" and "unat f < 2 ^ 20" and "unat a div PAGE_SIZE = page"
  shows "translate (set_ss_pag PT page f) w a = Some (unat f, unat a mod PAGE_SIZE)"
  using assms by (simp add: translate_def set_ss_pag_eq and_20_bits Let_def)

lemma translate_del_ss_pag:
  "unat a div PAGE_SIZE = page \<Longrightarrow> translate (del_ss_pag PT page) w a = None"
  by (simp add: translate_def del_ss_pag_def Let_def)

section \<open>Correctness\<close>

text \<open>\<open>alloc_frame\<close> returns the lowest free frame of the pool (the frames 256, 258, ...,
  1022) and marks exactly that one used; it returns -1, changing nothing, if and only if no
  frame of the pool is free.\<close>

theorem alloc_frame_lowest:
  "(free_frames m \<noteq> {} \<longrightarrow> alloc_frame m = (of_nat (Min (free_frames m)), m(Min (free_frames m) := USED_FRAME))
       \<and> free_frames (snd (alloc_frame m)) = free_frames m - {Min (free_frames m)})
   \<and> (fst (alloc_frame m) = -1 \<longleftrightarrow> free_frames m = {}) \<and> (free_frames m = {} \<longrightarrow> snd (alloc_frame m) = m)"
proof (cases rule: alloc_frame_cases [of m])
  case (some k)
  then have "Min (free_frames m) = k" by (intro Min_eqI) auto
  with some show ?thesis using alloc_frame_fails_iff [of m]
    by (auto simp: free_frames_def)
qed (use alloc_frame_fails_iff [of m] in auto)

lemma alloc_frame_lowest_witness:
  "alloc_frame (\<lambda>i. if i = 256 then 1 else 0) = (258, (\<lambda>i. if i = 256 then 1 else 0)(258 := 1))"
proof -
  have "Min (free_frames (\<lambda>i. if i = 256 then 1 else 0)) = 258"
  proof (rule Min_eqI)
    fix y assume "y \<in> free_frames (\<lambda>i. if i = 256 then 1 else 0)"
    then have "256 \<le> y" "even y" "y \<noteq> 256" by (auto simp: free_frames_def pool_frame_def split: if_splits)
    then show "258 \<le> y" by presburger
  qed (simp_all add: free_frames_def pool_frame_def)
  moreover have "free_frames (\<lambda>i. if i = 256 then 1 else 0) \<noteq> {}"
    by (auto simp: free_frames_def pool_frame_def intro!: exI [of _ "258::nat"])
  ultimately show ?thesis
    using alloc_frame_lowest [of "\<lambda>i. if i = 256 then 1 else 0"] by simp
qed

text \<open>After \<open>init_frames\<close> the machine has 384 frames to give: that many calls of
  \<open>alloc_frame\<close> return pairwise different frames, none of them a kernel frame, and the next
  call fails.\<close>

theorem frame_capacity:
  assumes "take_frames alloc_frame 384 (init_frames m) = (fs, m')"
  shows "length fs = 384 \<and> distinct fs \<and> unat ` set fs = {i. pool_frame i} \<and> -1 \<notin> set fs
    \<and> alloc_frame m' = (-1, m')"
proof -
  have c: "card (free_frames (init_frames m)) = 384" by (simp only: free_frames_init card_pool)
  have t: "length fs = 384" "distinct fs" "unat ` set fs \<subseteq> free_frames (init_frames m)"
    "free_frames m' = free_frames (init_frames m) - unat ` set fs" "-1 \<notin> set fs"
    using fp.take_frames_spec [OF _ assms] c by simp_all
  have "inj_on unat (set fs)" by (rule inj_onI) (simp add: word_unat_eq_iff)
  then have "card (unat ` set fs) = 384" using t(1,2) by (simp add: card_image distinct_card)
  then have e: "unat ` set fs = free_frames (init_frames m)"
    using t(3) c by (intro card_subset_eq) simp_all
  then have "free_frames m' = {}" using t(4) by simp
  then have "alloc_frame m' = (-1, m')" by (rule fp.alloc_none)
  with t e show ?thesis by (simp add: free_frames_init)
qed

lemma frame_capacity_witness:
  "\<exists>fs m'. take_frames alloc_frame 384 (init_frames (\<lambda>_. 0)) = (fs, m') \<and> alloc_frame m' = (-1, m')"
  using frame_capacity [of "\<lambda>_. 0"] by (cases "take_frames alloc_frame 384 (init_frames (\<lambda>_. 0))") auto

text \<open>C33: \<open>free_frame\<close> gives a frame back to the pool if and only if it lies strictly between
  256 and 1024; so the first frame of the pool, 256, once allocated never returns, and a
  free frame that is freed after an allocation makes the map what it was.\<close>

theorem free_frame_effect:
  "free_frame f m = (if 256 < unat f \<and> unat f < 1024 then m(unat f := FREE_FRAME) else m)
   \<and> free_frame 256 m = m
   \<and> (256 \<in> free_frames m \<longrightarrow> 256 \<notin> free_frames (free_frame (fst (alloc_frame m)) (snd (alloc_frame m))))
   \<and> (256 \<notin> free_frames m \<longrightarrow> free_frame (fst (alloc_frame m)) (snd (alloc_frame m)) = m)"
proof (cases rule: alloc_frame_cases [of m])
  case (some k)
  have p: "pool_frame k" "m k = FREE_FRAME" using some(1) by (simp_all add: free_frames_def)
  then have u: "unat (of_nat k :: u32) = k" by (simp add: unat_pool_frame)
  have r: "256 \<le> k" "k < 1024" using p(1) by (simp_all add: pool_frame_def)
  have "256 \<in> free_frames m \<Longrightarrow> k = 256" using some(2) [of 256] r(1) by simp
  moreover have "256 \<notin> free_frames m \<Longrightarrow> k \<noteq> 256" using some(1) by auto
  ultimately show ?thesis using some(3) p(2) u r
    by (auto simp: free_frame_def free_frames_def fun_upd_idem)
qed (auto simp: free_frame_def unat_minus_one32)

lemma free_frame_effect_witness:
  "free_frame (fst (alloc_frame (\<lambda>i. if i = 256 then 1 else 0))) (snd (alloc_frame (\<lambda>i. if i = 256 then 1 else 0)))
     = (\<lambda>i. if i = 256 then 1 else 0)"
  using free_frame_effect [of 0 "\<lambda>i. if i = 256 then 1 else 0"] by (simp add: free_frames_def)

text \<open>\<open>set_ss_pag\<close> maps its page, and only its page, to the frame, readable and writable by
  the user; \<open>get_frame\<close> reads the frame back; \<open>del_ss_pag\<close> makes the page inaccessible again.\<close>

theorem set_ss_pag_maps:
  assumes "page < 1024" and "unat f < 2 ^ 20"
  shows "translate (set_ss_pag PT page f) w a =
      (if unat a div 4096 = page then Some (unat f, unat a mod 4096) else translate PT w a)
    \<and> get_frame (set_ss_pag PT page f) page = f
    \<and> translate (del_ss_pag (set_ss_pag PT page f) page) w a =
      (if unat a div 4096 = page then None else translate PT w a)"
  using assms translate_set_ss_pag [of page f a PT w] get_frame_set_same [of f PT page]
  by (auto simp: translate_def set_ss_pag_eq del_ss_pag_def Let_def)

lemma set_ss_pag_maps_witness:
  "translate (set_ss_pag (\<lambda>_. 0) 256 300) True 0x100010 = Some (300, 16)"
  using set_ss_pag_maps [of 256 300 "\<lambda>_. 0" True "0x100010"] by simp

end
