(* ===== verification/Io.thy ===== *)
theory Io
  imports Types
begin

text \<open>
  The text console (\<open>io.c\<close>) and the console device (\<open>devices.c\<close>): the cursor \<open>x\<close>, \<open>y\<close>,
  the video memory at \<open>0xb8000\<close>, 80 columns by 25 rows of 16-bit cells, and the debug
  port \<open>0xe9\<close> to which every character is echoed. Bytes are characters.
\<close>

definition NUM_COLUMNS :: nat where [simp]: "NUM_COLUMNS = 80"
definition NUM_ROWS :: nat where [simp]: "NUM_ROWS = 25"

record console =
  cur_x :: u8
  cur_y :: u8
  vram :: "u32 \<Rightarrow> u16"
  port_e9 :: "u8 list"  \<comment> \<open>bytes sent to the debug port, oldest first\<close>

text \<open>The initial values of the globals: \<open>Byte x, y = 19\<close>.\<close>

definition console_init :: "(u32 \<Rightarrow> u16) \<Rightarrow> console" where
  "console_init v = \<lparr>cur_x = 0, cur_y = 19, vram = v, port_e9 = []\<rparr>"

definition newline :: u8 where [simp]: "newline = 10"

definition cell_addr :: "u8 \<Rightarrow> u8 \<Rightarrow> u32" where
  "cell_addr x y = 0xb8000 + of_nat ((unat y * NUM_COLUMNS + unat x) * 2)"

definition next_row :: "u8 \<Rightarrow> u8" where
  "next_row y = of_nat ((unat y + 1) mod NUM_ROWS)"

definition printc :: "u8 \<Rightarrow> console \<Rightarrow> console" where
  "printc c con =
     (let con1 = con\<lparr>port_e9 := port_e9 con @ [c]\<rparr>
      in if c = newline
         then con1\<lparr>cur_x := 0, cur_y := next_row (cur_y con1)\<rparr>
         else
           let ch = (ucast c AND 0x00FF) OR 0x0200;
               screen = cell_addr (cur_x con1) (cur_y con1);
               con2 = con1\<lparr>cur_x := cur_x con1 + 1\<rparr>;
               con3 = (if unat (cur_x con2) \<ge> NUM_COLUMNS
                       then con2\<lparr>cur_x := 0, cur_y := next_row (cur_y con2)\<rparr> else con2)
           in con3\<lparr>vram := (vram con3)(screen := ch)\<rparr>)"

definition printc_xy :: "u8 \<Rightarrow> u8 \<Rightarrow> u8 \<Rightarrow> console \<Rightarrow> console" where
  "printc_xy mx my c con =
     (let cx = cur_x con; cy = cur_y con;
          con1 = printc c (con\<lparr>cur_x := mx, cur_y := my\<rparr>)
      in con1\<lparr>cur_x := cx, cur_y := cy\<rparr>)"

text \<open>
  \<open>printk\<close> reads its string up to the terminating zero; a string without one is read
  past its end.
\<close>

fun printk :: "u8 list \<Rightarrow> console \<Rightarrow> console option" where
  "printk [] con = None"
| "printk (c # s) con = (if c = 0 then Some con else printk s (printc c con))"

text \<open>\<open>sys_write_console\<close>: prints \<open>size\<close> bytes of the buffer and returns \<open>size\<close>.\<close>

definition sys_write_console :: "(nat \<Rightarrow> u8) \<Rightarrow> int \<Rightarrow> console \<Rightarrow> int \<times> console" where
  "sys_write_console buffer len con =
     (len, for_each 0 (nat len) (\<lambda>i con. printc (buffer i) con) con)"

section \<open>The cursor stays on the screen\<close>

definition on_screen :: "console \<Rightarrow> bool" where
  "on_screen con \<longleftrightarrow> unat (cur_x con) < NUM_COLUMNS \<and> unat (cur_y con) < NUM_ROWS"

definition video_cells :: "u32 set" where
  "video_cells = {cell_addr x y | x y. unat x < NUM_COLUMNS \<and> unat y < NUM_ROWS}"

lemma unat_of_nat8: "n < 256 \<Longrightarrow> unat (of_nat n :: u8) = n"
  by (simp add: unsigned_of_nat take_bit_nat_eq_self)

lemma unat_next_row [simp]: "unat (next_row y) = (unat y + 1) mod 25"
proof -
  have "(unat y + 1) mod 25 < 25" by simp
  then have "(unat y + 1) mod 25 < 256" by linarith
  then show ?thesis unfolding next_row_def by (simp only: NUM_ROWS_def unat_of_nat8)
qed

lemma unat_succ8: "unat (x :: u8) < 255 \<Longrightarrow> unat (x + 1) = unat x + 1"
  by (simp add: unat_word_ariths)

lemma printc_on_screen: "on_screen con \<Longrightarrow> on_screen (printc c con)"
  by (auto simp: printc_def on_screen_def Let_def unat_succ8)

lemma printc_vram_outside:
  "on_screen con \<Longrightarrow> a \<notin> video_cells \<Longrightarrow> vram (printc c con) a = vram con a"
  by (auto simp: printc_def on_screen_def video_cells_def Let_def)

lemma cell_addr_range:
  assumes "unat x < NUM_COLUMNS" and "unat y < NUM_ROWS"
  shows "0xb8000 \<le> unat (cell_addr x y) \<and> unat (cell_addr x y) + 2 \<le> 0xb8000 + 4000"
proof -
  have "(unat y * 80 + unat x) * 2 \<le> 3998" using assms by simp
  then have "unat (cell_addr x y) = 0xb8000 + (unat y * 80 + unat x) * 2"
    unfolding cell_addr_def NUM_COLUMNS_def by (subst unat_add_of_nat32) simp_all
  with assms show ?thesis by simp
qed

lemma printc_port [simp]: "port_e9 (printc c con) = port_e9 con @ [c]"
  by (simp add: printc_def Let_def)

lemma printk_port:
  "0 \<notin> set s \<Longrightarrow> \<exists>con'. printk (s @ 0 # r) con = Some con' \<and> port_e9 con' = port_e9 con @ s
     \<and> (on_screen con \<longrightarrow> on_screen con')"
proof (induction s arbitrary: con)
  case (Cons a s)
  from Cons.prems have "0 \<notin> set s" by simp
  from Cons.IH [OF this, of "printc a con"] Cons.prems printc_on_screen [of con a]
  show ?case by auto
qed simp

lemma write_console_port:
  "snd (sys_write_console buffer len con) = con' \<Longrightarrow>
     port_e9 con' = port_e9 con @ map buffer [0..<nat len] \<and> (on_screen con \<longrightarrow> on_screen con')"
proof -
  assume e: "snd (sys_write_console buffer len con) = con'"
  have "port_e9 (for_each 0 n (\<lambda>i con. printc (buffer i) con) con) = port_e9 con @ map buffer [0..<n]
      \<and> (on_screen con \<longrightarrow> on_screen (for_each 0 n (\<lambda>i con. printc (buffer i) con) con))" for n
    by (induction n) (auto simp: for_each_snoc printc_on_screen)
  with e show ?thesis by (auto simp: sys_write_console_def)
qed

section \<open>Correctness\<close>

text \<open>\<open>printc\<close> never leaves the screen: with the cursor on it, one character changes at
  most the 4000 bytes of text memory at \<open>0xb8000\<close>, keeps the cursor on the screen and sends
  exactly that character to the debug port.\<close>

theorem printc_confined:
  assumes "on_screen con"
  shows "on_screen (printc c con) \<and> port_e9 (printc c con) = port_e9 con @ [c]
    \<and> (vram (printc c con) a \<noteq> vram con a \<longrightarrow> 0xb8000 \<le> unat a \<and> unat a + 2 \<le> 0xb8000 + 4000)"
proof -
  have "a \<in> video_cells" if "vram (printc c con) a \<noteq> vram con a"
    using that printc_vram_outside [OF assms, of a c] by blast
  then show ?thesis
    using printc_on_screen [OF assms, of c] cell_addr_range by (auto simp: video_cells_def)
qed

lemma printc_confined_witness:
  "on_screen (printc 65 \<lparr>cur_x = 79, cur_y = 24, vram = \<lambda>_. 0, port_e9 = []\<rparr>)"
  using printc_confined [of "\<lparr>cur_x = 79, cur_y = 24, vram = \<lambda>_. 0, port_e9 = []\<rparr>" 65 0]
  by (simp add: on_screen_def)

text \<open>\<open>sys_write_console\<close> takes all the bytes it is given and prints them in order, zero
  bytes included; \<open>printk\<close> prints the characters before the terminating zero.\<close>

theorem console_output:
  "fst (sys_write_console buffer len con) = len
   \<and> port_e9 (snd (sys_write_console buffer len con)) = port_e9 con @ map buffer [0..<nat len]
   \<and> (0 \<notin> set s \<longrightarrow> (\<exists>con'. printk (s @ 0 # r) con = Some con' \<and> port_e9 con' = port_e9 con @ s))"
  using write_console_port [of buffer len con] printk_port [of s r con]
  by (auto simp: sys_write_console_def)

lemma console_output_witness:
  "\<exists>con'. printk ([72, 105] @ 0 # [33]) (console_init (\<lambda>_. 0)) = Some con' \<and> port_e9 con' = [72, 105]"
  using console_output [of "\<lambda>_. 0" 0 "console_init (\<lambda>_. 0)" "[72, 105]" "[33]"]
  by (auto simp: console_init_def)

end
