(* ===== verification/Utils.thy ===== *)
theory Utils
  imports Types
begin

text \<open>
  \<open>utils.c\<close> and \<open>p_stats.c\<close>: the copy loops over byte-addressed memory, the user pointer
  check \<open>access_ok\<close>, \<open>memset\<close>, the 64-by-32-bit division \<open>do_div\<close> behind \<open>get_ticks\<close>, and
  the tick accounting of \<open>update_stats\<close>. Memory is a function from 32-bit addresses to
  bytes; words are little-endian.
\<close>

section \<open>Copy loops\<close>

type_synonym memory = "u32 \<Rightarrow> u8"

definition load32 :: "memory \<Rightarrow> u32 \<Rightarrow> u32" where
  "load32 m p = ucast (m p) OR push_bit 8 (ucast (m (p + 1)))
     OR push_bit 16 (ucast (m (p + 2))) OR push_bit 24 (ucast (m (p + 3)))"

definition store32 :: "u32 \<Rightarrow> u32 \<Rightarrow> memory \<Rightarrow> memory" where
  "store32 p v m = m(p := ucast v, p + 1 := ucast (drop_bit 8 v),
     p + 2 := ucast (drop_bit 16 v), p + 3 := ucast (drop_bit 24 v))"

text \<open>\<open>while (size > 4) { *q++ = *p++; size -= 4; }\<close> over \<open>DWord\<close> pointers.\<close>

function copy_words :: "u32 \<Rightarrow> u32 \<Rightarrow> int \<Rightarrow> memory \<Rightarrow> u32 \<times> u32 \<times> int \<times> memory" where
  "copy_words p q len m =
     (if len > 4 then copy_words (p + 4) (q + 4) (len - 4) (store32 q (load32 m p) m)
      else (p, q, len, m))"
  by pat_completeness auto
termination
  by (relation "measure (\<lambda>(p, q, len, m). nat len)") auto

text \<open>\<open>while (size > 0) { *q1++ = *p1++; size--; }\<close> over \<open>Byte\<close> pointers.\<close>

function copy_bytes :: "u32 \<Rightarrow> u32 \<Rightarrow> int \<Rightarrow> memory \<Rightarrow> memory" where
  "copy_bytes p1 q1 len m =
     (if len > 0 then copy_bytes (p1 + 1) (q1 + 1) (len - 1) (m(q1 := m p1)) else m)"
  by pat_completeness auto
termination
  by (relation "measure (\<lambda>(p1, q1, len, m). nat len)") auto

declare copy_words.simps [simp del] copy_bytes.simps [simp del]

definition copy_data :: "u32 \<Rightarrow> u32 \<Rightarrow> int \<Rightarrow> memory \<Rightarrow> memory" where
  "copy_data start dest len m =
     (let (p1, q1, len', m') = copy_words start dest len m in copy_bytes p1 q1 len' m')"

text \<open>\<open>copy_from_user\<close> and \<open>copy_to_user\<close> have the same body and return 0.\<close>

definition copy_from_user :: "u32 \<Rightarrow> u32 \<Rightarrow> int \<Rightarrow> memory \<Rightarrow> u32 \<times> memory" where
  "copy_from_user start dest len m =
     (let (p1, q1, len', m') = copy_words start dest len m in (0, copy_bytes p1 q1 len' m'))"

definition copy_to_user :: "u32 \<Rightarrow> u32 \<Rightarrow> int \<Rightarrow> memory \<Rightarrow> u32 \<times> memory" where
  "copy_to_user start dest len m =
     (let (p1, q1, len', m') = copy_words start dest len m in (0, copy_bytes p1 q1 len' m'))"

text \<open>\<open>for (i = 0; i < size; i++) m[i] = c\<close>.\<close>

definition memset :: "u32 \<Rightarrow> u8 \<Rightarrow> int \<Rightarrow> memory \<Rightarrow> memory" where
  "memset s c len m = for_each 0 (nat len) (\<lambda>i m. m(s + of_nat i := c)) m"

section \<open>Checking user pointers\<close>

definition VERIFY_READ :: u32 where [simp]: "VERIFY_READ = 0"
definition VERIFY_WRITE :: u32 where [simp]: "VERIFY_WRITE = 1"

text \<open>The \<open>case VERIFY_WRITE\<close> has no \<open>break\<close>: where its test fails it falls into \<open>default\<close>.\<close>

definition access_ok :: "u32 \<Rightarrow> u32 \<Rightarrow> u32 \<Rightarrow> bool" where
  "access_ok type addr len =
     (let addr_ini = drop_bit 12 addr;
          addr_fin = drop_bit 12 (addr + len)
      in if addr_fin < addr_ini then False
         else if type = VERIFY_WRITE \<and> addr_ini \<ge> USER_FIRST_PAGE + of_nat NUM_PAG_CODE
                 \<and> addr_fin \<le> USER_FIRST_PAGE + of_nat NUM_PAG_CODE + of_nat NUM_PAG_DATA
         then True
         else addr_ini \<ge> USER_FIRST_PAGE
              \<and> addr_fin \<le> USER_FIRST_PAGE + of_nat NUM_PAG_CODE + of_nat NUM_PAG_DATA)"

section \<open>Ticks\<close>

definition CYCLESPERTICK :: u32 where [simp]: "CYCLESPERTICK = 109000"

text \<open>
  The processor's \<open>divl\<close>: divides \<open>hi:lo\<close> by \<open>d\<close>; the quotient must fit in 32 bits, or
  the instruction traps.
\<close>

definition divl :: "u32 \<Rightarrow> u32 \<Rightarrow> u32 \<Rightarrow> (u32 \<times> u32) option" where
  "divl hi lo d =
     (let n = unat hi * 2 ^ 32 + unat lo
      in if d = 0 \<or> n div unat d \<ge> 2 ^ 32 then None
         else Some (of_nat (n div unat d), of_nat (n mod unat d)))"

text \<open>\<open>do_div(n, base)\<close>: the new value of \<open>n\<close> (as its high and low words) and the remainder.\<close>

definition do_div :: "u32 \<Rightarrow> u32 \<Rightarrow> u32 \<Rightarrow> ((u32 \<times> u32) \<times> u32) option" where
  "do_div high low base =
     (let (upper, high') = (if high \<noteq> 0 then (high mod base, high div base) else (high, high))
      in case divl upper low base of None \<Rightarrow> None | Some (q, r) \<Rightarrow> Some ((high', q), r))"

text \<open>\<open>get_ticks\<close> on a time stamp counter value: the low word of the quotient.\<close>

definition get_ticks :: "u32 \<Rightarrow> u32 \<Rightarrow> u32 option" where
  "get_ticks edx eax =
     (case do_div edx eax CYCLESPERTICK of None \<Rightarrow> None | Some ((_, q), _) \<Rightarrow> Some q)"

text \<open>\<open>update_stats(&v, &elapsed)\<close> with the current tick count.\<close>

definition update_stats :: "u32 \<Rightarrow> u32 \<times> u32 \<Rightarrow> u32 \<times> u32" where
  "update_stats current_ticks = (\<lambda>(v, elapsed). (v + (current_ticks - elapsed), current_ticks))"

text \<open>
  The counters of \<open>include/stats.h\<close>; \<open>init_stats\<close> (\<open>sched.c\<close>) reads the time stamp counter twice,
  \<open>tsc1\<close> and \<open>tsc2\<close>.
\<close>

record stats =
  user_ticks :: u32
  system_ticks :: u32
  blocked_ticks :: u32
  ready_ticks :: u32
  elapsed_total_ticks :: u32
  total_trans :: u32
  remaining_ticks :: u32

definition init_stats :: "u32 \<times> u32 \<Rightarrow> u32 \<times> u32 \<Rightarrow> stats \<Rightarrow> stats option" where
  "init_stats tsc1 tsc2 s =
     (let s1 = s\<lparr>user_ticks := 0, system_ticks := 0, blocked_ticks := 0, ready_ticks := 0\<rparr>
      in case get_ticks (fst tsc1) (snd tsc1) of None \<Rightarrow> None
         | Some t1 \<Rightarrow>
             (let s2 = s1\<lparr>elapsed_total_ticks := t1, total_trans := 0\<rparr>
              in case get_ticks (fst tsc2) (snd tsc2) of None \<Rightarrow> None
                 | Some t2 \<Rightarrow> Some (s2\<lparr>remaining_ticks := t2\<rparr>)))"

text \<open>Repeated accounting adds up to the time from first to last, whatever wraps around.\<close>

lemma update_stats_telescopes:
  "fold update_stats ts (v, elapsed) = (v + (last (elapsed # ts) - elapsed), last (elapsed # ts))"
  by (induction ts arbitrary: v elapsed) (auto simp: update_stats_def)


section \<open>What the copy loops compute\<close>

text \<open>\<open>n\<close> bytes copied from \<open>p\<close> to \<open>q\<close>, all read before any is written.\<close>

definition copied :: "u32 \<Rightarrow> u32 \<Rightarrow> nat \<Rightarrow> memory \<Rightarrow> memory" where
  "copied p q n m = (\<lambda>a. if unat (a - q) < n then m (p + (a - q)) else m a)"

definition no_overlap :: "u32 \<Rightarrow> u32 \<Rightarrow> nat \<Rightarrow> bool" where
  "no_overlap p q n \<longleftrightarrow> unat p + n \<le> 2 ^ 32 \<and> unat q + n \<le> 2 ^ 32
     \<and> (unat p + n \<le> unat q \<or> unat q + n \<le> unat p)"

lemma unat_less_eq_of_nat: "unat (a :: u32) = k \<Longrightarrow> a = of_nat k"
  by auto

lemma no_overlap_neq:
  assumes "no_overlap p q n" and "unat i < n" and "unat j < n"
  shows "p + i \<noteq> q + j"
proof
  assume e: "p + i = q + j"
  have "unat (p + i) = unat p + unat i" "unat (q + j) = unat q + unat j"
    using assms by (auto simp: no_overlap_def intro!: unat_add32)
  with e have "unat p + unat i = unat q + unat j" by simp
  with assms show False by (auto simp: no_overlap_def)
qed

lemma unat_diff_of_nat32:
  "k < 2 ^ 32 \<Longrightarrow> k \<le> unat (d :: u32) \<Longrightarrow> unat (d - of_nat k) = unat d - k"
  by (subst unat_sub) (simp_all add: word_le_nat_alt unat_of_nat32)

lemma unat_diff_small:
  assumes "unat (d :: u32) < k" and "k + n \<le> 2 ^ 32"
  shows "\<not> unat (d - of_nat k) < n"
proof -
  have k: "unat (of_nat k :: u32) = k" if "k < 2 ^ 32" using that by (rule unat_of_nat32)
  show ?thesis
  proof (cases "k < 2 ^ 32")
    case True
    have "unat (d - of_nat k) = 2 ^ 32 + unat d - k"
      using assms(1) k [OF True] by (simp add: unat_sub_if_size word_size)
    with assms show ?thesis by simp
  next
    case False
    with assms(2) show ?thesis by simp
  qed
qed

lemma copied_add:
  assumes "no_overlap p q (k + n)"
  shows "copied (p + of_nat k) (q + of_nat k) n (copied p q k m) = copied p q (k + n) m"
proof
  fix a
  let ?d = "a - q"
  have le: "k + n \<le> 2 ^ 32" using assms by (simp add: no_overlap_def)
  have shift: "a - (q + of_nat k) = ?d - of_nat k" by simp
  show "copied (p + of_nat k) (q + of_nat k) n (copied p q k m) a = copied p q (k + n) m a"
  proof (cases "unat ?d < k")
    case True
    with unat_diff_small [OF True le] show ?thesis unfolding copied_def shift by simp
  next
    case False
    show ?thesis
    proof (cases "n = 0")
      case True
      with False show ?thesis by (simp add: copied_def)
    next
      case n: False
      with le have k: "k < 2 ^ 32" by simp
      have u: "unat (?d - of_nat k) = unat ?d - k"
        using False k by (intro unat_diff_of_nat32) simp_all
      have src: "\<not> unat (p + ?d - q) < k" if "unat ?d < k + n"
      proof
        assume "unat (p + ?d - q) < k"
        moreover have "p + ?d = q + (p + ?d - q)" by simp
        ultimately show False using no_overlap_neq [OF assms that, of "p + ?d - q"] by simp
      qed
      have arg: "p + of_nat k + (?d - of_nat k) = p + ?d" by simp
      have "unat ?d - k < n \<longleftrightarrow> unat ?d < k + n" using False by auto
      then show ?thesis using False src unfolding copied_def shift u arg by auto
    qed
  qed
qed

lemma copied_one: "m(q := m p) = copied p q 1 m"
  by (rule ext) (auto simp: copied_def unat_eq_0)

lemma load32_bytes:
  "ucast (load32 m p) = m p" "ucast (drop_bit 8 (load32 m p)) = m (p + 1)"
  "ucast (drop_bit 16 (load32 m p)) = m (p + 2)" "ucast (drop_bit 24 (load32 m p)) = m (p + 3)"
  by (rule bit_word_eqI, auto simp: load32_def bit_simps dest: bit_imp_le_length)+

lemma store32_load32: "store32 q (load32 m p) m = copied p q 4 m"
proof
  fix a
  have four: "unat d < 4 \<longleftrightarrow> d = 0 \<or> d = 1 \<or> d = 2 \<or> d = 3" for d :: u32
  proof
    assume "unat d < 4"
    then have "unat d \<in> {0, 1, 2, 3}" by auto
    then show "d = 0 \<or> d = 1 \<or> d = 2 \<or> d = 3" by (auto dest: unat_less_eq_of_nat)
  qed auto
  have "a = q + (a - q)" by simp
  then obtain d where d: "a = q + d" "d = a - q" by blast
  have "(q + d = q + e) = (d = e)" "(q + d = q) = (d = 0)" for e by auto
  then show "store32 q (load32 m p) m a = copied p q 4 m a"
    unfolding store32_def load32_bytes copied_def four d(2) [symmetric]
    unfolding d(1) by auto
qed

lemma no_overlap_tail:
  "no_overlap p q (k + n) \<Longrightarrow> 0 < n \<Longrightarrow> no_overlap (p + of_nat k) (q + of_nat k) n"
  by (auto simp: no_overlap_def unat_add_of_nat32)

lemma copy_bytes_copied:
  "no_overlap p q (nat n) \<Longrightarrow> copy_bytes p q n m = copied p q (nat n) m"
proof (induction p q n m rule: copy_bytes.induct)
  case (1 p q n m)
  show ?case
  proof (cases "n > 0")
    case True
    then have s: "nat n = 1 + nat (n - 1)" by simp
    have "copy_bytes (p + 1) (q + 1) (n - 1) (m(q := m p)) = copied (p + 1) (q + 1) (nat (n - 1)) (m(q := m p))"
    proof (cases "nat (n - 1) = 0")
      case True
      then show ?thesis by (simp add: copy_bytes.simps copied_def fun_eq_iff)
    next
      case False
      with "1.prems" no_overlap_tail [of p q 1 "nat (n - 1)"] s \<open>n > 0\<close>
      show ?thesis by (intro "1.IH") simp_all
    qed
    with True "1.prems" show ?thesis
      using copied_add [of p q 1 "nat (n - 1)" m] s
      by (simp add: copy_bytes.simps copied_one)
  next
    case False
    then show ?thesis by (simp add: copy_bytes.simps copied_def)
  qed
qed

lemma copy_words_copied:
  assumes "no_overlap p q (nat n)" and "copy_words p q n m = (p', q', n', m')"
  shows "copy_bytes p' q' n' m' = copied p q (nat n) m"
  using assms
proof (induction p q n m rule: copy_words.induct)
  case (1 p q n m)
  show ?case
  proof (cases "n > 4")
    case True
    then have s: "nat n = 4 + nat (n - 4)" "0 < nat (n - 4)" by simp_all
    have "copy_bytes p' q' n' m' = copied (p + 4) (q + 4) (nat (n - 4)) (store32 q (load32 m p) m)"
    proof (rule "1.IH" [OF True])
      show "no_overlap (p + 4) (q + 4) (nat (n - 4))"
        using no_overlap_tail [of p q 4 "nat (n - 4)"] "1.prems"(1) s by simp
      show "copy_words (p + 4) (q + 4) (n - 4) (store32 q (load32 m p) m) = (p', q', n', m')"
        using "1.prems"(2) True by (simp add: copy_words.simps [of p])
    qed
    then show ?thesis
      using copied_add [of p q 4 "nat (n - 4)" m] "1.prems"(1) s by (simp add: store32_load32)
  next
    case False
    with "1.prems" show ?thesis by (simp add: copy_words.simps [of p] copy_bytes_copied)
  qed
qed

lemma copy_data_copied: "no_overlap p q (nat n) \<Longrightarrow> copy_data p q n m = copied p q (nat n) m"
  using copy_words_copied [of p q n m] by (auto simp: copy_data_def split: prod.splits)

lemma copy_user_eq:
  "copy_from_user p q n m = (0, copy_data p q n m)" "copy_to_user p q n m = (0, copy_data p q n m)"
  by (simp_all add: copy_from_user_def copy_to_user_def copy_data_def split: prod.splits)

lemma copied_at: "i < n \<Longrightarrow> n \<le> 2 ^ 32 \<Longrightarrow> copied p q n m (q + of_nat i) = m (p + of_nat i)"
  by (simp add: copied_def unat_of_nat32)

lemma memset_at:
  assumes "unat s + nat n \<le> 2 ^ 32"
  shows "memset s c n m = (\<lambda>a. if unat s \<le> unat a \<and> unat a < unat s + nat n then c else m a)"
proof -
  have "for_each 0 k (\<lambda>i m. m(s + of_nat i := c)) m
      = (\<lambda>a. if unat s \<le> unat a \<and> unat a < unat s + k then c else m a)"
    if "unat s + k \<le> 2 ^ 32" for k
    using that
  proof (induction k)
    case 0
    show ?case by (rule ext) auto
  next
    case (Suc k)
    then have u: "unat (s + of_nat k) = unat s + k" by (intro unat_add_of_nat32) simp
    have eq: "a = s + of_nat k \<longleftrightarrow> unat a = unat s + k" for a
      using u by (metis word_unat_eq_iff)
    show ?case using Suc by (auto simp: for_each_snoc fun_eq_iff eq)
  qed
  with assms show ?thesis by (simp add: memset_def)
qed

section \<open>User pointers\<close>

lemma access_ok_type_irrelevant: "access_ok t addr n = access_ok VERIFY_READ addr n"
  by (auto simp: access_ok_def Let_def elim: order_trans [rotated])

lemma access_ok_range:
  assumes "unat addr + unat n < 2 ^ 32"
  shows "access_ok t addr n \<longleftrightarrow> 0x100000 \<le> unat addr \<and> unat addr + unat n < 0x11D000"
proof -
  have "unat (addr + n) = unat addr + unat n" using assms by (rule unat_add32)
  then show ?thesis
    unfolding access_ok_type_irrelevant [of t]
    by (auto simp: access_ok_def Let_def word_le_nat_alt word_less_nat_alt page_of_unat not_less)
qed

section \<open>Division of the cycle counter\<close>

lemma divl_some:
  assumes "d \<noteq> 0" and "hi < d"
  shows "\<exists>q r. divl hi lo d = Some (q, r) \<and> unat q = (unat hi * 2 ^ 32 + unat lo) div unat d
    \<and> unat r = (unat hi * 2 ^ 32 + unat lo) mod unat d"
proof -
  let ?n = "unat hi * 2 ^ 32 + unat lo"
  have d: "0 < unat d" using assms(1) by (simp add: unat_gt_0)
  have "unat hi < unat d" using assms(2) by (simp add: word_less_nat_alt)
  then have "(unat hi + 1) * 2 ^ 32 \<le> unat d * 2 ^ 32" by (intro mult_le_mono1) simp
  moreover have "unat lo < 2 ^ 32" by (rule unat_less32)
  ultimately have "?n < 2 ^ 32 * unat d" by simp
  then have q: "?n div unat d < 2 ^ 32" by (simp add: less_mult_imp_div_less mult.commute)
  have "?n mod unat d < unat d" using d by simp
  also have "unat d < 2 ^ 32" by (rule unat_less32)
  finally show ?thesis using q assms(1) by (simp add: divl_def Let_def unat_of_nat32)
qed

lemma split_div_mod:
  fixes h l b :: nat
  assumes "0 < b"
  shows "(h * W + l) div b = (h div b) * W + ((h mod b) * W + l) div b"
    and "(h * W + l) mod b = ((h mod b) * W + l) mod b"
proof -
  define k r where "k = h div b" and "r = h mod b"
  then have "h = k * b + r" by simp
  then have "h * W + l = (r * W + l) + b * (k * W)" by (simp add: algebra_simps)
  then have e: "h * W + l = ((h mod b) * W + l) + b * (h div b * W)" by (simp only: k_def r_def)
  show "(h * W + l) div b = (h div b) * W + ((h mod b) * W + l) div b"
    unfolding e using assms by simp
  show "(h * W + l) mod b = ((h mod b) * W + l) mod b" unfolding e by simp
qed

lemma do_div_eq:
  assumes "base \<noteq> 0"
  shows "\<exists>h q r. do_div high low base = Some ((h, q), r)
    \<and> unat h * 2 ^ 32 + unat q = (unat high * 2 ^ 32 + unat low) div unat base
    \<and> unat r = (unat high * 2 ^ 32 + unat low) mod unat base"
proof -
  let ?u = "high mod base"
  have b: "0 < unat base" using assms by (simp add: unat_gt_0)
  have u: "?u < base" using b by (simp add: word_less_nat_alt unat_mod)
  have same: "do_div high low base = (case divl ?u low base of None \<Rightarrow> None
      | Some (q, r) \<Rightarrow> Some ((high div base, q), r))"
  proof (cases "high = 0")
    case True
    moreover have "high div base = 0" "high mod base = 0"
      using True by (simp_all add: word_unat_eq_iff unat_div unat_mod)
    ultimately show ?thesis by (simp only: do_div_def) simp
  qed (simp add: do_div_def)
  from divl_some [OF assms u, of low] obtain q r where
    "divl ?u low base = Some (q, r)" "unat q = (unat ?u * 2 ^ 32 + unat low) div unat base"
    "unat r = (unat ?u * 2 ^ 32 + unat low) mod unat base" by blast
  then show ?thesis
    using split_div_mod [OF b, of "unat high" "2 ^ 32" "unat low"]
    by (simp add: same unat_mod unat_div)
qed

section \<open>Correctness\<close>

text \<open>C35: \<open>copy_data\<close> (and so \<open>copy_from_user\<close> and \<open>copy_to_user\<close>, which return 0), with its loop
  over words and its loop over the remaining bytes, copies exactly \<open>n\<close> bytes of two ranges
  that do not overlap and changes nothing else.\<close>

theorem copy_data_correct:
  assumes "no_overlap p q (nat n)"
  shows "(i < nat n \<longrightarrow> copy_data p q n m (q + of_nat i) = m (p + of_nat i))
    \<and> (\<not> unat (a - q) < nat n \<longrightarrow> copy_data p q n m a = m a)
    \<and> copy_from_user p q n m = (0, copy_data p q n m) \<and> copy_to_user p q n m = (0, copy_data p q n m)"
proof -
  have "nat n \<le> 2 ^ 32" using assms by (simp add: no_overlap_def)
  then show ?thesis using copied_at [of i "nat n" p q m]
    by (auto simp: copy_data_copied [OF assms] copy_user_eq copied_def)
qed

lemma copy_data_correct_witness: "copy_data 0x1000 0x2000 10 ucast 0x2009 = (9 :: u8)"
  using copy_data_correct [of "0x1000" "0x2000" 10 9 ucast 0] by (simp add: no_overlap_def)

text \<open>C36: \<open>access_ok\<close> accepts a range that does not wrap around if and only if it starts at or
  above \<open>0x100000\<close> and ends below \<open>0x11d000\<close>, whatever the kind of access: the range of the
  user's pages plus one page that is not the user's, writes to code pages included.\<close>

theorem access_ok_bounds:
  assumes "unat addr + unat n < 2 ^ 32"
  shows "access_ok type addr n \<longleftrightarrow> 0x100000 \<le> unat addr \<and> unat addr + unat n < 0x100000 + (8 + 20 + 1) * 0x1000"
  using access_ok_range [OF assms, of type] by simp

lemma access_ok_bounds_witness:
  "access_ok VERIFY_WRITE 0x100000 0x1cfff \<and> \<not> access_ok VERIFY_READ 0xfffff 1"
  using access_ok_bounds [of "0x100000" "0x1cfff" VERIFY_WRITE] access_ok_bounds [of "0xfffff" 1 VERIFY_READ]
  by simp

text \<open>C37: \<open>do_div\<close> divides a 64-bit number by a 32-bit one with two 32-bit divisions that never
  trap, and \<open>get_ticks\<close> is the quotient of the cycle counter by \<open>CYCLESPERTICK\<close>, modulo
  \<open>2 ^ 32\<close>.\<close>

theorem do_div_correct:
  assumes "base \<noteq> 0"
  shows "\<exists>h q r. do_div high low base = Some ((h, q), r)
      \<and> unat h * 2 ^ 32 + unat q = (unat high * 2 ^ 32 + unat low) div unat base
      \<and> unat r = (unat high * 2 ^ 32 + unat low) mod unat base
    \<and> (\<exists>t. get_ticks high low = Some t \<and> unat t = (unat high * 2 ^ 32 + unat low) div 109000 mod 2 ^ 32)"
proof -
  have d0: "\<exists>h q r. do_div high low base = Some ((h, q), r)
      \<and> unat h * 2 ^ 32 + unat q = (unat high * 2 ^ 32 + unat low) div unat base
      \<and> unat r = (unat high * 2 ^ 32 + unat low) mod unat base"
    by (rule do_div_eq [OF assms])
  have "CYCLESPERTICK \<noteq> 0" by simp
  from do_div_eq [OF this, of high low] obtain h q r where d: "do_div high low CYCLESPERTICK = Some ((h, q), r)"
    "unat h * 2 ^ 32 + unat q = (unat high * 2 ^ 32 + unat low) div unat CYCLESPERTICK" by blast
  have "unat q = (unat h * 2 ^ 32 + unat q) mod 2 ^ 32" using unat_less32 [of q] by simp
  also have "\<dots> = (unat high * 2 ^ 32 + unat low) div 109000 mod 2 ^ 32" by (simp only: d(2)) simp
  finally have "\<exists>t. get_ticks high low = Some t
      \<and> unat t = (unat high * 2 ^ 32 + unat low) div 109000 mod 2 ^ 32"
    using d(1) by (simp add: get_ticks_def)
  with d0 show ?thesis by blast
qed

lemma do_div_correct_witness:
  "\<exists>h q r. do_div 1 5 10 = Some ((h, q), r) \<and> unat h * 2 ^ 32 + unat q = 429496730 \<and> unat r = 1"
  using do_div_correct [of 10 1 5] by auto

text \<open>\<open>memset\<close> sets every byte of its range and no other.\<close>

theorem memset_correct:
  assumes "unat s + nat n \<le> 2 ^ 32"
  shows "memset s c n m a = (if unat s \<le> unat a \<and> unat a < unat s + nat n then c else m a)"
  by (simp only: memset_at [OF assms])

lemma memset_correct_witness: "memset 0x100 7 16 (\<lambda>_. 0) 0x10f = 7 \<and> memset 0x100 7 16 (\<lambda>_. 0) 0x110 = 0"
  using memset_correct [of "0x100" 16 7 "\<lambda>_. 0" "0x10f"] memset_correct [of "0x100" 16 7 "\<lambda>_. 0" "0x110"]
  by simp

end
