(* ===== verification/Vmem.thy ===== *)
theory Vmem
  imports Mm Utils
begin

text \<open>
  Kernel accesses to memory through the current page table, as \<open>copy_data\<close>,
  \<open>copy_from_user\<close> and \<open>copy_to_user\<close> make them with \<open>cr3\<close> set to a process's directory.
  The user and write bits do not restrict the kernel; a page that is not present
  faults, and a kernel fault is \<^const>\<open>None\<close>. The translation caches of the processor
  are not modelled.
\<close>

type_synonym frames = "nat \<Rightarrow> nat \<Rightarrow> u8"

definition kaddr :: "page_table \<Rightarrow> u32 \<Rightarrow> (nat \<times> nat) option" where
  "kaddr PT a =
     (let page = unat a div PAGE_SIZE
      in if page < TOTAL_PAGES \<and> pte_present (PT page)
         then Some (unat (pbase_addr (PT page)), unat a mod PAGE_SIZE) else None)"

definition vread :: "page_table \<Rightarrow> frames \<Rightarrow> u32 \<Rightarrow> u8 option" where
  "vread PT m a = map_option (\<lambda>(f, k). m f k) (kaddr PT a)"

definition vwrite :: "page_table \<Rightarrow> u32 \<Rightarrow> u8 \<Rightarrow> frames \<Rightarrow> frames option" where
  "vwrite PT a v m = map_option (\<lambda>(f, k). m(f := (m f)(k := v))) (kaddr PT a)"

text \<open>\<open>copy_data\<close> on mapped memory, one byte at a time.\<close>

definition copy_mapped :: "page_table \<Rightarrow> u32 \<Rightarrow> u32 \<Rightarrow> int \<Rightarrow> frames \<Rightarrow> frames option" where
  "copy_mapped PT start dest len m = for_loop 0 (nat len)
     (\<lambda>i m. do { v \<leftarrow> vread PT m (start + of_nat i); vwrite PT (dest + of_nat i) v m }) m"

text \<open>A four byte store, as \<open>*id = v\<close> makes it, and the bytes of a user buffer.\<close>

definition vstore32 :: "page_table \<Rightarrow> u32 \<Rightarrow> u32 \<Rightarrow> frames \<Rightarrow> frames option" where
  "vstore32 PT a v m = do {
     m1 \<leftarrow> vwrite PT a (ucast v) m;
     m2 \<leftarrow> vwrite PT (a + 1) (ucast (drop_bit 8 v)) m1;
     m3 \<leftarrow> vwrite PT (a + 2) (ucast (drop_bit 16 v)) m2;
     vwrite PT (a + 3) (ucast (drop_bit 24 v)) m3
   }"

definition vload32 :: "page_table \<Rightarrow> frames \<Rightarrow> u32 \<Rightarrow> u32 option" where
  "vload32 PT m a = do {
     b0 \<leftarrow> vread PT m a; b1 \<leftarrow> vread PT m (a + 1);
     b2 \<leftarrow> vread PT m (a + 2); b3 \<leftarrow> vread PT m (a + 3);
     Some (ucast b0 OR push_bit 8 (ucast b1) OR push_bit 16 (ucast b2) OR push_bit 24 (ucast b3))
   }"

definition vread_buffer :: "page_table \<Rightarrow> frames \<Rightarrow> u32 \<Rightarrow> int \<Rightarrow> (nat \<Rightarrow> u8) option" where
  "vread_buffer PT m start len =
     (if \<forall>i < nat len. kaddr PT (start + of_nat i) \<noteq> None
      then Some (\<lambda>i. if i < nat len then the (vread PT m (start + of_nat i)) else 0) else None)"

section \<open>What they compute\<close>

lemma kaddr_page:
  assumes "page < TOTAL_PAGES" and "k < PAGE_SIZE"
  shows "kaddr PT (of_nat (4096 * page + k)) =
    (if pte_present (PT page) then Some (unat (pbase_addr (PT page)), k) else None)"
proof -
  have u: "unat (of_nat (4096 * page + k) :: u32) = 4096 * page + k"
    using assms by (intro unat_of_nat32) simp
  have "(4096 * page + k) div 4096 = page" "(4096 * page + k) mod 4096 = k" using assms by simp_all
  then show ?thesis using assms(1) unfolding kaddr_def u by (simp add: Let_def)
qed

text \<open>Copying one page to another moves the contents of one frame to another.\<close>

lemma copy_page:
  assumes "ps < TOTAL_PAGES" and "pd < TOTAL_PAGES" and "pte_present (PT ps)" and "pte_present (PT pd)"
    and "pbase_addr (PT ps) \<noteq> pbase_addr (PT pd)"
  shows "copy_mapped PT (of_nat (4096 * ps)) (of_nat (4096 * pd)) 4096 m =
    Some (m(unat (pbase_addr (PT pd)) := (\<lambda>k. if k < 4096 then m (unat (pbase_addr (PT ps))) k
        else m (unat (pbase_addr (PT pd))) k)))"
proof -
  let ?fs = "unat (pbase_addr (PT ps))" and ?fd = "unat (pbase_addr (PT pd))"
  let ?body = "\<lambda>i m. do { v \<leftarrow> vread PT m (of_nat (4096 * ps) + of_nat i);
      vwrite PT (of_nat (4096 * pd) + of_nat i) v m }"
  let ?I = "\<lambda>n m'. m' = m(?fd := (\<lambda>k. if k < n then m ?fs k else m ?fd k))"
  have ne: "?fs \<noteq> ?fd" using assms(5) by (simp add: word_unat_eq_iff)
  have "\<exists>m'. for_loop 0 4096 ?body m = Some m' \<and> ?I 4096 m'"
  proof (rule for_loop_invariant [where I = ?I])
    fix i m1 assume i: "i < 4096" and m1: "?I i m1"
    have a: "kaddr PT (of_nat (4096 * ps) + of_nat i) = Some (?fs, i)"
      "kaddr PT (of_nat (4096 * pd) + of_nat i) = Some (?fd, i)"
      using kaddr_page [of ps i PT] kaddr_page [of pd i PT] assms i by simp_all
    let ?m = "m(?fd := (\<lambda>k. if k < Suc i then m ?fs k else m ?fd k))"
    have "m1(?fd := (m1 ?fd)(i := m1 ?fs i)) = ?m"
      using ne by (auto simp: m1 fun_eq_iff less_Suc_eq)
    then have "?body i m1 = Some ?m" by (simp add: vread_def vwrite_def a [simplified])
    then show "\<exists>m'. ?body i m1 = Some m' \<and> ?I (Suc i) m'" by blast
  qed simp_all
  then show ?thesis by (simp add: copy_mapped_def)
qed

text \<open>
  On addresses that are mapped without aliases, \<open>copy_mapped\<close> is the word-and-byte loop
  \<open>copy_data\<close> on the memory the page table shows.
\<close>

definition view :: "page_table \<Rightarrow> frames \<Rightarrow> memory" where
  "view PT m a = (case vread PT m a of Some v \<Rightarrow> v | None \<Rightarrow> 0)"

lemma copy_mapped_data:
  assumes "no_overlap p q (nat n)" and "nat n < 2 ^ 32"
    and "\<And>i. i < nat n \<Longrightarrow> kaddr PT (p + of_nat i) \<noteq> None \<and> kaddr PT (q + of_nat i) \<noteq> None"
    and "\<And>i a. i < nat n \<Longrightarrow> kaddr PT a = kaddr PT (q + of_nat i) \<Longrightarrow> a = q + of_nat i"
  shows "\<exists>m'. copy_mapped PT p q n m = Some m' \<and> view PT m' = copy_data p q n (view PT m)"
proof -
  let ?body = "\<lambda>i m. do { v \<leftarrow> vread PT m (p + of_nat i); vwrite PT (q + of_nat i) v m }"
  let ?I = "\<lambda>i m'. view PT m' = copied p q i (view PT m)"
  have "\<exists>m'. for_loop 0 (nat n) ?body m = Some m' \<and> ?I (nat n) m'"
  proof (rule for_loop_invariant [where I = ?I])
    show "?I 0 m" by (simp add: copied_def fun_eq_iff)
  next
    fix i m1 assume i: "i < nat n" and m1: "?I i m1"
    obtain f k g j where a: "kaddr PT (p + of_nat i) = Some (f, k)" "kaddr PT (q + of_nat i) = Some (g, j)"
      using assms(3) [OF i] by fastforce
    let ?m = "m1(g := (m1 g)(j := m1 f k))"
    have b: "?body i m1 = Some ?m" by (simp add: vread_def vwrite_def a)
    have v: "view PT m1 (p + of_nat i) = m1 f k" by (simp add: view_def vread_def a)
    have "view PT ?m b = ((view PT m1)(q + of_nat i := m1 f k)) b" for b
    proof (cases "b = q + of_nat i")
      case True
      then show ?thesis by (simp add: view_def vread_def a)
    next
      case False
      then have "kaddr PT b \<noteq> Some (g, j)" using assms(4) [OF i, of b] a by auto
      with False show ?thesis by (auto simp: view_def vread_def split: option.splits)
    qed
    then have "view PT ?m = (view PT m1)(q + of_nat i := view PT m1 (p + of_nat i))"
      using v by (simp add: fun_eq_iff)
    also have "\<dots> = copied (p + of_nat i) (q + of_nat i) 1 (copied p q i (view PT m))"
      by (simp add: m1 copied_one)
    also have "\<dots> = copied p q (i + 1) (view PT m)"
      using assms(1) i by (intro copied_add) (auto simp: no_overlap_def)
    finally show "\<exists>m'. ?body i m1 = Some m' \<and> ?I (Suc i) m'" using b by simp
  qed simp
  then show ?thesis by (simp add: copy_mapped_def copy_data_copied [OF assms(1)])
qed

section \<open>Storing a word\<close>

text \<open>What is read after a store, on a set \<open>D\<close> of addresses on which the stored bytes have no alias.\<close>

lemma vread_vwrite:
  "vwrite PT a v m = Some m' \<Longrightarrow> vread PT m' b = (if kaddr PT b = kaddr PT a then Some v else vread PT m b)"
  by (cases "kaddr PT a"; cases "kaddr PT b") (auto simp: vwrite_def vread_def split: if_splits)

lemma word_of_its_bytes:
  "ucast (ucast v :: u8) OR push_bit 8 (ucast (ucast (drop_bit 8 v) :: u8)) OR push_bit 16 (ucast (ucast (drop_bit 16 v) :: u8))
     OR push_bit 24 (ucast (ucast (drop_bit 24 v) :: u8)) = (v :: u32)"
proof (rule bit_word_eqI)
  fix n assume n: "n < LENGTH(32)"
  have "bit (ucast (ucast v :: u8) OR push_bit 8 (ucast (ucast (drop_bit 8 v) :: u8)) OR push_bit 16 (ucast (ucast (drop_bit 16 v) :: u8))
      OR push_bit 24 (ucast (ucast (drop_bit 24 v) :: u8)) :: u32) n \<longleftrightarrow>
    n < 8 \<and> bit v n \<or> 8 \<le> n \<and> n < 16 \<and> bit v n \<or> 16 \<le> n \<and> n < 24 \<and> bit v n \<or> 24 \<le> n \<and> bit v n"
    using n by (auto simp: bit_simps)
  also have "\<dots> \<longleftrightarrow> bit v n" by auto
  finally show "bit (ucast (ucast v :: u8) OR push_bit 8 (ucast (ucast (drop_bit 8 v) :: u8)) OR push_bit 16 (ucast (ucast (drop_bit 16 v) :: u8))
      OR push_bit 24 (ucast (ucast (drop_bit 24 v) :: u8)) :: u32) n = bit v n" .
qed

lemma vstore32_reads:
  assumes "\<And>i b. i < 4 \<Longrightarrow> b \<in> D \<Longrightarrow> kaddr PT b = kaddr PT (a + of_nat i) \<longleftrightarrow> b = a + of_nat i"
    and "\<And>i. i < 4 \<Longrightarrow> kaddr PT (a + of_nat i) \<noteq> None" and "\<And>i. i < 4 \<Longrightarrow> a + of_nat i \<in> D"
  obtains m' where "vstore32 PT a v m = Some m'" and "vload32 PT m' a = Some v"
    and "\<And>b. b \<in> D \<Longrightarrow> b \<notin> {a, a + 1, a + 2, a + 3} \<Longrightarrow> vread PT m' b = vread PT m b"
proof -
  have D: "a \<in> D" "a + 1 \<in> D" "a + 2 \<in> D" "a + 3 \<in> D"
    using assms(3) [of 0] assms(3) [of 1] assms(3) [of 2] assms(3) [of 3] by simp_all
  have k: "kaddr PT a \<noteq> None" "kaddr PT (a + 1) \<noteq> None" "kaddr PT (a + 2) \<noteq> None" "kaddr PT (a + 3) \<noteq> None"
    using assms(2) [of 0] assms(2) [of 1] assms(2) [of 2] assms(2) [of 3] by simp_all
  have e: "kaddr PT b = kaddr PT a \<longleftrightarrow> b = a" "kaddr PT b = kaddr PT (a + 1) \<longleftrightarrow> b = a + 1"
    "kaddr PT b = kaddr PT (a + 2) \<longleftrightarrow> b = a + 2" "kaddr PT b = kaddr PT (a + 3) \<longleftrightarrow> b = a + 3" if "b \<in> D" for b
    using that assms(1) [of 0 b] assms(1) [of 1 b] assms(1) [of 2 b] assms(1) [of 3 b] by simp_all
  obtain m1 where 1: "vwrite PT a (ucast v) m = Some m1" using k(1) by (auto simp: vwrite_def)
  obtain m2 where 2: "vwrite PT (a + 1) (ucast (drop_bit 8 v)) m1 = Some m2" using k(2) by (auto simp: vwrite_def)
  obtain m3 where 3: "vwrite PT (a + 2) (ucast (drop_bit 16 v)) m2 = Some m3" using k(3) by (auto simp: vwrite_def)
  obtain m4 where 4: "vwrite PT (a + 3) (ucast (drop_bit 24 v)) m3 = Some m4" using k(4) by (auto simp: vwrite_def)
  have r: "vread PT m4 b = (if b = a + 3 then Some (ucast (drop_bit 24 v)) else if b = a + 2 then Some (ucast (drop_bit 16 v))
      else if b = a + 1 then Some (ucast (drop_bit 8 v)) else if b = a then Some (ucast v) else vread PT m b)" if "b \<in> D" for b
    using vread_vwrite [OF 1, of b] vread_vwrite [OF 2, of b] vread_vwrite [OF 3, of b] vread_vwrite [OF 4, of b]
    using that by (simp add: e)
  show thesis
  proof (rule that [of m4])
    show "vstore32 PT a v m = Some m4" by (simp add: vstore32_def 1 2 3 4)
    show "vload32 PT m4 a = Some v" by (simp add: vload32_def r D word_of_its_bytes)
    show "vread PT m4 b = vread PT m b" if "b \<in> D" "b \<notin> {a, a + 1, a + 2, a + 3}" for b using that by (simp add: r)
  qed
qed

section \<open>Correctness\<close>

text \<open>C34: copying through a page table is copying in the address space the table shows:
  when both ranges are mapped and no other address is mapped to the bytes written,
  \<open>copy_data\<close> on virtual addresses completes and what the address space shows afterwards is
  what \<open>copy_data\<close> computes on it.\<close>

theorem copy_mapped_refines:
  assumes "no_overlap p q (nat n)" and "nat n < 2 ^ 32"
    and "\<And>i. i < nat n \<Longrightarrow> kaddr PT (p + of_nat i) \<noteq> None \<and> kaddr PT (q + of_nat i) \<noteq> None"
    and "\<And>i a. i < nat n \<Longrightarrow> kaddr PT a = kaddr PT (q + of_nat i) \<Longrightarrow> a = q + of_nat i"
  shows "\<exists>m'. copy_mapped PT p q n m = Some m' \<and> view PT m' = copy_data p q n (view PT m)"
  by (rule copy_mapped_data [OF assms])

lemma copy_mapped_refines_witness:
  "\<exists>m'. copy_mapped ((\<lambda>_. 0)(1 := user_entry 5, 2 := user_entry 6)) 0x1000 0x2000 1 (\<lambda>_ _. 7) = Some m'"
proof -
  let ?PT = "(\<lambda>_. 0)(1 := user_entry 5, 2 := user_entry 6) :: page_table"
  have at: "kaddr ?PT 0x1000 = Some (5, 0)" "kaddr ?PT 0x2000 = Some (6, 0)"
    by (simp_all add: kaddr_def and_masks)
  have only: "a = 0x2000" if "kaddr ?PT a = Some (6, 0)" for a :: u32
  proof -
    from that have "unat a div 4096 = 2" "unat a mod 4096 = 0"
      by (auto simp: kaddr_def Let_def and_masks split: if_splits)
    then have "unat a = unat (0x2000 :: u32)" using div_mult_mod_eq [of "unat a" 4096] by simp
    then show ?thesis by (simp only: word_unat_eq_iff)
  qed
  have inj: "a = 0x2000 + of_nat i" if "i < nat 1" "kaddr ?PT a = kaddr ?PT (0x2000 + of_nat i)" for i a
  proof -
    from that(1) have i: "0x2000 + of_nat i = (0x2000 :: u32)" by simp
    show ?thesis using that(2) unfolding i at(2) by (rule only)
  qed
  have "no_overlap 0x1000 0x2000 (nat 1)" "nat 1 < 2 ^ 32" by (simp_all add: no_overlap_def)
  moreover have "kaddr ?PT (0x1000 + of_nat i) \<noteq> None \<and> kaddr ?PT (0x2000 + of_nat i) \<noteq> None" if "i < nat 1" for i
    using that at by simp
  ultimately have "\<exists>m'. copy_mapped ?PT 0x1000 0x2000 1 (\<lambda>_ _. 7) = Some m'
      \<and> view ?PT m' = copy_data 0x1000 0x2000 1 (view ?PT (\<lambda>_ _. 7))"
    by (rule copy_mapped_refines [OF _ _ _ inj])
  then show ?thesis by blast
qed

end
