(* ===== verification/Kernel.thy ===== *)
theory Kernel
  imports Layout Mm Io Vmem
begin

text \<open>
  The kernel's state and the accessors every other component uses: the structures of
  \<open>include/sched.h\<close> and \<open>include/mutex.h\<close>, the globals of \<open>sched.c\<close>, \<open>sys.c\<close>, \<open>mm.c\<close>
  and \<open>interrupt.c\<close>, the processor registers the C code reads or writes, and
  \<open>current_t\<close>, \<open>current_p\<close>, \<open>get_DIR\<close>, \<open>get_PT\<close>, \<open>allocate_DIR\<close>.

  Descriptors are named by their index in \<open>task\<close> and \<open>thread_tasks\<close>; a null pointer to
  one is \<^const>\<open>None\<close>. The \<open>struct list_head\<close> fields of all structures live in one heap
  of nodes, addressed by \<^typ>\<open>lnode\<close>. Kernel stacks are arrays of 1024 words; the
  descriptor fields that share the union with the first words of the stack are kept as
  fields, which is faithful while no stack grows into its descriptor.
\<close>

section \<open>Structures\<close>

datatype state_t = ST_RUN | ST_READY | ST_BLOCKED

text \<open>The enumeration constants are the integers 0, 1, 2, ordered as such.\<close>

fun state_code :: "state_t \<Rightarrow> nat" where
  "state_code ST_RUN = 0" | "state_code ST_READY = 1" | "state_code ST_BLOCKED = 2"

instantiation state_t :: linorder
begin

definition less_eq_state_t :: "state_t \<Rightarrow> state_t \<Rightarrow> bool" where
  "less_eq_state_t a b \<longleftrightarrow> state_code a \<le> state_code b"

definition less_state_t :: "state_t \<Rightarrow> state_t \<Rightarrow> bool" where
  "less_state_t a b \<longleftrightarrow> state_code a < state_code b"

instance
proof
  fix a b c :: state_t
  show "a < b \<longleftrightarrow> a \<le> b \<and> \<not> b \<le> a" by (auto simp: less_eq_state_t_def less_state_t_def)
  show "a \<le> a" by (simp add: less_eq_state_t_def)
  show "a \<le> b \<Longrightarrow> b \<le> c \<Longrightarrow> a \<le> c" by (simp add: less_eq_state_t_def)
  show "a \<le> b \<Longrightarrow> b \<le> a \<Longrightarrow> a = b"
    by (cases a; cases b) (simp_all add: less_eq_state_t_def)
  show "a \<le> b \<or> b \<le> a" by (auto simp: less_eq_state_t_def)
qed

end

record task_struct =
  PID :: u32
  task_dir :: u32            \<comment> \<open>\<open>dir_pages_baseAddr\<close>\<close>
  task_state :: state_t      \<comment> \<open>\<open>state\<close>\<close>
  total_quantum :: u32
  nthread :: u32

record thread_struct =
  TID :: u32
  thread_dir :: u32          \<comment> \<open>\<open>dir_pages_baseAddr\<close>\<close>
  thread_p :: "nat option"   \<comment> \<open>\<open>p\<close>, the owning process\<close>
  register_esp :: u32
  thread_state :: state_t    \<comment> \<open>\<open>state\<close>\<close>
  quantum :: u32
  blocked_by :: u32
  kstack :: "nat \<Rightarrow> u32"     \<comment> \<open>\<open>stack\<close> of \<open>union thread_union\<close>\<close>

record mutex_t =
  locked :: u32
  owner :: u32

record kernel =
  sym :: symbols
  heap :: "lnode lheap"
  tasks :: "nat \<Rightarrow> task_struct"
  threads :: "nat \<Rightarrow> thread_struct"
  mutexes :: "nat \<Rightarrow> mutex_t"
  phys_mem :: frame_map
  dir_pages :: "nat \<Rightarrow> page_table"
  pagusr_table :: "nat \<Rightarrow> page_table"
  ram :: "nat \<Rightarrow> nat \<Rightarrow> u8"    \<comment> \<open>contents of the physical frames, by offset\<close>
  remaining_quantum_t :: u32
  remaining_quantum_p :: u32
  idle_task :: "nat option"
  global_PID :: u32
  zeos_ticks :: u32
  con :: console
  tss_esp0 :: u32
  msr_esp :: u32               \<comment> \<open>model specific register \<open>0x175\<close>\<close>
  cr3 :: u32
  esp :: u32                   \<comment> \<open>kernel stack pointer\<close>
  ebp :: u32                   \<comment> \<open>frame pointer when kernel code saves it\<close>

definition upd_task :: "nat \<Rightarrow> (task_struct \<Rightarrow> task_struct) \<Rightarrow> kernel \<Rightarrow> kernel" where
  "upd_task i f s = s\<lparr>tasks := (tasks s)(i := f (tasks s i))\<rparr>"

definition upd_thread :: "nat \<Rightarrow> (thread_struct \<Rightarrow> thread_struct) \<Rightarrow> kernel \<Rightarrow> kernel" where
  "upd_thread i f s = s\<lparr>threads := (threads s)(i := f (threads s i))\<rparr>"

definition upd_mutex :: "nat \<Rightarrow> (mutex_t \<Rightarrow> mutex_t) \<Rightarrow> kernel \<Rightarrow> kernel" where
  "upd_mutex i f s = s\<lparr>mutexes := (mutexes s)(i := f (mutexes s i))\<rparr>"

definition k_INIT_LIST_HEAD :: "lnode \<Rightarrow> kernel \<Rightarrow> kernel" where
  "k_INIT_LIST_HEAD l s = s\<lparr>heap := INIT_LIST_HEAD l (heap s)\<rparr>"

lemma upd_simps [simp]:
  "upd_task i f s = s\<lparr>tasks := (tasks s)(i := f (tasks s i))\<rparr>"
  "upd_thread i g s = s\<lparr>threads := (threads s)(i := g (threads s i))\<rparr>"
  "upd_mutex i k s = s\<lparr>mutexes := (mutexes s)(i := k (mutexes s i))\<rparr>"
  by (simp_all add: upd_task_def upd_thread_def upd_mutex_def)

section \<open>Accessors\<close>

text \<open>
  \<open>current_t\<close>: the page of the kernel stack pointer. \<open>current_p\<close> is \<^const>\<open>None\<close> where the
  code gets a null pointer; every use of it in the code dereferences it.
\<close>

definition current_t :: "kernel \<Rightarrow> nat option" where
  "current_t s = thread_at (sym s) (esp s AND 0xfffff000)"

definition current_p :: "kernel \<Rightarrow> nat option" where
  "current_p s = current_t s \<bind> (\<lambda>c. thread_p (threads s c))"

definition dir_at :: "symbols \<Rightarrow> u32 \<Rightarrow> nat option" where
  "dir_at \<sigma> a = elem_at (dir_base \<sigma>) NR_TASKS a"

definition table_at :: "symbols \<Rightarrow> u32 \<Rightarrow> nat option" where
  "table_at \<sigma> a = elem_at (pagusr_base \<sigma>) NR_TASKS a"

definition get_DIR :: "kernel \<Rightarrow> nat \<Rightarrow> u32" where
  "get_DIR s t = task_dir (tasks s t)"

text \<open>The page table the first directory entry points to, as an index of \<open>pagusr_table\<close>.\<close>

definition get_PT_of_dir :: "kernel \<Rightarrow> u32 \<Rightarrow> nat option" where
  "get_PT_of_dir s dir = do {
     d \<leftarrow> dir_at (sym s) dir;
     table_at (sym s) (push_bit 12 (pbase_addr (dir_pages s d 0)))
   }"

definition get_PT :: "kernel \<Rightarrow> nat \<Rightarrow> nat option" where
  "get_PT s t = get_PT_of_dir s (task_dir (tasks s t))"

definition get_PT_thread :: "kernel \<Rightarrow> nat \<Rightarrow> nat option" where
  "get_PT_thread s t = get_PT_of_dir s (thread_dir (threads s t))"

text \<open>The page table the processor uses: the one of the directory in \<open>cr3\<close>.\<close>

definition mmu_table :: "kernel \<Rightarrow> page_table option" where
  "mmu_table s = map_option (pagusr_table s) (get_PT_of_dir s (cr3 s))"

text \<open>
  List operations on the kernel's node heap. Nodes are reached through pointers that may be null.
  A store through a null pointer goes to the first words of the address space: \<open>next\<close> of the node
  at address 0 or \<open>prev\<close> at address 4. It faults while page 0 is not present, as in the first
  process; \<open>sys_fork\<close> maps page 0 of a child to frame 0.
\<close>

definition null_mapped :: "kernel \<Rightarrow> bool" where
  "null_mapped s \<longleftrightarrow> (case mmu_table s of Some PT \<Rightarrow> pte_present (PT 0) | None \<Rightarrow> False)"

definition node_ptr :: "symbols \<Rightarrow> lnode option \<Rightarrow> u32" where
  "node_ptr \<sigma> p = (case p of None \<Rightarrow> 0 | Some n \<Rightarrow> node_addr \<sigma> n)"

definition k_store :: "u32 \<Rightarrow> u32 \<Rightarrow> kernel \<Rightarrow> kernel option" where
  "k_store a v s = do { PT \<leftarrow> mmu_table s; m \<leftarrow> vstore32 PT a v (ram s); Some (s\<lparr>ram := m\<rparr>) }"

definition k_store_next :: "lnode option \<Rightarrow> lnode option \<Rightarrow> kernel \<Rightarrow> kernel option" where
  "k_store_next p v s = (case p of
       None \<Rightarrow> k_store 0 (node_ptr (sym s) v) s
     | Some n \<Rightarrow> map_option (\<lambda>h. s\<lparr>heap := h\<rparr>) (store_next (Some n) v (heap s)))"

definition k_store_prev :: "lnode option \<Rightarrow> lnode option \<Rightarrow> kernel \<Rightarrow> kernel option" where
  "k_store_prev p v s = (case p of
       None \<Rightarrow> k_store 4 (node_ptr (sym s) v) s
     | Some n \<Rightarrow> map_option (\<lambda>h. s\<lparr>heap := h\<rparr>) (store_prev (Some n) v (heap s)))"

definition k_list_del :: "lnode \<Rightarrow> kernel \<Rightarrow> kernel option" where
  "k_list_del entry s = do {
     let pv = lh_prev (heap s entry);
     let nx = lh_next (heap s entry);
     s1 \<leftarrow> k_store_prev nx pv s;
     s2 \<leftarrow> k_store_next pv nx s1;
     s3 \<leftarrow> k_store_next (Some entry) None s2;
     k_store_prev (Some entry) None s3
   }"

definition k_list_add_tail :: "lnode \<Rightarrow> lnode \<Rightarrow> kernel \<Rightarrow> kernel option" where
  "k_list_add_tail new head s = do {
     let pv = lh_prev (heap s head);
     s1 \<leftarrow> k_store_prev (Some head) (Some new) s;
     s2 \<leftarrow> k_store_next (Some new) (Some head) s1;
     s3 \<leftarrow> k_store_prev (Some new) pv s2;
     k_store_next pv (Some new) s3
   }"

definition dir_addr :: "symbols \<Rightarrow> nat \<Rightarrow> u32" where
  "dir_addr \<sigma> i = elem_addr (dir_base \<sigma>) i"

definition allocate_DIR :: "nat \<Rightarrow> kernel \<Rightarrow> kernel" where
  "allocate_DIR t s =
     (let pos = unat (task_addr (sym s) t - task_base (sym s)) div 4096
      in upd_task t (\<lambda>c. c\<lparr>task_dir := dir_addr (sym s) pos\<rparr>) s)"

text \<open>\<open>set_cr3\<close>, and \<open>setMSR(0x175, 0, v)\<close> and \<open>tss.esp0 = v\<close> as the code pairs them.\<close>

definition set_cr3 :: "u32 \<Rightarrow> kernel \<Rightarrow> kernel" where
  "set_cr3 dir s = s\<lparr>cr3 := dir\<rparr>"

definition set_kernel_stack :: "nat \<Rightarrow> kernel \<Rightarrow> kernel" where
  "set_kernel_stack i s =
     (let top = stack_addr (sym s) i KERNEL_STACK_SIZE
      in s\<lparr>tss_esp0 := top, msr_esp := top\<rparr>)"

definition upd_table :: "nat \<Rightarrow> (page_table \<Rightarrow> page_table) \<Rightarrow> kernel \<Rightarrow> kernel" where
  "upd_table i f s = s\<lparr>pagusr_table := (pagusr_table s)(i := f (pagusr_table s i))\<rparr>"

section \<open>Their values under a valid layout\<close>

lemma allocate_DIR_eq:
  assumes "layout_ok (sym s)" and "t < NR_TASKS"
  shows "allocate_DIR t s = upd_task t (\<lambda>c. c\<lparr>task_dir := dir_addr (sym s) t\<rparr>) s"
proof -
  have "unat (of_nat (4096 * t) :: u32) = 4096 * t" using assms(2) by (intro unat_of_nat32) simp
  then have "unat (task_addr (sym s) t - task_base (sym s)) div 4096 = t"
    unfolding task_addr_def elem_addr_def by simp
  then show ?thesis by (simp add: allocate_DIR_def)
qed

text \<open>Directory \<open>i\<close> points to page table \<open>i\<close>, the state \<open>init_dir_pages\<close> sets up.\<close>

definition dirs_ok :: "kernel \<Rightarrow> bool" where
  "dirs_ok s \<longleftrightarrow> (\<forall>i < NR_TASKS.
     pbase_addr (dir_pages s i 0) = drop_bit 12 (elem_addr (pagusr_base (sym s)) i))"

lemma push_drop_page: "unat (a :: u32) mod 4096 = 0 \<Longrightarrow> push_bit 12 (drop_bit 12 a) = a"
proof -
  assume "unat a mod 4096 = 0"
  then have "unat (take_bit 12 a) = 0"
    by (simp only: unsigned_take_bit_eq) (simp add: take_bit_eq_mod)
  then have "take_bit 12 a = 0" by (simp add: unat_eq_0)
  with bits_ident [of 12 a] show ?thesis by simp
qed

lemma get_PT_of_dir_addr:
  assumes "layout_ok (sym s)" and "dirs_ok s" and "i < NR_TASKS"
  shows "get_PT_of_dir s (dir_addr (sym s) i) = Some i"
proof -
  let ?\<sigma> = "sym s"
  have i: "i < 10" using assms(3) by simp
  have d: "dir_at ?\<sigma> (dir_addr ?\<sigma> i) = Some i"
    unfolding dir_at_def dir_addr_def using i layout_tables(1) [OF assms(1)]
    by (intro elem_at_elem_addr) simp_all
  have u: "unat (elem_addr (pagusr_base ?\<sigma>) i) = unat (pagusr_base ?\<sigma>) + 4096 * i"
    using i layout_tables(3) [OF assms(1)] by (intro unat_elem_addr) simp
  then have "unat (elem_addr (pagusr_base ?\<sigma>) i) mod 4096 = 0"
    using layout_tables(2) [OF assms(1)] by simp
  then have "push_bit 12 (pbase_addr (dir_pages s i 0)) = elem_addr (pagusr_base ?\<sigma>) i"
    using assms(2,3) by (simp add: dirs_ok_def push_drop_page)
  moreover have "table_at ?\<sigma> (elem_addr (pagusr_base ?\<sigma>) i) = Some i"
    unfolding table_at_def using i layout_tables(3) [OF assms(1)]
    by (intro elem_at_elem_addr) simp_all
  ultimately show ?thesis using d by (simp add: get_PT_of_dir_def)
qed

section \<open>List operations without null pointers\<close>

text \<open>While no null pointer is followed they are the operations of theory Lists on the heap.\<close>

definition null_list_del :: "lnode \<Rightarrow> kernel \<Rightarrow> kernel option" where
  "null_list_del n s = k_list_del n s"

definition null_list_add_tail :: "lnode \<Rightarrow> lnode \<Rightarrow> kernel \<Rightarrow> kernel option" where
  "null_list_add_tail n head s = k_list_add_tail n head s"

lemma k_list_del_case:
  "k_list_del n s = (case list_del n (heap s) of Some h \<Rightarrow> Some (s\<lparr>heap := h\<rparr>) | None \<Rightarrow> null_list_del n s)"
  by (cases "lh_prev (heap s n)"; cases "lh_next (heap s n)")
    (simp_all add: null_list_del_def k_list_del_def list_del_def list_del_between_def k_store_next_def
      k_store_prev_def store_next_def store_prev_def Let_def)

lemma k_list_add_tail_case:
  "k_list_add_tail n head s =
     (case list_add_tail n head (heap s) of Some h \<Rightarrow> Some (s\<lparr>heap := h\<rparr>) | None \<Rightarrow> null_list_add_tail n head s)"
  by (cases "lh_prev (heap s head)")
    (simp_all add: null_list_add_tail_def k_list_add_tail_def list_add_tail_def list_add_between_def k_store_next_def
      k_store_prev_def store_next_def store_prev_def Let_def)

lemma k_list_eqs:
  "list_del n (heap s) = Some h \<Longrightarrow> k_list_del n s = Some (s\<lparr>heap := h\<rparr>)"
  "list_add_tail n a (heap s) = Some h \<Longrightarrow> k_list_add_tail n a s = Some (s\<lparr>heap := h\<rparr>)"
  by (simp_all add: k_list_del_case k_list_add_tail_case)

lemma null_mapped_upd [simp]:
  "null_mapped (s\<lparr>heap := h\<rparr>) = null_mapped s" "null_mapped (s\<lparr>threads := th\<rparr>) = null_mapped s"
  "null_mapped (s\<lparr>mutexes := x\<rparr>) = null_mapped s" "null_mapped (s\<lparr>ram := m\<rparr>) = null_mapped s"
  by (simp_all add: null_mapped_def mmu_table_def get_PT_of_dir_def)

text \<open>Through a null pointer they fault where page 0 is not present.\<close>

lemma k_store_null: "\<not> null_mapped s \<Longrightarrow> k_store 0 v s = None" "\<not> null_mapped s \<Longrightarrow> k_store 4 v s = None"
  by (cases "mmu_table s"; simp add: k_store_def null_mapped_def vstore32_def vwrite_def kaddr_def)+

lemma null_faults:
  "\<not> null_mapped s \<Longrightarrow> lh_next (heap s n) = None \<Longrightarrow> k_list_del n s = None"
  "\<not> null_mapped s \<Longrightarrow> lh_prev (heap s a) = None \<Longrightarrow> k_list_add_tail n a s = None"
proof -
  show "\<not> null_mapped s \<Longrightarrow> lh_next (heap s n) = None \<Longrightarrow> k_list_del n s = None"
    by (simp add: k_list_del_def k_store_prev_def k_store_null)
  show "\<not> null_mapped s \<Longrightarrow> lh_prev (heap s a) = None \<Longrightarrow> k_list_add_tail n a s = None"
    by (simp add: k_list_add_tail_def k_store_next_def k_store_prev_def k_store_null store_next_def store_prev_def)
qed

text \<open>Where page 0 is present, deleting a node whose pointers are null only writes to page 0.\<close>

lemma k_store_low:
  assumes "null_mapped s" and "unat a + 3 < 4096"
  obtains m where "k_store a v s = Some (s\<lparr>ram := m\<rparr>)"
proof -
  obtain PT where PT: "mmu_table s = Some PT" "pte_present (PT 0)"
    using assms(1) by (cases "mmu_table s") (auto simp: null_mapped_def)
  have "kaddr PT (a + of_nat j) = Some (unat (pbase_addr (PT 0)), unat a + j)" if "j < 4" for j
  proof -
    have "unat (a + of_nat j) = unat a + j" using assms(2) that by (intro unat_add_of_nat32) simp
    then show ?thesis using PT(2) assms(2) that by (simp add: kaddr_def)
  qed
  from this [of 0] this [of 1] this [of 2] this [of 3] PT(1) show thesis
    by (intro that) (simp add: k_store_def vstore32_def vwrite_def)
qed

lemma null_del:
  assumes "null_mapped s" and "heap s n = null_node"
  obtains m where "k_list_del n s = Some (s\<lparr>ram := m\<rparr>)"
proof -
  obtain m1 where 1: "k_store 4 0 s = Some (s\<lparr>ram := m1\<rparr>)" by (rule k_store_low [OF assms(1), of 4]) simp_all
  obtain m2 where 2: "k_store 0 0 (s\<lparr>ram := m1\<rparr>) = Some (s\<lparr>ram := m1, ram := m2\<rparr>)"
    by (rule k_store_low [of "s\<lparr>ram := m1\<rparr>" 0]) (use assms(1) in simp_all)
  have "(heap s)(n := null_node) = heap s" using assms(2) by (rule fun_upd_idem)
  then have "s\<lparr>ram := m2, heap := (heap s)(n := null_node)\<rparr> = s\<lparr>ram := m2\<rparr>" by simp
  with 1 2 assms(2) show thesis
    by (intro that [of m2]) (simp add: k_list_del_def k_store_prev_def k_store_next_def store_next_def store_prev_def
        node_ptr_def null_node_def)
qed

end
