(* ===== verification/Sched.thy ===== *)
theory Sched
  imports Kernel
begin

text \<open>
  The two-level round robin scheduler (\<open>sched.c\<close>): processes take turns in
  \<open>readyqueue\<close>, the threads of the running process in its \<open>ready_threads\<close>. Each
  definition below is one function of the source.
\<close>

section \<open>The scheduling policy\<close>

definition get_quantum_p :: "kernel \<Rightarrow> nat \<Rightarrow> u32" where
  "get_quantum_p s t = total_quantum (tasks s t)"

definition get_quantum_t :: "kernel \<Rightarrow> nat \<Rightarrow> u32" where
  "get_quantum_t s t = quantum (threads s t)"

definition set_quantum :: "nat \<Rightarrow> u32 \<Rightarrow> kernel \<Rightarrow> kernel" where
  "set_quantum t new_quantum = upd_task t (\<lambda>c. c\<lparr>total_quantum := new_quantum\<rparr>)"

definition update_sched_data_rr :: "kernel \<Rightarrow> kernel" where
  "update_sched_data_rr s = s\<lparr>remaining_quantum_t := remaining_quantum_t s - 1,
     remaining_quantum_p := remaining_quantum_p s - 1\<rparr>"

definition needs_sched_rr :: "kernel \<Rightarrow> (nat \<times> kernel) option" where
  "needs_sched_rr s =
     (if remaining_quantum_p s = 0 \<and> \<not> list_empty Readyqueue (heap s) then Some (1, s)
      else do {
        two \<leftarrow> (if remaining_quantum_t s = 0
                then do { p \<leftarrow> current_p s; Some (\<not> list_empty (ReadyThreads p) (heap s)) }
                else Some False);
        if two then Some (2, s)
        else do {
          s1 \<leftarrow> (if remaining_quantum_p s = 0
                 then do { p \<leftarrow> current_p s; Some (s\<lparr>remaining_quantum_p := get_quantum_p s p\<rparr>) }
                 else Some s);
          s2 \<leftarrow> (if remaining_quantum_t s1 = 0
                 then do { c \<leftarrow> current_t s1; Some (s1\<lparr>remaining_quantum_t := get_quantum_t s1 c\<rparr>) }
                 else Some s1);
          Some (0, s2)
        }
      })"

text \<open>The destination queue may be null: then the process or thread is to run.\<close>

definition update_process_state_rr :: "nat \<Rightarrow> lnode option \<Rightarrow> kernel \<Rightarrow> kernel option" where
  "update_process_state_rr t dst_queue s = do {
     s1 \<leftarrow> (if task_state (tasks s t) \<noteq> ST_RUN then k_list_del (TaskList t) s else Some s);
     case dst_queue of
       Some q \<Rightarrow> do {
         s2 \<leftarrow> k_list_add_tail (TaskList t) q s1;
         Some (upd_task t (\<lambda>c. c\<lparr>task_state := (if q \<noteq> Readyqueue then ST_BLOCKED else ST_READY)\<rparr>) s2)
       }
     | None \<Rightarrow> Some (upd_task t (\<lambda>c. c\<lparr>task_state := ST_RUN\<rparr>) s1)
   }"

definition update_thread_state_rr :: "nat \<Rightarrow> lnode option \<Rightarrow> kernel \<Rightarrow> kernel option" where
  "update_thread_state_rr t dst_queue s = do {
     s1 \<leftarrow> (if thread_state (threads s t) \<noteq> ST_RUN then k_list_del (ThreadList t) s else Some s);
     case dst_queue of
       Some q \<Rightarrow> do {
         s2 \<leftarrow> k_list_add_tail (ThreadList t) q s1;
         p \<leftarrow> current_p s2;
         Some (upd_thread t (\<lambda>c. c\<lparr>thread_state := (if q \<noteq> ReadyThreads p then ST_BLOCKED else ST_READY)\<rparr>) s2)
       }
     | None \<Rightarrow> Some (upd_thread t (\<lambda>c. c\<lparr>thread_state := ST_RUN\<rparr>) s1)
   }"

section \<open>Switching threads\<close>

text \<open>
  \<open>switch_stack\<close> (\<open>kernel-utils.S\<close>): the frame pointer is saved through \<open>save_sp\<close> and the
  stack pointer becomes \<open>new_sp\<close>, from where \<open>popl %ebp; ret\<close> read their operands. A
  stack pointer outside the kernel stacks is not followed. Both arguments were pushed
  before the call, so \<open>new_sp\<close> is the value before the save.
\<close>

definition switch_stack :: "nat \<Rightarrow> u32 \<Rightarrow> kernel \<Rightarrow> kernel option" where
  "switch_stack save_sp new_sp s =
     (let s1 = upd_thread save_sp (\<lambda>c. c\<lparr>register_esp := ebp s\<rparr>) s
      in case stack_slot (sym s) new_sp of
           None \<Rightarrow> None
         | Some _ \<Rightarrow> Some (s1\<lparr>esp := new_sp\<rparr>))"

text \<open>
  \<open>inner_task_switch\<close>, as \<open>task_switch\<close> of \<open>kernel-utils.S\<close> calls it. The frames of the C functions between
  the entry into the kernel and this point, and the three registers \<open>task_switch\<close> pushes, are not
  modelled: their size and contents are the compiler's. \<open>ebp s\<close> is the frame the call or the interrupt
  began with, and the pointer saved in \<open>register_esp\<close> stands for the place on the same stack from where
  those frames unwind to it. The words of \<open>kstack\<close> are those the kernel writes by name (the frames of
  new threads and of system calls).
\<close>

definition inner_task_switch :: "nat \<Rightarrow> kernel \<Rightarrow> kernel option" where
  "inner_task_switch new s = do {
     p \<leftarrow> thread_p (threads s new);
     let new_DIR = get_DIR s p;
     let s1 = set_kernel_stack new s;
     let s2 = set_cr3 new_DIR s1;
     c \<leftarrow> current_t s2;
     switch_stack c (register_esp (threads s2 new)) s2
   }"

definition task_switch :: "nat \<Rightarrow> kernel \<Rightarrow> kernel option" where
  "task_switch new s = inner_task_switch new s"

definition sched_next_process_rr :: "kernel \<Rightarrow> kernel option" where
  "sched_next_process_rr s = do {
     (t, s1) \<leftarrow>
       (if \<not> list_empty Readyqueue (heap s) then do {
          e \<leftarrow> list_first Readyqueue (heap s);
          s1 \<leftarrow> k_list_del e s;
          p \<leftarrow> task_at (sym s1) (list_head_to_task_struct (sym s1) e);
          a \<leftarrow> list_first (ReadyThreads p) (heap s1);
          t \<leftarrow> thread_at (sym s1) (list_head_to_thread_struct (sym s1) a);
          s2 \<leftarrow> k_list_del a s1;
          let s3 = upd_task p (\<lambda>c. c\<lparr>task_state := ST_RUN\<rparr>) s2;
          Some (t, s3\<lparr>remaining_quantum_p := get_quantum_p s3 p\<rparr>)
        } else do { t \<leftarrow> idle_task s; Some (t, s) });
     let s4 = upd_thread t (\<lambda>c. c\<lparr>thread_state := ST_RUN\<rparr>) s1;
     let s5 = s4\<lparr>remaining_quantum_t := get_quantum_t s4 t\<rparr>;
     task_switch t s5
   }"

definition sched_next_thread_rr :: "kernel \<Rightarrow> kernel option" where
  "sched_next_thread_rr s = do {
     p \<leftarrow> current_p s;
     e \<leftarrow> list_first (ReadyThreads p) (heap s);
     t \<leftarrow> thread_at (sym s) (list_head_to_thread_struct (sym s) e);
     s1 \<leftarrow> update_thread_state_rr t None s;
     let s2 = s1\<lparr>remaining_quantum_t := get_quantum_t s1 t\<rparr>;
     task_switch t s2
   }"

definition schedule :: "kernel \<Rightarrow> kernel option" where
  "schedule s = do {
     let s1 = update_sched_data_rr s;
     (scheduler, s2) \<leftarrow> needs_sched_rr s1;
     if scheduler = 1 then do {
       p \<leftarrow> current_p s2;
       s3 \<leftarrow> update_process_state_rr p (Some Readyqueue) s2;
       c \<leftarrow> current_t s3;
       p' \<leftarrow> current_p s3;
       s4 \<leftarrow> update_thread_state_rr c (Some (ReadyThreads p')) s3;
       sched_next_process_rr s4
     }
     else if scheduler = 2 then do {
       c \<leftarrow> current_t s2;
       p \<leftarrow> current_p s2;
       s3 \<leftarrow> update_thread_state_rr c (Some (ReadyThreads p)) s2;
       sched_next_thread_rr s3
     }
     else Some s2
   }"

definition force_thread_switch :: "kernel \<Rightarrow> kernel option" where
  "force_thread_switch s = do {
     c \<leftarrow> current_t s;
     p \<leftarrow> current_p s;
     s1 \<leftarrow> update_thread_state_rr c (Some (ReadyThreads p)) s;
     sched_next_thread_rr s1
   }"

end
