(* ===== verification/Invariant.thy ===== *)
theory Invariant
  imports Sched
begin

text \<open>
  The invariant of the thread and process queues. \<open>Q a\<close> is the sequence of nodes queued
  at head \<open>a\<close> and \<open>M\<close> the set of mutexes whose waiting list has been initialised.
  \<open>kmid\<close> describes any moment inside the kernel, when the executing thread \<open>c\<close> may
  already have been queued although its stack pointer is not saved yet; \<open>kinv\<close> describes
  the moments between two kernel activities, when thread \<open>c\<close> of process \<open>cp\<close> runs.
\<close>

section \<open>Queue heads and their members\<close>

definition heads :: "nat set \<Rightarrow> lnode set" where
  "heads M = {Freequeue, Readyqueue, Free_threadqueue} \<union> ReadyThreads ` {..<NR_TASKS}
     \<union> BlockedThreads ` {..<NR_TASKS} \<union> MutexBlocked ` M"

lemma heads_simps [simp]:
  "Freequeue \<in> heads M" "Readyqueue \<in> heads M" "Free_threadqueue \<in> heads M"
  "ReadyThreads i \<in> heads M \<longleftrightarrow> i < 10" "BlockedThreads i \<in> heads M \<longleftrightarrow> i < 10"
  "MutexBlocked m \<in> heads M \<longleftrightarrow> m \<in> M" "TaskList i \<notin> heads M" "ThreadList t \<notin> heads M"
  by (auto simp: heads_def)

text \<open>A stack pointer from which thread \<open>t\<close> can be resumed.\<close>

definition saved_ok :: "symbols \<Rightarrow> nat \<Rightarrow> u32 \<Rightarrow> bool" where
  "saved_ok \<sigma> t a \<longleftrightarrow>
     (case stack_slot \<sigma> a of Some (i, k) \<Rightarrow> i = t \<and> k + 1 < KERNEL_STACK_SIZE | None \<Rightarrow> False)"

definition waits :: "kernel \<Rightarrow> nat \<Rightarrow> nat \<Rightarrow> nat \<Rightarrow> bool" where
  "waits s c i t \<longleftrightarrow> t < NR_THREADS + 2 \<and> thread_p (threads s t) = Some i
     \<and> thread_state (threads s t) \<noteq> ST_RUN
     \<and> (t = c \<or> saved_ok (sym s) t (register_esp (threads s t)))"

fun member_ok :: "kernel \<Rightarrow> (lnode \<Rightarrow> lnode list) \<Rightarrow> nat \<Rightarrow> lnode \<Rightarrow> lnode \<Rightarrow> bool" where
  "member_ok s Q c Freequeue n = (case n of
     TaskList i \<Rightarrow> i < NR_TASKS \<and> Q (ReadyThreads i) = [] \<and> Q (BlockedThreads i) = [] | _ \<Rightarrow> False)"
| "member_ok s Q c Readyqueue n = (case n of
     TaskList i \<Rightarrow> i < NR_TASKS \<and> task_state (tasks s i) = ST_READY \<and> Q (ReadyThreads i) \<noteq> []
       \<and> task_dir (tasks s i) = dir_addr (sym s) i | _ \<Rightarrow> False)"
| "member_ok s Q c Free_threadqueue n = (case n of
     ThreadList t \<Rightarrow> t < NR_THREADS + 2 | _ \<Rightarrow> False)"
| "member_ok s Q c (ReadyThreads i) n = (case n of
     ThreadList t \<Rightarrow> waits s c i t \<and> thread_state (threads s t) = ST_READY | _ \<Rightarrow> False)"
| "member_ok s Q c (BlockedThreads i) n = (case n of
     ThreadList t \<Rightarrow> waits s c i t | _ \<Rightarrow> False)"
| "member_ok s Q c (MutexBlocked m) n = (case n of
     ThreadList t \<Rightarrow> (\<exists>i < NR_TASKS. waits s c i t) | _ \<Rightarrow> False)"
| "member_ok s Q c _ n = True"

section \<open>The invariant\<close>

definition unmade_mutexes :: "lnode lheap \<Rightarrow> nat set \<Rightarrow> bool" where
  "unmade_mutexes h M \<longleftrightarrow> M \<subseteq> {..<NR_MUTEX}
     \<and> (\<forall>m < NR_MUTEX. m \<notin> M \<longrightarrow> h (MutexBlocked m) = \<lparr>lh_next = None, lh_prev = None\<rparr>)"

definition idle_ok :: "kernel \<Rightarrow> (lnode \<Rightarrow> lnode list) \<Rightarrow> nat set \<Rightarrow> bool" where
  "idle_ok s Q M \<longleftrightarrow> (\<exists>i. idle_task s = Some i \<and> thread_p (threads s i) = None
     \<and> \<not> queued (heads M) Q (ThreadList i))"

definition kmid :: "kernel \<Rightarrow> (lnode \<Rightarrow> lnode list) \<Rightarrow> nat set \<Rightarrow> nat \<Rightarrow> bool" where
  "kmid s Q M c \<longleftrightarrow> layout_ok (sym s) \<and> dirs_ok s
     \<and> shape (heap s) (heads M) Q \<and> unmade_mutexes (heap s) M
     \<and> (\<forall>a \<in> heads M. \<forall>n \<in> set (Q a). member_ok s Q c a n) \<and> idle_ok s Q M
     \<and> c < NR_THREADS + 2"

definition proc_running :: "kernel \<Rightarrow> (lnode \<Rightarrow> lnode list) \<Rightarrow> nat set \<Rightarrow> nat \<Rightarrow> bool" where
  "proc_running s Q M cp \<longleftrightarrow> cp < NR_TASKS \<and> task_state (tasks s cp) = ST_RUN
     \<and> task_dir (tasks s cp) = dir_addr (sym s) cp \<and> \<not> queued (heads M) Q (TaskList cp)"

definition thread_running :: "kernel \<Rightarrow> (lnode \<Rightarrow> lnode list) \<Rightarrow> nat set \<Rightarrow> nat \<Rightarrow> nat \<Rightarrow> bool" where
  "thread_running s Q M c cp \<longleftrightarrow> thread_p (threads s c) = Some cp
     \<and> thread_state (threads s c) = ST_RUN \<and> \<not> queued (heads M) Q (ThreadList c)"

definition on_cpu :: "kernel \<Rightarrow> nat \<Rightarrow> nat \<Rightarrow> bool" where
  "on_cpu s c cp \<longleftrightarrow> tss_esp0 s = stack_addr (sym s) c KERNEL_STACK_SIZE
     \<and> msr_esp s = stack_addr (sym s) c KERNEL_STACK_SIZE \<and> cr3 s = dir_addr (sym s) cp"

definition kinv :: "kernel \<Rightarrow> (lnode \<Rightarrow> lnode list) \<Rightarrow> nat set \<Rightarrow> nat \<Rightarrow> nat \<Rightarrow> bool" where
  "kinv s Q M c cp \<longleftrightarrow> kmid s Q M c \<and> proc_running s Q M cp \<and> thread_running s Q M c cp
     \<and> on_cpu s c cp"

text \<open>Kernel code executes on the stack of thread \<open>c\<close>, and its frame lies there too.\<close>

definition in_kernel :: "kernel \<Rightarrow> nat \<Rightarrow> bool" where
  "in_kernel s c \<longleftrightarrow> current_t s = Some c \<and> saved_ok (sym s) c (ebp s)"

text \<open>The invariant reads only these fields.\<close>

lemma member_ok_cong:
  "sym s' = sym s \<Longrightarrow> tasks s' = tasks s \<Longrightarrow> threads s' = threads s \<Longrightarrow>
     member_ok s' Q c a n = member_ok s Q c a n"
  by (cases a) (simp_all add: waits_def split: lnode.split)

lemma kmid_cong:
  assumes "sym s' = sym s" and "heap s' = heap s" and "tasks s' = tasks s" and "threads s' = threads s"
    and "dir_pages s' = dir_pages s" and "idle_task s' = idle_task s"
  shows "kmid s' Q M c = kmid s Q M c"
  using assms member_ok_cong [of s' s Q c] by (simp add: kmid_def dirs_ok_def idle_ok_def)

lemma kinv_cong:
  assumes "sym s' = sym s" and "heap s' = heap s" and "tasks s' = tasks s" and "threads s' = threads s"
    and "dir_pages s' = dir_pages s" and "idle_task s' = idle_task s"
    and "tss_esp0 s' = tss_esp0 s" and "msr_esp s' = msr_esp s" and "cr3 s' = cr3 s"
  shows "kinv s' Q M c cp = kinv s Q M c cp"
  using assms kmid_cong [of s' s Q M c]
  by (simp add: kinv_def proc_running_def thread_running_def on_cpu_def)

lemma in_kernel_cong:
  "sym s' = sym s \<Longrightarrow> esp s' = esp s \<Longrightarrow> ebp s' = ebp s \<Longrightarrow> in_kernel s' c = in_kernel s c"
  by (simp add: in_kernel_def current_t_def)

text \<open>
  Entering the kernel: the processor loads the stack pointer from the TSS (interrupts)
  or the \<open>sysenter\<close> register; the entry code and the C functions then push. \<open>j\<close> and \<open>k\<close>
  are the words pushed when the handler's C code runs and when its frame is saved.
\<close>

definition kernel_entry :: "nat \<Rightarrow> nat \<Rightarrow> kernel \<Rightarrow> kernel" where
  "kernel_entry j k s = s\<lparr>esp := tss_esp0 s - of_nat (4 * j), ebp := tss_esp0 s - of_nat (4 * k)\<rparr>"

definition entry_depth :: "nat \<Rightarrow> nat \<Rightarrow> bool" where
  "entry_depth j k \<longleftrightarrow> 1 \<le> j \<and> j \<le> KERNEL_STACK_SIZE \<and> 2 \<le> k \<and> k \<le> KERNEL_STACK_SIZE"

lemma stack_addr_down:
  "j \<le> 1024 \<Longrightarrow> stack_addr \<sigma> c 1024 - of_nat (4 * j) = stack_addr \<sigma> c (1024 - j)"
proof -
  assume j: "j \<le> 1024"
  have "(of_nat (4 * 1024) :: u32) = of_nat (4 * (1024 - j) + 4 * j)" using j by simp
  also have "\<dots> = of_nat (4 * (1024 - j)) + of_nat (4 * j)" by (rule of_nat_add)
  finally show ?thesis unfolding stack_addr_def by (simp only: add_diff_cancel_right' add.assoc [symmetric])
qed

lemma stack_slot_thread: "stack_slot \<sigma> a = Some (i, k) \<Longrightarrow> thread_at \<sigma> (a AND 0xfffff000) = Some i"
  by (auto simp: stack_slot_def split: option.splits if_splits)

lemma kernel_entry_in_kernel:
  assumes "kinv s Q M c cp" and "entry_depth j k"
  shows "in_kernel (kernel_entry j k s) c \<and> kinv (kernel_entry j k s) Q M c cp"
proof -
  have l: "layout_ok (sym s)" and c: "c < 22" and top: "tss_esp0 s = stack_addr (sym s) c 1024"
    using assms(1) by (simp_all add: kinv_def kmid_def on_cpu_def)
  have jk: "1 \<le> j" "j \<le> 1024" "2 \<le> k" "k \<le> 1024" using assms(2) by (simp_all add: entry_depth_def)
  have "stack_slot (sym s) (tss_esp0 s - of_nat (4 * j)) = Some (c, 1024 - j)"
    unfolding top using jk by (simp only: stack_addr_down) (intro stack_slot_addr l c, simp)
  moreover have "stack_slot (sym s) (tss_esp0 s - of_nat (4 * k)) = Some (c, 1024 - k)"
    unfolding top using jk by (simp only: stack_addr_down) (intro stack_slot_addr l c, simp)
  ultimately have "in_kernel (kernel_entry j k s) c"
    using jk stack_slot_thread
    by (auto simp: in_kernel_def current_t_def saved_ok_def kernel_entry_def)
  moreover have "kinv (kernel_entry j k s) Q M c cp = kinv s Q M c cp"
    by (rule kinv_cong) (simp_all add: kernel_entry_def)
  ultimately show ?thesis using assms(1) by blast
qed

end
