(* ===== verification/SchedProofs.thy ===== *)
theory SchedProofs
  imports Invariant
begin

text \<open>
  The scheduler's operations computed on states that satisfy the invariant: what each
  leaves in every field, and that the invariant holds again after a switch.
\<close>

section \<open>Consequences of the invariant\<close>

lemma kmidD:
  assumes "kmid s Q M c"
  shows kmid_layout: "layout_ok (sym s)" and kmid_shape: "shape (heap s) (heads M) Q"
    and kmid_member: "\<And>a n. a \<in> heads M \<Longrightarrow> n \<in> set (Q a) \<Longrightarrow> member_ok s Q c a n"
    and kmid_unmade: "unmade_mutexes (heap s) M" and kmid_idle: "idle_ok s Q M"
    and kmid_c: "c < NR_THREADS + 2" and kmid_dirs: "dirs_ok s"
  using assms by (simp_all add: kmid_def)

lemma kmid_ready_node:
  assumes "kmid s Q M c" and "i < 10" and "n \<in> set (Q (ReadyThreads i))"
  obtains t where "n = ThreadList t" "waits s c i t" "thread_state (threads s t) = ST_READY"
  using kmid_member [OF assms(1), of "ReadyThreads i" n] assms(2,3) by (cases n) auto

lemma kmid_ready_proc:
  assumes "kmid s Q M c" and "n \<in> set (Q Readyqueue)"
  obtains p where "n = TaskList p" "p < 10" "task_state (tasks s p) = ST_READY"
    "Q (ReadyThreads p) \<noteq> []" "task_dir (tasks s p) = dir_addr (sym s) p"
  using kmid_member [OF assms(1), of Readyqueue n] assms(2) by (cases n) auto

lemma kmid_mutex_unqueued:
  assumes "kmid s Q M c"
  shows "\<not> queued (heads M) Q (MutexBlocked m)"
proof
  assume "queued (heads M) Q (MutexBlocked m)"
  then obtain a where "a \<in> heads M" "MutexBlocked m \<in> set (Q a)" by (auto simp: queued_def)
  with kmid_member [OF assms] have "member_ok s Q c a (MutexBlocked m)" by blast
  with \<open>a \<in> heads M\<close> show False by (cases a) simp_all
qed

text \<open>List operations on other nodes leave the mutexes that were never initialised alone.\<close>

lemma unmade_frame:
  assumes "kmid s Q M c"
    and "\<And>x. x \<notin> heads M \<Longrightarrow> x \<noteq> n \<Longrightarrow> \<not> queued (heads M) Q x \<Longrightarrow> h' x = heap s x"
    and "\<And>m. n \<noteq> MutexBlocked m"
  shows "unmade_mutexes h' M"
  using kmid_unmade [OF assms(1)] kmid_mutex_unqueued [OF assms(1)] assms(2,3)
  by (metis (no_types, lifting) heads_simps(6) unmade_mutexes_def)

lemma queuedI: "a \<in> H \<Longrightarrow> n \<in> set (Q a) \<Longrightarrow> queued H Q n"
  by (auto simp: queued_def)

lemma queued_upd:
  "queued H (Q(a := xs)) n \<longleftrightarrow> (a \<in> H \<and> n \<in> set xs) \<or> queued (H - {a}) Q n"
  by (auto simp: queued_def)

lemma not_queued_shrink:
  "\<not> queued H Q n \<Longrightarrow> set xs \<subseteq> set (Q a) \<Longrightarrow> \<not> queued H (Q(a := xs)) n"
  by (auto simp: queued_def)

lemma not_queued_append:
  "\<not> queued H Q n \<Longrightarrow> n \<noteq> m \<Longrightarrow> \<not> queued H (Q(a := Q a @ [m])) n"
  by (auto simp: queued_def)

lemma shape_tail_unqueued:
  assumes "shape h H Q" and "a \<in> H" and "Q a = n # r"
  shows "\<not> queued H (Q(a := r)) n"
  using lq.unqueued_after_del [OF assms(1,2), of n] assms(3) by simp

lemma current_frame:
  "sym s' = sym s \<Longrightarrow> esp s' = esp s \<Longrightarrow> current_t s' = current_t s"
  "sym s' = sym s \<Longrightarrow> esp s' = esp s \<Longrightarrow> (\<And>t. thread_p (threads s' t) = thread_p (threads s t)) \<Longrightarrow>
     current_p s' = current_p s"
  by (simp_all add: current_p_def current_t_def)

section \<open>Computing the operations\<close>

text \<open>A running thread is appended to a queue.\<close>

lemma update_thread_state_run:
  assumes "thread_state (threads s t) = ST_RUN" and "current_p s = Some p"
    and "shape (heap s) H Q" and "q \<in> H" and "ThreadList t \<notin> H" and "\<not> queued H Q (ThreadList t)"
  obtains h' where "update_thread_state_rr t (Some q) s = Some (s\<lparr>heap := h',
       threads := (threads s)(t := (threads s t)\<lparr>thread_state :=
         (if q \<noteq> ReadyThreads p then ST_BLOCKED else ST_READY)\<rparr>)\<rparr>)"
    and "shape h' H (Q(q := Q q @ [ThreadList t]))"
    and "\<And>x. x \<notin> H \<Longrightarrow> x \<noteq> ThreadList t \<Longrightarrow> \<not> queued H Q x \<Longrightarrow> h' x = heap s x"
proof -
  obtain h' where h': "list_add_tail (ThreadList t) q (heap s) = Some h'"
    "shape h' H (Q(q := Q q @ [ThreadList t]))"
    "\<And>x. x \<notin> H \<Longrightarrow> x \<noteq> ThreadList t \<Longrightarrow> \<not> queued H Q x \<Longrightarrow> h' x = heap s x"
    using lq.add_tail_law [OF assms(3-6)] by blast
  have "current_p (s\<lparr>heap := h'\<rparr>) = Some p" using assms(2) by (simp add: current_p_def current_t_def)
  with h'(1) assms(1) show thesis
    by (intro that [OF _ h'(2,3)]) (simp_all add: update_thread_state_rr_def k_list_eqs)
qed

text \<open>A queued thread moves to another queue.\<close>

lemma update_thread_state_move:
  assumes "thread_state (threads s t) \<noteq> ST_RUN" and "current_p s = Some p"
    and "shape (heap s) H Q" and "a \<in> H" and "q \<in> H" and "ThreadList t \<in> set (Q a)"
  obtains h' where "update_thread_state_rr t (Some q) s = Some (s\<lparr>heap := h',
       threads := (threads s)(t := (threads s t)\<lparr>thread_state :=
         (if q \<noteq> ReadyThreads p then ST_BLOCKED else ST_READY)\<rparr>)\<rparr>)"
    and "shape h' H ((Q(a := remove1 (ThreadList t) (Q a)))
           (q := (Q(a := remove1 (ThreadList t) (Q a))) q @ [ThreadList t]))"
    and "\<And>x. x \<notin> H \<Longrightarrow> \<not> queued H Q x \<Longrightarrow> h' x = heap s x"
proof -
  obtain h1 h2 where h: "list_del (ThreadList t) (heap s) = Some h1"
    "list_add_tail (ThreadList t) q h1 = Some h2"
    "shape h2 H ((Q(a := remove1 (ThreadList t) (Q a)))
       (q := (Q(a := remove1 (ThreadList t) (Q a))) q @ [ThreadList t]))"
    "\<And>x. x \<notin> H \<Longrightarrow> \<not> queued H Q x \<Longrightarrow> h2 x = heap s x"
    using lq.move [OF assms(3-6)] by blast
  have "current_p (s\<lparr>heap := h2\<rparr>) = Some p" using assms(2) by (simp add: current_p_def current_t_def)
  with h(1,2) assms(1) show thesis
    by (intro that [OF _ h(3,4)])
      (simp_all add: update_thread_state_rr_def k_list_eqs k_list_add_tail_case)
qed

text \<open>A ready thread leaves its queue to run.\<close>

lemma update_thread_state_pick:
  assumes "thread_state (threads s t) \<noteq> ST_RUN"
    and "shape (heap s) H Q" and "a \<in> H" and "Q a = ThreadList t # r"
  obtains h' where "update_thread_state_rr t None s = Some (s\<lparr>heap := h',
       threads := (threads s)(t := (threads s t)\<lparr>thread_state := ST_RUN\<rparr>)\<rparr>)"
    and "shape h' H (Q(a := r))"
    and "\<And>x. x \<notin> H \<Longrightarrow> \<not> queued H Q x \<Longrightarrow> h' x = heap s x"
proof -
  have "ThreadList t \<in> set (Q a)" using assms(4) by simp
  from lq.del_law [OF assms(2,3) this] obtain h' where
    h': "list_del (ThreadList t) (heap s) = Some h'" "shape h' H (Q(a := r))"
    "\<And>x. x \<notin> H \<Longrightarrow> \<not> queued H Q x \<Longrightarrow> h' x = heap s x"
    using assms(4) by auto
  show thesis
    using h'(1) assms(1) by (intro that [OF _ h'(2,3)]) (simp_all add: update_thread_state_rr_def k_list_eqs)
qed

lemma update_process_state_run:
  assumes "task_state (tasks s p) = ST_RUN" and "shape (heap s) H Q" and "Readyqueue \<in> H"
    and "TaskList p \<notin> H" and "\<not> queued H Q (TaskList p)"
  obtains h' where "update_process_state_rr p (Some Readyqueue) s = Some (s\<lparr>heap := h',
       tasks := (tasks s)(p := (tasks s p)\<lparr>task_state := ST_READY\<rparr>)\<rparr>)"
    and "shape h' H (Q(Readyqueue := Q Readyqueue @ [TaskList p]))"
    and "\<And>x. x \<notin> H \<Longrightarrow> x \<noteq> TaskList p \<Longrightarrow> \<not> queued H Q x \<Longrightarrow> h' x = heap s x"
proof -
  obtain h' where h': "list_add_tail (TaskList p) Readyqueue (heap s) = Some h'"
    "shape h' H (Q(Readyqueue := Q Readyqueue @ [TaskList p]))"
    "\<And>x. x \<notin> H \<Longrightarrow> x \<noteq> TaskList p \<Longrightarrow> \<not> queued H Q x \<Longrightarrow> h' x = heap s x"
    using lq.add_tail_law [OF assms(2-5)] by blast
  show thesis
    using h'(1) assms(1) by (intro that [OF _ h'(2,3)]) (simp_all add: update_process_state_rr_def k_list_eqs)
qed

text \<open>The state a switch from thread \<open>c\<close> to thread \<open>t\<close> of process \<open>p\<close> leaves.\<close>

definition switched :: "nat \<Rightarrow> nat \<Rightarrow> nat \<Rightarrow> kernel \<Rightarrow> kernel" where
  "switched c t p s = s\<lparr>threads := (threads s)(c := (threads s c)\<lparr>register_esp := ebp s\<rparr>),
     tss_esp0 := stack_addr (sym s) t KERNEL_STACK_SIZE,
     msr_esp := stack_addr (sym s) t KERNEL_STACK_SIZE,
     cr3 := task_dir (tasks s p), esp := register_esp (threads s t)\<rparr>"

lemma task_switch_slot:
  assumes "thread_p (threads s t) = Some p" and "current_t s = Some c"
  shows "task_switch t s =
    (case stack_slot (sym s) (register_esp (threads s t)) of None \<Rightarrow> None | Some _ \<Rightarrow> Some (switched c t p s))"
proof -
  have "current_t (set_cr3 d (set_kernel_stack t s)) = Some c" for d
    using assms(2) by (simp add: current_t_def set_cr3_def set_kernel_stack_def Let_def)
  then show ?thesis
    using assms(1)
    by (simp add: task_switch_def inner_task_switch_def switch_stack_def switched_def set_cr3_def
        set_kernel_stack_def get_DIR_def Let_def split: option.split)
qed

lemma saved_slot: "saved_ok \<sigma> t a \<Longrightarrow> \<exists>k. stack_slot \<sigma> a = Some (t, k)"
  by (auto simp: saved_ok_def split: option.splits)

lemma task_switch_eq:
  assumes "thread_p (threads s t) = Some p" and "current_t s = Some c"
    and "saved_ok (sym s) t (register_esp (threads s t))"
  shows "task_switch t s = Some (switched c t p s)"
  using task_switch_slot [OF assms(1,2)] saved_slot [OF assms(3)] by auto

text \<open>The next thread, wherever its saved stack pointer leads.\<close>

lemma sched_next_thread_slot:
  assumes "current_t s = Some c" and "thread_p (threads s c) = Some p" and "p < 10"
    and "layout_ok (sym s)" and "shape (heap s) (heads M) Q"
    and "Q (ReadyThreads p) = ThreadList t # ts" and "t < 22"
    and "thread_state (threads s t) \<noteq> ST_RUN" and "thread_p (threads s t) = Some pt"
  obtains h' where "sched_next_thread_rr s = (case stack_slot (sym s) (register_esp (threads s t)) of None \<Rightarrow> None
      | Some _ \<Rightarrow> Some (switched c t pt (s\<lparr>heap := h',
       threads := (threads s)(t := (threads s t)\<lparr>thread_state := ST_RUN\<rparr>),
       remaining_quantum_t := quantum (threads s t)\<rparr>)))"
    and "shape h' (heads M) (Q(ReadyThreads p := ts))"
    and "\<And>x. x \<notin> heads M \<Longrightarrow> \<not> queued (heads M) Q x \<Longrightarrow> h' x = heap s x"
proof -
  have a: "ReadyThreads p \<in> heads M" using assms(3) by simp
  have f: "list_first (ReadyThreads p) (heap s) = Some (ThreadList t)"
    using lq.first_law [OF assms(5) a] assms(6) by simp
  obtain h' where h': "update_thread_state_rr t None s = Some (s\<lparr>heap := h',
       threads := (threads s)(t := (threads s t)\<lparr>thread_state := ST_RUN\<rparr>)\<rparr>)"
    "shape h' (heads M) (Q(ReadyThreads p := ts))"
    "\<And>x. x \<notin> heads M \<Longrightarrow> \<not> queued (heads M) Q x \<Longrightarrow> h' x = heap s x"
    using update_thread_state_pick [OF assms(8,5) a assms(6)] by blast
  let ?s2 = "s\<lparr>heap := h', threads := (threads s)(t := (threads s t)\<lparr>thread_state := ST_RUN\<rparr>),
       remaining_quantum_t := quantum (threads s t)\<rparr>"
  have "task_switch t ?s2 =
      (case stack_slot (sym s) (register_esp (threads s t)) of None \<Rightarrow> None | Some _ \<Rightarrow> Some (switched c t pt ?s2))"
    using task_switch_slot [of ?s2 t pt c] assms(1,9) by (simp add: current_t_def)
  moreover have "thread_at (sym s) (list_head_to_thread_struct (sym s) (ThreadList t)) = Some t"
    using assms(4,7) by (intro thread_of_node) simp_all
  moreover have "current_p s = Some p" using assms(1,2) by (simp add: current_p_def)
  ultimately have "sched_next_thread_rr s =
      (case stack_slot (sym s) (register_esp (threads s t)) of None \<Rightarrow> None | Some _ \<Rightarrow> Some (switched c t pt ?s2))"
    using f h'(1) by (simp add: sched_next_thread_rr_def get_quantum_t_def)
  then show thesis using h'(2,3) by (rule that)
qed

lemma sched_next_thread_eq:
  assumes "current_t s = Some c" and "thread_p (threads s c) = Some p" and "p < 10"
    and "layout_ok (sym s)" and "shape (heap s) (heads M) Q"
    and "Q (ReadyThreads p) = ThreadList t # ts" and "t < 22"
    and "thread_state (threads s t) \<noteq> ST_RUN" and "thread_p (threads s t) = Some pt"
    and "saved_ok (sym s) t (register_esp (threads s t))"
  obtains h' where "sched_next_thread_rr s = Some (switched c t pt (s\<lparr>heap := h',
       threads := (threads s)(t := (threads s t)\<lparr>thread_state := ST_RUN\<rparr>),
       remaining_quantum_t := quantum (threads s t)\<rparr>))"
    and "shape h' (heads M) (Q(ReadyThreads p := ts))"
    and "\<And>x. x \<notin> heads M \<Longrightarrow> \<not> queued (heads M) Q x \<Longrightarrow> h' x = heap s x"
proof -
  obtain k where k: "stack_slot (sym s) (register_esp (threads s t)) = Some (t, k)" using saved_slot [OF assms(10)] by blast
  obtain h' where h': "sched_next_thread_rr s = (case stack_slot (sym s) (register_esp (threads s t)) of None \<Rightarrow> None
      | Some _ \<Rightarrow> Some (switched c t pt (s\<lparr>heap := h',
       threads := (threads s)(t := (threads s t)\<lparr>thread_state := ST_RUN\<rparr>),
       remaining_quantum_t := quantum (threads s t)\<rparr>)))"
    "shape h' (heads M) (Q(ReadyThreads p := ts))"
    "\<And>x. x \<notin> heads M \<Longrightarrow> \<not> queued (heads M) Q x \<Longrightarrow> h' x = heap s x"
    by (rule sched_next_thread_slot [OF assms(1-9)]) (rule that)
  show thesis by (rule that [OF _ h'(2,3)]) (simp add: h'(1) k)
qed

lemma sched_next_process_eq:
  assumes "current_t s = Some c" and "layout_ok (sym s)" and "shape (heap s) (heads M) Q"
    and "Q Readyqueue = TaskList p # ps" and "p < 10"
    and "Q (ReadyThreads p) = ThreadList t # ts" and "t < 22" and "thread_p (threads s t) = Some p"
    and "saved_ok (sym s) t (register_esp (threads s t))"
  obtains h' where "sched_next_process_rr s = Some (switched c t p (s\<lparr>heap := h',
       tasks := (tasks s)(p := (tasks s p)\<lparr>task_state := ST_RUN\<rparr>),
       remaining_quantum_p := total_quantum (tasks s p),
       threads := (threads s)(t := (threads s t)\<lparr>thread_state := ST_RUN\<rparr>),
       remaining_quantum_t := quantum (threads s t)\<rparr>))"
    and "shape h' (heads M) (Q(Readyqueue := ps, ReadyThreads p := ts))"
    and "\<And>x. x \<notin> heads M \<Longrightarrow> \<not> queued (heads M) Q x \<Longrightarrow> h' x = heap s x"
proof -
  have a: "ReadyThreads p \<in> heads M" and r: "Readyqueue \<in> heads M" using assms(5) by simp_all
  have ne: "\<not> list_empty Readyqueue (heap s)"
    using shape_empty_iff [OF assms(3) r] assms(4) by simp
  have f: "list_first Readyqueue (heap s) = Some (TaskList p)"
    using lq.first_law [OF assms(3) r] assms(4) by simp
  obtain h1 where h1: "list_del (TaskList p) (heap s) = Some h1"
    "shape h1 (heads M) (Q(Readyqueue := ps))"
    "\<And>x. x \<notin> heads M \<Longrightarrow> \<not> queued (heads M) Q x \<Longrightarrow> h1 x = heap s x"
    using lq.del_law [OF assms(3) r, of "TaskList p"] assms(4) by auto
  have f1: "list_first (ReadyThreads p) h1 = Some (ThreadList t)"
    using lq.first_law [OF h1(2) a] assms(6) by simp
  obtain h2 where h2: "list_del (ThreadList t) h1 = Some h2"
    "shape h2 (heads M) (Q(Readyqueue := ps, ReadyThreads p := ts))"
    "\<And>x. x \<notin> heads M \<Longrightarrow> \<not> queued (heads M) (Q(Readyqueue := ps)) x \<Longrightarrow> h2 x = h1 x"
    using lq.del_law [OF h1(2) a, of "ThreadList t"] assms(6) by auto
  have fr: "h2 x = heap s x" if "x \<notin> heads M" "\<not> queued (heads M) Q x" for x
  proof -
    have "\<not> queued (heads M) (Q(Readyqueue := ps)) x"
      using assms(4) by (intro not_queued_shrink [OF that(2)]) auto
    with that h1(3) h2(3) show ?thesis by simp
  qed
  let ?s5 = "s\<lparr>heap := h2, tasks := (tasks s)(p := (tasks s p)\<lparr>task_state := ST_RUN\<rparr>),
       remaining_quantum_p := total_quantum (tasks s p),
       threads := (threads s)(t := (threads s t)\<lparr>thread_state := ST_RUN\<rparr>),
       remaining_quantum_t := quantum (threads s t)\<rparr>"
  have "task_switch t ?s5 = Some (switched c t p ?s5)"
    using assms(1,8,9) by (intro task_switch_eq) (simp_all add: current_t_def)
  moreover have "thread_at (sym s) (list_head_to_thread_struct (sym s) (ThreadList t)) = Some t"
    using assms(2,7) by (intro thread_of_node) simp_all
  moreover have "task_at (sym s) (list_head_to_task_struct (sym s) (TaskList p)) = Some p"
    using assms(2,5) by (intro task_of_node) simp_all
  ultimately have "sched_next_process_rr s = Some (switched c t p ?s5)"
    using ne f f1 h1(1) h2(1)
    by (simp add: sched_next_process_rr_def get_quantum_t_def get_quantum_p_def k_list_del_case)
  then show thesis using h2(2) fr by (rule that)
qed

section \<open>The invariant after a switch\<close>

text \<open>What a member of a queue has to keep for its queue to stay well-formed.\<close>

lemma member_ok_transfer:
  assumes "member_ok s Q c a n" and "sym s' = sym s"
    and "\<And>i. n = TaskList i \<Longrightarrow> task_state (tasks s' i) = task_state (tasks s i)
      \<and> task_dir (tasks s' i) = task_dir (tasks s i)"
    and "\<And>u. n = ThreadList u \<Longrightarrow> thread_p (threads s' u) = thread_p (threads s u)
      \<and> thread_state (threads s' u) = thread_state (threads s u)"
    and "\<And>u. n = ThreadList u \<Longrightarrow> u = c \<or> saved_ok (sym s) u (register_esp (threads s u)) \<Longrightarrow>
      u = c' \<or> saved_ok (sym s) u (register_esp (threads s' u))"
    and "\<And>i. n = TaskList i \<Longrightarrow> a = Readyqueue \<Longrightarrow> Q (ReadyThreads i) \<noteq> [] \<Longrightarrow> Q' (ReadyThreads i) \<noteq> []"
    and "\<And>i. n = TaskList i \<Longrightarrow> a = Freequeue \<Longrightarrow> Q (ReadyThreads i) = [] \<Longrightarrow> Q (BlockedThreads i) = [] \<Longrightarrow>
      Q' (ReadyThreads i) = [] \<and> Q' (BlockedThreads i) = []"
  shows "member_ok s' Q' c' a n"
proof (cases n)
  case (TaskList i)
  then show ?thesis using assms by (cases a) auto
next
  case (ThreadList u)
  have "waits s c i u \<Longrightarrow> waits s' c' i u" for i
    using assms(2) assms(4,5) [OF ThreadList] unfolding waits_def by auto
  then show ?thesis using assms(1,2) assms(4) [OF ThreadList] ThreadList by (cases a) auto
qed (use assms(1) in \<open>cases a; simp\<close>)+

lemma on_cpu_switched:
  "task_dir (tasks s p) = dir_addr (sym s) p \<Longrightarrow> on_cpu (switched c t p s) t p"
  by (simp add: on_cpu_def switched_def)

lemma switched_simps [simp]:
  "sym (switched c t p s) = sym s" "heap (switched c t p s) = heap s"
  "tasks (switched c t p s) = tasks s" "dir_pages (switched c t p s) = dir_pages s"
  "idle_task (switched c t p s) = idle_task s" "mutexes (switched c t p s) = mutexes s"
  "phys_mem (switched c t p s) = phys_mem s" "pagusr_table (switched c t p s) = pagusr_table s"
  "ram (switched c t p s) = ram s" "con (switched c t p s) = con s"
  "remaining_quantum_t (switched c t p s) = remaining_quantum_t s"
  "remaining_quantum_p (switched c t p s) = remaining_quantum_p s"
  "global_PID (switched c t p s) = global_PID s" "zeos_ticks (switched c t p s) = zeos_ticks s"
  "threads (switched c t p s) = (threads s)(c := (threads s c)\<lparr>register_esp := ebp s\<rparr>)"
  "esp (switched c t p s) = register_esp (threads s t)"
  by (simp_all add: switched_def)

lemma kmid_update:
  assumes "kmid s Q M c" and "sym s' = sym s" and "dir_pages s' = dir_pages s"
    and "idle_task s' = idle_task s" and "shape (heap s') (heads M') Q'" and "unmade_mutexes (heap s') M'"
    and "\<And>a n. a \<in> heads M' \<Longrightarrow> n \<in> set (Q' a) \<Longrightarrow> member_ok s' Q' c' a n"
    and "\<And>i. idle_task s = Some i \<Longrightarrow> thread_p (threads s i) = None \<Longrightarrow> \<not> queued (heads M) Q (ThreadList i) \<Longrightarrow>
      thread_p (threads s' i) = None \<and> \<not> queued (heads M') Q' (ThreadList i)"
    and "c' < NR_THREADS + 2"
  shows "kmid s' Q' M' c'"
proof -
  have "idle_ok s' Q' M'"
    using kmid_idle [OF assms(1)] assms(4,8) by (auto simp: idle_ok_def)
  then show ?thesis
    using assms kmid_layout [OF assms(1)] kmid_dirs [OF assms(1)] by (simp add: kmid_def dirs_ok_def)
qed

text \<open>
  Nodes \<open>N\<close> change their places in the queues, or enter or leave them, in a state in which nothing of the other
  queued threads and processes changes: only what is new has to be checked.
\<close>

lemma kmid_requeue:
  assumes "kmid s Q M c" and "sym s' = sym s" and "dir_pages s' = dir_pages s" and "idle_task s' = idle_task s"
    and "shape (heap s') (heads M) Q'"
    and "\<And>x. x \<notin> heads M \<Longrightarrow> x \<notin> N \<Longrightarrow> \<not> queued (heads M) Q x \<Longrightarrow> heap s' x = heap s x"
    and "\<And>m. MutexBlocked m \<notin> N"
    and "\<And>a n. a \<in> heads M \<Longrightarrow> n \<in> set (Q' a) \<Longrightarrow> n \<notin> N \<Longrightarrow> n \<in> set (Q a)"
    and "\<And>a n. a \<in> heads M \<Longrightarrow> n \<in> set (Q' a) \<Longrightarrow> n \<in> N \<Longrightarrow> member_ok s' Q' c a n"
    and "\<And>i. TaskList i \<notin> N \<Longrightarrow> queued (heads M) Q (TaskList i) \<Longrightarrow> task_state (tasks s' i) = task_state (tasks s i)
      \<and> task_dir (tasks s' i) = task_dir (tasks s i)"
    and "\<And>u. ThreadList u \<notin> N \<Longrightarrow> queued (heads M) Q (ThreadList u) \<Longrightarrow> thread_p (threads s' u) = thread_p (threads s u)
      \<and> thread_state (threads s' u) = thread_state (threads s u) \<and> register_esp (threads s' u) = register_esp (threads s u)"
    and "\<And>i. TaskList i \<in> set (Q' Readyqueue) \<Longrightarrow> TaskList i \<notin> N \<Longrightarrow> Q (ReadyThreads i) \<noteq> [] \<Longrightarrow> Q' (ReadyThreads i) \<noteq> []"
    and "\<And>i. TaskList i \<in> set (Q' Freequeue) \<Longrightarrow> TaskList i \<notin> N \<Longrightarrow> Q (ReadyThreads i) = [] \<Longrightarrow> Q (BlockedThreads i) = [] \<Longrightarrow>
      Q' (ReadyThreads i) = [] \<and> Q' (BlockedThreads i) = []"
    and "\<And>i. idle_task s = Some i \<Longrightarrow> thread_p (threads s i) = None \<Longrightarrow> \<not> queued (heads M) Q (ThreadList i) \<Longrightarrow>
      ThreadList i \<notin> N \<and> thread_p (threads s' i) = None"
  shows "kmid s' Q' M c"
proof (rule kmid_update [OF assms(1-5)])
  show "unmade_mutexes (heap s') M"
    using kmid_unmade [OF assms(1)] kmid_mutex_unqueued [OF assms(1)] assms(6,7) by (simp add: unmade_mutexes_def)
  show "member_ok s' Q' c a n" if a: "a \<in> heads M" and n: "n \<in> set (Q' a)" for a n
  proof (cases "n \<in> N")
    case True
    then show ?thesis by (rule assms(9) [OF a n])
  next
    case False
    have nq: "n \<in> set (Q a)" by (rule assms(8) [OF a n False])
    have qn: "queued (heads M) Q n" by (rule queuedI [of a "heads M" n Q, OF a nq])
    show ?thesis
      by (rule member_ok_transfer [OF kmid_member [OF assms(1) a nq]])
        (use False qn n assms(2) assms(10-13) in auto)
  qed
  show "thread_p (threads s' i) = None \<and> \<not> queued (heads M) Q' (ThreadList i)"
    if "idle_task s = Some i" "thread_p (threads s i) = None" "\<not> queued (heads M) Q (ThreadList i)" for i
    using assms(14) [OF that] that(3) assms(8) by (auto simp: queued_def)
  show "c < NR_THREADS + 2" by (rule kmid_c [OF assms(1)])
qed

text \<open>Switching to the next thread, of the same process or another: the queues only lose entries, and the
  new thread and its process are queued nowhere.\<close>

lemma switched_kinv:
  assumes "kmid s Q M c" and "in_kernel s c" and "shape h' (heads M) Q'" and "\<And>a. set (Q' a) \<subseteq> set (Q a)"
    and "\<And>x. x \<notin> heads M \<Longrightarrow> \<not> queued (heads M) Q x \<Longrightarrow> h' x = heap s x"
    and "waits s c p t" and "\<not> queued (heads M) Q' (ThreadList t)"
    and "p < 10" and "task_dir (tasks s p) = dir_addr (sym s) p" and "\<not> queued (heads M) Q' (TaskList p)"
    and "\<And>i. i \<noteq> p \<Longrightarrow> Q (ReadyThreads i) \<noteq> [] \<Longrightarrow> Q' (ReadyThreads i) \<noteq> []"
  shows "kinv (switched c t p (s\<lparr>heap := h', tasks := (tasks s)(p := (tasks s p)\<lparr>task_state := ST_RUN\<rparr>),
      remaining_quantum_p := qp, threads := (threads s)(t := (threads s t)\<lparr>thread_state := ST_RUN\<rparr>),
      remaining_quantum_t := qt\<rparr>)) Q' M t p" (is "kinv ?s Q' M t p")
proof -
  have saved: "saved_ok (sym s) c (ebp s)" using assms(2) by (simp add: in_kernel_def)
  have members: "member_ok ?s Q' t a n" if a: "a \<in> heads M" and n: "n \<in> set (Q' a)" for a n
  proof -
    have nq: "n \<in> set (Q a)" using n assms(4) by blast
    have qn: "queued (heads M) Q' n" by (rule queuedI [of a "heads M" n Q', OF a n])
    have em: "Q a' = [] \<Longrightarrow> Q' a' = []" for a' using assms(4) [of a'] by auto
    have "Q' (ReadyThreads i) \<noteq> []" if "n = TaskList i" "Q (ReadyThreads i) \<noteq> []" for i
      using that qn assms(10) assms(11) [of i] by (cases "i = p") auto
    then show ?thesis
      by (intro member_ok_transfer [OF kmid_member [OF assms(1) a nq]]) (use qn assms(7,10) saved em in auto)
  qed
  have "\<not> queued (heads M) Q' x" if "\<not> queued (heads M) Q x" for x
    using that assms(4) by (force simp: queued_def)
  then have "kmid ?s Q' M t"
    using assms(3,6) members unmade_frame [OF assms(1), of "ThreadList t" h'] assms(5)
    by (intro kmid_update [OF assms(1)]) (auto simp: waits_def)
  moreover have "proc_running ?s Q' M p" using assms(8,9,10) by (simp add: proc_running_def)
  moreover have "thread_running ?s Q' M t p"
    using assms(6,7) by (auto simp: thread_running_def waits_def)
  moreover have "on_cpu ?s t p" using assms(9) by (intro on_cpu_switched) simp
  ultimately show ?thesis by (simp add: kinv_def)
qed

lemma sched_next_thread_kinv:
  assumes "kmid s Q M c" and "in_kernel s c" and "thread_p (threads s c) = Some p"
    and "proc_running s Q M p" and "Q (ReadyThreads p) = ThreadList t # ts"
    and "t = c \<Longrightarrow> saved_ok (sym s) t (register_esp (threads s t))"
  obtains h' where "sched_next_thread_rr s = Some (switched c t p (s\<lparr>heap := h',
       threads := (threads s)(t := (threads s t)\<lparr>thread_state := ST_RUN\<rparr>),
       remaining_quantum_t := quantum (threads s t)\<rparr>))"
    and "kinv (switched c t p (s\<lparr>heap := h',
       threads := (threads s)(t := (threads s t)\<lparr>thread_state := ST_RUN\<rparr>),
       remaining_quantum_t := quantum (threads s t)\<rparr>)) (Q(ReadyThreads p := ts)) M t p"
proof -
  let ?Q = "Q(ReadyThreads p := ts)"
  have p: "p < 10" "task_dir (tasks s p) = dir_addr (sym s) p" "\<not> queued (heads M) Q (TaskList p)"
    "task_state (tasks s p) = ST_RUN" and cur: "current_t s = Some c"
    using assms(2,4) by (simp_all add: proc_running_def in_kernel_def)
  have t: "waits s c p t" "thread_state (threads s t) = ST_READY"
    using kmid_member [OF assms(1), of "ReadyThreads p" "ThreadList t"] assms(5) p(1) by auto
  have tq: "\<not> queued (heads M) ?Q (ThreadList t)"
    using p(1) assms(5) by (intro shape_tail_unqueued [OF kmid_shape [OF assms(1)]]) simp_all
  have pq: "\<not> queued (heads M) ?Q (TaskList p)" using assms(5) by (intro not_queued_shrink [OF p(3)]) auto
  obtain h' where h': "sched_next_thread_rr s = Some (switched c t p (s\<lparr>heap := h',
       threads := (threads s)(t := (threads s t)\<lparr>thread_state := ST_RUN\<rparr>),
       remaining_quantum_t := quantum (threads s t)\<rparr>))" "shape h' (heads M) ?Q"
    "\<And>x. x \<notin> heads M \<Longrightarrow> \<not> queued (heads M) Q x \<Longrightarrow> h' x = heap s x"
    using sched_next_thread_eq [OF cur(1) assms(3) p(1) kmid_layout [OF assms(1)] kmid_shape [OF assms(1)] assms(5)]
      t assms(6) unfolding waits_def by auto
  have same: "tasks s = (tasks s)(p := (tasks s p)\<lparr>task_state := ST_RUN\<rparr>)" using p(4) by auto
  have "kinv (switched c t p (s\<lparr>heap := h', tasks := (tasks s)(p := (tasks s p)\<lparr>task_state := ST_RUN\<rparr>),
      remaining_quantum_p := remaining_quantum_p s, threads := (threads s)(t := (threads s t)\<lparr>thread_state := ST_RUN\<rparr>),
      remaining_quantum_t := quantum (threads s t)\<rparr>)) ?Q M t p"
    using assms(5) by (intro switched_kinv [OF assms(1,2) h'(2) _ h'(3) t(1) tq p(1,2) pq]) auto
  then show thesis using h'(1) by (intro that) (simp_all add: same [symmetric])
qed

lemma sched_next_process_kinv:
  assumes "kmid s Q M c" and "in_kernel s c"
    and "Q Readyqueue = TaskList p # ps" and "Q (ReadyThreads p) = ThreadList t # ts" and "t \<noteq> c"
  obtains h' where "sched_next_process_rr s = Some (switched c t p (s\<lparr>heap := h',
       tasks := (tasks s)(p := (tasks s p)\<lparr>task_state := ST_RUN\<rparr>),
       remaining_quantum_p := total_quantum (tasks s p),
       threads := (threads s)(t := (threads s t)\<lparr>thread_state := ST_RUN\<rparr>),
       remaining_quantum_t := quantum (threads s t)\<rparr>))"
    and "kinv (switched c t p (s\<lparr>heap := h',
       tasks := (tasks s)(p := (tasks s p)\<lparr>task_state := ST_RUN\<rparr>),
       remaining_quantum_p := total_quantum (tasks s p),
       threads := (threads s)(t := (threads s t)\<lparr>thread_state := ST_RUN\<rparr>),
       remaining_quantum_t := quantum (threads s t)\<rparr>)) (Q(Readyqueue := ps, ReadyThreads p := ts)) M t p"
proof -
  let ?Q = "Q(Readyqueue := ps, ReadyThreads p := ts)"
  note sh = kmid_shape [OF assms(1)]
  have cur: "current_t s = Some c" using assms(2) by (simp add: in_kernel_def)
  have p: "p < 10" "task_dir (tasks s p) = dir_addr (sym s) p"
    using kmid_member [OF assms(1), of Readyqueue "TaskList p"] assms(3) by auto
  have t: "waits s c p t" "thread_state (threads s t) = ST_READY"
    using kmid_member [OF assms(1), of "ReadyThreads p" "ThreadList t"] assms(4) p(1) by auto
  have pq: "\<not> queued (heads M) ?Q (TaskList p)"
    using assms(3,4) by (intro not_queued_shrink [OF shape_tail_unqueued [OF sh]]) auto
  have sw: "?Q = (Q(ReadyThreads p := ts))(Readyqueue := ps)" by auto
  have tq: "\<not> queued (heads M) ?Q (ThreadList t)"
    unfolding sw using p(1) assms(3,4) by (intro not_queued_shrink [OF shape_tail_unqueued [OF sh]]) auto
  obtain h' where h': "sched_next_process_rr s = Some (switched c t p (s\<lparr>heap := h',
       tasks := (tasks s)(p := (tasks s p)\<lparr>task_state := ST_RUN\<rparr>),
       remaining_quantum_p := total_quantum (tasks s p),
       threads := (threads s)(t := (threads s t)\<lparr>thread_state := ST_RUN\<rparr>),
       remaining_quantum_t := quantum (threads s t)\<rparr>))" "shape h' (heads M) ?Q"
    "\<And>x. x \<notin> heads M \<Longrightarrow> \<not> queued (heads M) Q x \<Longrightarrow> h' x = heap s x"
    using sched_next_process_eq [OF cur kmid_layout [OF assms(1)] sh assms(3) p(1) assms(4)]
      t(1) assms(5) unfolding waits_def by auto
  show thesis
    by (rule that [OF h'(1)]) (rule switched_kinv [OF assms(1,2) h'(2) _ h'(3) t(1) tq p pq], use assms(3,4) in auto)
qed

section \<open>Putting the running thread back\<close>

lemma kinvD:
  assumes "kinv s Q M c cp"
  shows kinv_kmid: "kmid s Q M c" and kinv_proc: "proc_running s Q M cp"
    and kinv_thread: "thread_running s Q M c cp" and kinv_cpu: "on_cpu s c cp"
  using assms by (simp_all add: kinv_def)

lemma kinv_current:
  "kinv s Q M c cp \<Longrightarrow> in_kernel s c \<Longrightarrow> current_t s = Some c \<and> current_p s = Some cp"
  by (simp add: kinv_def thread_running_def in_kernel_def current_p_def)

text \<open>The running thread joins a queue of its process: \<open>ready_threads\<close> or \<open>blocked_threads\<close>.\<close>

lemma requeue_thread:
  assumes "kinv s Q M c cp" and "in_kernel s c" and "q = ReadyThreads cp \<or> q = BlockedThreads cp"
  obtains h' s1 where "update_thread_state_rr c (Some q) s = Some s1"
    and "s1 = s\<lparr>heap := h', threads := (threads s)(c := (threads s c)\<lparr>thread_state :=
         (if q \<noteq> ReadyThreads cp then ST_BLOCKED else ST_READY)\<rparr>)\<rparr>"
    and "kmid s1 (Q(q := Q q @ [ThreadList c])) M c"
    and "proc_running s1 (Q(q := Q q @ [ThreadList c])) M cp"
proof -
  let ?Q = "Q(q := Q q @ [ThreadList c])"
  note km = kinv_kmid [OF assms(1)]
  have cp: "cp < 10" "\<not> queued (heads M) Q (TaskList cp)"
    using kinv_proc [OF assms(1)] by (simp_all add: proc_running_def)
  have c: "thread_p (threads s c) = Some cp" "thread_state (threads s c) = ST_RUN"
    "\<not> queued (heads M) Q (ThreadList c)"
    using kinv_thread [OF assms(1)] by (simp_all add: thread_running_def)
  have q: "q \<in> heads M" using assms(3) cp(1) by auto
  obtain h' where h': "update_thread_state_rr c (Some q) s = Some (s\<lparr>heap := h',
       threads := (threads s)(c := (threads s c)\<lparr>thread_state :=
         (if q \<noteq> ReadyThreads cp then ST_BLOCKED else ST_READY)\<rparr>)\<rparr>)"
    "shape h' (heads M) ?Q"
    "\<And>x. x \<notin> heads M \<Longrightarrow> x \<noteq> ThreadList c \<Longrightarrow> \<not> queued (heads M) Q x \<Longrightarrow> h' x = heap s x"
    using update_thread_state_run [OF c(2) conjunct2 [OF kinv_current [OF assms(1,2)]]
        kmid_shape [OF km] q _ c(3)] by auto
  let ?s = "s\<lparr>heap := h', threads := (threads s)(c := (threads s c)\<lparr>thread_state :=
         (if q \<noteq> ReadyThreads cp then ST_BLOCKED else ST_READY)\<rparr>)\<rparr>"
  have c22: "c < 22" and R: "q \<noteq> Readyqueue" "q \<noteq> Freequeue" using kmid_c [OF km] assms(3) by auto
  have "kmid ?s ?Q M c"
  proof (rule kmid_requeue [where N = "{ThreadList c}", OF km])
    show "member_ok ?s ?Q c a n" if "a \<in> heads M" "n \<in> set (?Q a)" "n \<in> {ThreadList c}" for a n
    proof -
      have "a = q" using that c(3) queuedI [of a "heads M" n Q] by (auto split: if_splits)
      then show ?thesis using that(3) assms(3) c c22 by (auto simp: waits_def)
    qed
    show "?Q (ReadyThreads i) = [] \<and> ?Q (BlockedThreads i) = []"
      if "TaskList i \<in> set (?Q Freequeue)" "Q (ReadyThreads i) = []" "Q (BlockedThreads i) = []" for i
      using that R assms(3) cp queuedI [of Freequeue "heads M" "TaskList i" Q] by auto
  qed (use h'(2,3) c in \<open>auto split: if_splits\<close>)
  moreover have "proc_running ?s ?Q M cp"
    using kinv_proc [OF assms(1)] by (simp add: proc_running_def not_queued_append)
  ultimately show thesis using h'(1) by (intro that [OF _ refl]) simp_all
qed

text \<open>The running process and its running thread both give up the processor.\<close>

lemma requeued_kmid:
  assumes "kinv s Q M c cp"
    and "shape h (heads M) (Q(Readyqueue := Q Readyqueue @ [TaskList cp],
           ReadyThreads cp := Q (ReadyThreads cp) @ [ThreadList c]))" (is "shape _ _ ?Q")
    and "\<And>x. x \<notin> heads M \<Longrightarrow> x \<noteq> TaskList cp \<Longrightarrow> x \<noteq> ThreadList c \<Longrightarrow> \<not> queued (heads M) Q x \<Longrightarrow> h x = heap s x"
  shows "kmid (s\<lparr>heap := h, tasks := (tasks s)(cp := (tasks s cp)\<lparr>task_state := ST_READY\<rparr>),
       threads := (threads s)(c := (threads s c)\<lparr>thread_state := ST_READY\<rparr>)\<rparr>) ?Q M c" (is "kmid ?s _ _ _")
proof -
  note km = kinv_kmid [OF assms(1)]
  have cp: "cp < 10" "task_state (tasks s cp) = ST_RUN" "task_dir (tasks s cp) = dir_addr (sym s) cp"
    "\<not> queued (heads M) Q (TaskList cp)"
    using kinv_proc [OF assms(1)] by (simp_all add: proc_running_def)
  have c: "thread_p (threads s c) = Some cp" "\<not> queued (heads M) Q (ThreadList c)"
    using kinv_thread [OF assms(1)] by (simp_all add: thread_running_def)
  have c22: "c < 22" using kmid_c [OF km] by simp
  show ?thesis
  proof (rule kmid_requeue [where N = "{TaskList cp, ThreadList c}", OF km])
    show "heap ?s x = heap s x" if "x \<notin> heads M" "x \<notin> {TaskList cp, ThreadList c}" "\<not> queued (heads M) Q x" for x
      using that assms(3) by simp
    show "member_ok ?s ?Q c a n" if "a \<in> heads M" "n \<in> set (?Q a)" "n \<in> {TaskList cp, ThreadList c}" for a n
    proof -
      have "a = Readyqueue \<and> n = TaskList cp \<or> a = ReadyThreads cp \<and> n = ThreadList c"
        using that cp(4) c(2) queuedI [of a "heads M" n Q] by (auto split: if_splits)
      then show ?thesis using cp c c22 by (auto simp: waits_def)
    qed
    show "?Q (ReadyThreads i) = [] \<and> ?Q (BlockedThreads i) = []"
      if "TaskList i \<in> set (?Q Freequeue)" "TaskList i \<notin> {TaskList cp, ThreadList c}" "Q (ReadyThreads i) = []" "Q (BlockedThreads i) = []" for i
      using that by auto
  qed (use assms(2) c in \<open>auto split: if_splits\<close>)
qed

lemma requeue_process:
  assumes "kinv s Q M c cp" and "in_kernel s c"
  obtains h' s1 s2 where "update_process_state_rr cp (Some Readyqueue) s = Some s1"
    and "current_t s1 = Some c" and "current_p s1 = Some cp"
    and "update_thread_state_rr c (Some (ReadyThreads cp)) s1 = Some s2"
    and "s2 = s\<lparr>heap := h', tasks := (tasks s)(cp := (tasks s cp)\<lparr>task_state := ST_READY\<rparr>),
         threads := (threads s)(c := (threads s c)\<lparr>thread_state := ST_READY\<rparr>)\<rparr>"
    and "kmid s2 (Q(Readyqueue := Q Readyqueue @ [TaskList cp],
           ReadyThreads cp := Q (ReadyThreads cp) @ [ThreadList c])) M c"
proof -
  let ?Q1 = "Q(Readyqueue := Q Readyqueue @ [TaskList cp])"
  let ?Q = "?Q1(ReadyThreads cp := Q (ReadyThreads cp) @ [ThreadList c])"
  note km = kinv_kmid [OF assms(1)]
  have cp: "cp < 10" "task_state (tasks s cp) = ST_RUN" "task_dir (tasks s cp) = dir_addr (sym s) cp"
    "\<not> queued (heads M) Q (TaskList cp)"
    using kinv_proc [OF assms(1)] by (simp_all add: proc_running_def)
  have c: "thread_p (threads s c) = Some cp" "thread_state (threads s c) = ST_RUN"
    "\<not> queued (heads M) Q (ThreadList c)"
    using kinv_thread [OF assms(1)] by (simp_all add: thread_running_def)
  obtain h1 where h1: "update_process_state_rr cp (Some Readyqueue) s = Some (s\<lparr>heap := h1,
       tasks := (tasks s)(cp := (tasks s cp)\<lparr>task_state := ST_READY\<rparr>)\<rparr>)"
    "shape h1 (heads M) ?Q1"
    "\<And>x. x \<notin> heads M \<Longrightarrow> x \<noteq> TaskList cp \<Longrightarrow> \<not> queued (heads M) Q x \<Longrightarrow> h1 x = heap s x"
    using update_process_state_run [OF cp(2) kmid_shape [OF km] _ _ cp(4)] by auto
  let ?s1 = "s\<lparr>heap := h1, tasks := (tasks s)(cp := (tasks s cp)\<lparr>task_state := ST_READY\<rparr>)\<rparr>"
  have cur: "current_t ?s1 = Some c" "current_p ?s1 = Some cp"
    using kinv_current [OF assms] c(1) by (simp_all add: current_p_def current_t_def)
  have cq1: "\<not> queued (heads M) ?Q1 (ThreadList c)" using c(3) by (simp add: not_queued_append)
  obtain h2 where h2: "update_thread_state_rr c (Some (ReadyThreads cp)) ?s1 = Some (?s1\<lparr>heap := h2,
       threads := (threads s)(c := (threads s c)\<lparr>thread_state := ST_READY\<rparr>)\<rparr>)"
    "shape h2 (heads M) ?Q"
    "\<And>x. x \<notin> heads M \<Longrightarrow> x \<noteq> ThreadList c \<Longrightarrow> \<not> queued (heads M) ?Q1 x \<Longrightarrow> h2 x = h1 x"
    using update_thread_state_run [of ?s1 c cp "heads M" ?Q1 "ReadyThreads cp"] c(2) cur(2) h1(2) cq1 cp(1)
    by auto
  have fr: "h2 x = heap s x" if "x \<notin> heads M" "x \<noteq> TaskList cp" "x \<noteq> ThreadList c" "\<not> queued (heads M) Q x" for x
    using that h1(3) h2(3) not_queued_append [OF that(4,2)] by simp
  from requeued_kmid [OF assms(1) h2(2) fr] h1(1) h2(1) cur show thesis
    by (intro that [OF h1(1) cur _ refl]) simp_all
qed

section \<open>The two ways of giving up the processor\<close>

text \<open>What a switch does not touch.\<close>

definition same_rest :: "kernel \<Rightarrow> kernel \<Rightarrow> bool" where
  "same_rest s s' \<longleftrightarrow> sym s' = sym s \<and> mutexes s' = mutexes s \<and> phys_mem s' = phys_mem s
     \<and> dir_pages s' = dir_pages s \<and> pagusr_table s' = pagusr_table s \<and> ram s' = ram s \<and> con s' = con s
     \<and> global_PID s' = global_PID s \<and> zeos_ticks s' = zeos_ticks s"

lemma same_rest_refl [simp]: "same_rest s s"
  by (simp add: same_rest_def)

lemma same_rest_trans: "same_rest s s1 \<Longrightarrow> same_rest s1 s2 \<Longrightarrow> same_rest s s2"
  by (simp add: same_rest_def)

text \<open>The threads after a switch from \<open>c\<close> to \<open>t\<close>.\<close>

definition handed_over :: "nat \<Rightarrow> nat \<Rightarrow> u32 \<Rightarrow> (nat \<Rightarrow> thread_struct) \<Rightarrow> nat \<Rightarrow> thread_struct" where
  "handed_over c t e th =
     (let th1 = th(t := (th t)\<lparr>thread_state := ST_RUN\<rparr>) in th1(c := (th1 c)\<lparr>register_esp := e\<rparr>))"

lemma handed_over_fields [simp]:
  "TID (handed_over c t e th x) = TID (th x)" "thread_p (handed_over c t e th x) = thread_p (th x)"
  "thread_dir (handed_over c t e th x) = thread_dir (th x)" "quantum (handed_over c t e th x) = quantum (th x)"
  "blocked_by (handed_over c t e th x) = blocked_by (th x)" "kstack (handed_over c t e th x) = kstack (th x)"
  "register_esp (handed_over c t e th x) = (if x = c then e else register_esp (th x))"
  "thread_state (handed_over c t e th x) = (if x = t then ST_RUN else thread_state (th x))"
  by (simp_all add: handed_over_def Let_def)

lemma next_thread_step:
  assumes "kmid s Q M c" and "in_kernel s c" and "thread_p (threads s c) = Some p"
    and "proc_running s Q M p" and "Q (ReadyThreads p) \<noteq> []"
    and "hd (Q (ReadyThreads p)) = ThreadList c \<Longrightarrow> saved_ok (sym s) c (register_esp (threads s c))"
  obtains s' t ts where "sched_next_thread_rr s = Some s'" and "Q (ReadyThreads p) = ThreadList t # ts"
    and "kinv s' (Q(ReadyThreads p := ts)) M t p" and "remaining_quantum_p s' = remaining_quantum_p s"
    and "remaining_quantum_t s' = quantum (threads s t)" and "same_rest s s'"
    and "tasks s' = tasks s" and "threads s' = handed_over c t (ebp s) (threads s)"
    and "esp s' = register_esp (threads s t)"
proof -
  have p: "p < 10" using assms(4) by (simp add: proc_running_def)
  obtain n ts where n: "Q (ReadyThreads p) = n # ts" using assms(5) by (cases "Q (ReadyThreads p)") auto
  then obtain t where t: "n = ThreadList t"
    using kmid_ready_node [OF assms(1) p, of n] by auto
  have q: "Q (ReadyThreads p) = ThreadList t # ts" using n t by simp
  have same: "t = c \<Longrightarrow> saved_ok (sym s) t (register_esp (threads s t))" using assms(6) q by simp
  obtain h where h: "sched_next_thread_rr s = Some (switched c t p (s\<lparr>heap := h,
       threads := (threads s)(t := (threads s t)\<lparr>thread_state := ST_RUN\<rparr>),
       remaining_quantum_t := quantum (threads s t)\<rparr>))"
    "kinv (switched c t p (s\<lparr>heap := h,
       threads := (threads s)(t := (threads s t)\<lparr>thread_state := ST_RUN\<rparr>),
       remaining_quantum_t := quantum (threads s t)\<rparr>)) (Q(ReadyThreads p := ts)) M t p"
    by (rule sched_next_thread_kinv [OF assms(1-4) q same])
  show thesis by (rule that [OF h(1) q h(2)]) (simp_all add: same_rest_def handed_over_def Let_def)
qed

lemma next_process_step:
  assumes "kmid s Q M c" and "in_kernel s c" and "Q Readyqueue \<noteq> []"
    and "\<And>p. hd (Q Readyqueue) = TaskList p \<Longrightarrow> hd (Q (ReadyThreads p)) \<noteq> ThreadList c"
  obtains s' p ps t ts where "sched_next_process_rr s = Some s'" and "Q Readyqueue = TaskList p # ps"
    and "Q (ReadyThreads p) = ThreadList t # ts" and "p < 10"
    and "kinv s' (Q(Readyqueue := ps, ReadyThreads p := ts)) M t p"
    and "remaining_quantum_p s' = total_quantum (tasks s p)"
    and "remaining_quantum_t s' = quantum (threads s t)" and "same_rest s s'"
    and "tasks s' = (tasks s)(p := (tasks s p)\<lparr>task_state := ST_RUN\<rparr>)"
    and "threads s' = handed_over c t (ebp s) (threads s)"
proof -
  obtain n ps where n: "Q Readyqueue = n # ps" using assms(3) by (cases "Q Readyqueue") auto
  then obtain p where p: "n = TaskList p" "p < 10" "Q (ReadyThreads p) \<noteq> []"
    using kmid_ready_proc [OF assms(1), of n] by auto
  obtain m ts where m: "Q (ReadyThreads p) = m # ts" using p(3) by (cases "Q (ReadyThreads p)") auto
  then obtain t where t: "m = ThreadList t" using kmid_ready_node [OF assms(1) p(2), of m] by auto
  have q: "Q Readyqueue = TaskList p # ps" "Q (ReadyThreads p) = ThreadList t # ts" using n p(1) m t by simp_all
  have tc: "t \<noteq> c" using assms(4) [of p] q by auto
  obtain h where h: "sched_next_process_rr s = Some (switched c t p (s\<lparr>heap := h,
       tasks := (tasks s)(p := (tasks s p)\<lparr>task_state := ST_RUN\<rparr>),
       remaining_quantum_p := total_quantum (tasks s p),
       threads := (threads s)(t := (threads s t)\<lparr>thread_state := ST_RUN\<rparr>),
       remaining_quantum_t := quantum (threads s t)\<rparr>))"
    "kinv (switched c t p (s\<lparr>heap := h,
       tasks := (tasks s)(p := (tasks s p)\<lparr>task_state := ST_RUN\<rparr>),
       remaining_quantum_p := total_quantum (tasks s p),
       threads := (threads s)(t := (threads s t)\<lparr>thread_state := ST_RUN\<rparr>),
       remaining_quantum_t := quantum (threads s t)\<rparr>)) (Q(Readyqueue := ps, ReadyThreads p := ts)) M t p"
    by (rule sched_next_process_kinv [OF assms(1,2) q tc])
  show thesis by (rule that [OF h(1) q p(2) h(2)]) (simp_all add: same_rest_def handed_over_def Let_def)
qed

end
