(* ===== verification/Boot.thy ===== *)
theory Boot
  imports SchedProofs
begin

text \<open>
  Start-up: the zeroed globals of the kernel image, the page tables and directories
  (\<open>init_mm\<close> in \<open>mm.c\<close>), the queues and the first two threads (\<open>sched.c\<close>), in the order
  \<open>main\<close> of \<open>system.c\<close> runs them; \<open>boot_kinv\<close> shows that they establish the invariant.
\<close>

section \<open>The image\<close>

definition task0 :: task_struct where
  "task0 = \<lparr>PID = 0, task_dir = 0, task_state = ST_RUN, total_quantum = 0, nthread = 0\<rparr>"

definition thread0 :: thread_struct where
  "thread0 = \<lparr>TID = 0, thread_dir = 0, thread_p = None, register_esp = 0, thread_state = ST_RUN,
     quantum = 0, blocked_by = 0, kstack = (\<lambda>_. 0)\<rparr>"

text \<open>
  The globals before \<open>main\<close>: zero, but for \<open>global_PID\<close> and the console. The memory
  contents and the registers are whatever the boot loader leaves.
\<close>

definition kernel0 :: "symbols \<Rightarrow> (nat \<Rightarrow> nat \<Rightarrow> u8) \<Rightarrow> (u32 \<Rightarrow> u16) \<Rightarrow> u32 \<Rightarrow> kernel" where
  "kernel0 \<sigma> mem video sp = \<lparr>sym = \<sigma>, heap = (\<lambda>_. \<lparr>lh_next = None, lh_prev = None\<rparr>),
     tasks = (\<lambda>_. task0), threads = (\<lambda>_. thread0), mutexes = (\<lambda>_. \<lparr>locked = 0, owner = 0\<rparr>),
     phys_mem = (\<lambda>_. 0), dir_pages = (\<lambda>_ _. 0), pagusr_table = (\<lambda>_ _. 0), ram = mem,
     remaining_quantum_t = 0, remaining_quantum_p = 0, idle_task = None, global_PID = 1000,
     zeos_ticks = 0, con = console_init video, tss_esp0 = 0, msr_esp = 0, cr3 = 0,
     esp = sp, ebp = sp\<rparr>"

section \<open>Paging\<close>

definition PH_PAGE :: "u32 \<Rightarrow> nat" where
  "PH_PAGE x = unat (drop_bit 12 x)"

text \<open>\<open>&protected_tasks[i]\<close>; \<open>task\<close> is \<open>&protected_tasks[1]\<close>.\<close>

definition protected_task_addr :: "symbols \<Rightarrow> nat \<Rightarrow> u32" where
  "protected_task_addr \<sigma> i = elem_addr (task_base \<sigma> - 4096) i"

definition kernel_page :: "nat \<Rightarrow> page_table \<Rightarrow> page_table" where
  "kernel_page i PT =
     (let p1 = PT(i := set_pbase_addr (of_nat i) (PT i));
          p2 = p1(i := set_rw True (p1 i))
      in p2(i := set_present True (p2 i)))"

definition init_table :: "symbols \<Rightarrow> page_table \<Rightarrow> page_table" where
  "init_table \<sigma> PT =
     (let p1 = for_each 0 TOTAL_PAGES (\<lambda>i PT. PT(i := 0)) PT;
          p2 = for_each 1 NUM_PAG_KERNEL kernel_page p1;
          lo = PH_PAGE (protected_task_addr \<sigma> 0); hi = PH_PAGE (protected_task_addr \<sigma> 11);
          p3 = p2(lo := set_present False (p2 lo))
      in p3(hi := set_present False (p3 hi)))"

definition init_table_pages :: "kernel \<Rightarrow> kernel" where
  "init_table_pages s = for_each 0 NR_TASKS (\<lambda>j s. upd_table j (init_table (sym s)) s) s"

definition init_dir_pages :: "kernel \<Rightarrow> kernel" where
  "init_dir_pages s = for_each 0 NR_TASKS
     (\<lambda>i s. s\<lparr>dir_pages := (dir_pages s)(i := set_ss_pag (dir_pages s i) 0
         (drop_bit 12 (elem_addr (pagusr_base (sym s)) i)))\<rparr>) s"

definition init_mm :: "kernel \<Rightarrow> kernel" where
  "init_mm s =
     (let s1 = init_table_pages s;
          s2 = s1\<lparr>phys_mem := init_frames (phys_mem s1)\<rparr>;
          s3 = init_dir_pages s2;
          s4 = allocate_DIR 0 s3
      in set_cr3 (get_DIR s4 0) s4)"

text \<open>The loops below do not check \<open>alloc_frame\<close> for -1.\<close>

definition map_new_page :: "(page_table \<Rightarrow> nat \<Rightarrow> u32 \<Rightarrow> page_table) \<Rightarrow> nat \<Rightarrow> nat \<Rightarrow> kernel \<Rightarrow> kernel" where
  "map_new_page set_pag PT page s =
     (let (new_ph_pag, m) = alloc_frame (phys_mem s)
      in upd_table PT (\<lambda>T. set_pag T page new_ph_pag) (s\<lparr>phys_mem := m\<rparr>))"

definition set_user_pages :: "nat \<Rightarrow> kernel \<Rightarrow> kernel option" where
  "set_user_pages t s = do {
     PT \<leftarrow> get_PT s t;
     let s1 = for_each 0 NUM_PAG_CODE (\<lambda>pag. map_new_page set_code_pag PT (PAG_LOG_INIT_CODE + pag)) s;
     Some (for_each 0 NUM_PAG_DATA (\<lambda>pag. map_new_page set_ss_pag PT (PAG_LOG_INIT_DATA + pag)) s1)
   }"

definition free_page :: "nat \<Rightarrow> nat \<Rightarrow> kernel \<Rightarrow> kernel" where
  "free_page PT page s =
     (let s1 = s\<lparr>phys_mem := free_frame (get_frame (pagusr_table s PT) page) (phys_mem s)\<rparr>
      in upd_table PT (\<lambda>T. del_ss_pag T page) s1)"

definition free_user_pages :: "nat \<Rightarrow> kernel \<Rightarrow> kernel option" where
  "free_user_pages t s = do {
     PT \<leftarrow> get_PT s t;
     Some (for_each 0 NUM_PAG_DATA (\<lambda>pag. free_page PT (PAG_LOG_INIT_DATA + pag)) s)
   }"

section \<open>Queues and the first threads\<close>

definition init_freequeue :: "kernel \<Rightarrow> kernel option" where
  "init_freequeue s = for_loop 0 NR_TASKS
     (\<lambda>i s. let s1 = upd_task i (\<lambda>t. t\<lparr>PID := -1\<rparr>) s;
                s2 = k_INIT_LIST_HEAD (ReadyThreads i) s1;
                s3 = k_INIT_LIST_HEAD (BlockedThreads i) s2
            in k_list_add_tail (TaskList i) Freequeue s3)
     (k_INIT_LIST_HEAD Freequeue s)"

text \<open>The loop runs to \<open>NR_TASKS\<close>: the other threads never enter the queue.\<close>

definition init_freethreadqueue :: "kernel \<Rightarrow> kernel option" where
  "init_freethreadqueue s = for_loop 0 NR_TASKS
     (\<lambda>i s. k_list_add_tail (ThreadList i) Free_threadqueue (upd_thread i (\<lambda>t. t\<lparr>TID := -1\<rparr>) s))
     (k_INIT_LIST_HEAD Free_threadqueue s)"

definition init_sched :: "kernel \<Rightarrow> kernel option" where
  "init_sched s = do {
     s1 \<leftarrow> init_freequeue s;
     init_freethreadqueue (k_INIT_LIST_HEAD Readyqueue s1)
   }"

definition init_idle :: "kernel \<Rightarrow> kernel option" where
  "init_idle s = do {
     l \<leftarrow> list_first Freequeue (heap s);
     s1 \<leftarrow> k_list_del l s;
     c \<leftarrow> task_at (sym s1) (list_head_to_task_struct (sym s1) l);
     lh_t \<leftarrow> list_first Free_threadqueue (heap s1);
     s2 \<leftarrow> k_list_del lh_t s1;
     ts \<leftarrow> thread_at (sym s2) (list_head_to_thread_struct (sym s2) lh_t);
     let s3 = upd_task c (\<lambda>t. t\<lparr>PID := 0\<rparr>) s2;
     let s4 = upd_thread ts (\<lambda>t. t\<lparr>TID := 0\<rparr>) s3;
     let s5 = upd_task c (\<lambda>t. t\<lparr>total_quantum := DEFAULT_QUANTUM_P\<rparr>) s4;
     let s6 = allocate_DIR c s5;
     let s7 = upd_thread ts (\<lambda>t. t\<lparr>kstack := (kstack t)(KERNEL_STACK_SIZE - 1 := cpu_idle_addr (sym s6),
         KERNEL_STACK_SIZE - 2 := 0)\<rparr>) s6;
     let s8 = upd_thread ts (\<lambda>t. t\<lparr>register_esp := stack_addr (sym s7) ts (KERNEL_STACK_SIZE - 2)\<rparr>) s7;
     Some (s8\<lparr>idle_task := Some ts\<rparr>)
   }"

definition init_task1 :: "kernel \<Rightarrow> kernel option" where
  "init_task1 s = do {
     l \<leftarrow> list_first Freequeue (heap s);
     s1 \<leftarrow> k_list_del l s;
     c \<leftarrow> task_at (sym s1) (list_head_to_task_struct (sym s1) l);
     lh_t \<leftarrow> list_first Free_threadqueue (heap s1);
     s2 \<leftarrow> k_list_del lh_t s1;
     ts \<leftarrow> thread_at (sym s2) (list_head_to_thread_struct (sym s2) lh_t);
     let s3 = upd_task c (\<lambda>t. t\<lparr>PID := 1, total_quantum := DEFAULT_QUANTUM_P, task_state := ST_RUN,
         nthread := 1\<rparr>) s2;
     let s4 = s3\<lparr>remaining_quantum_p := total_quantum (tasks s3 c)\<rparr>;
     let s5 = allocate_DIR c s4;
     s6 \<leftarrow> set_user_pages c s5;
     let s7 = upd_thread ts (\<lambda>t. t\<lparr>TID := nthread (tasks s6 c)\<rparr>) s6;
     let s8 = upd_task c (\<lambda>t. t\<lparr>nthread := nthread t + 1\<rparr>) s7;
     let s9 = upd_thread ts (\<lambda>t. t\<lparr>thread_dir := task_dir (tasks s8 c), thread_p := Some c,
         thread_state := ST_RUN, quantum := DEFAULT_QUANTUM_T\<rparr>) s8;
     let s10 = s9\<lparr>remaining_quantum_t := quantum (threads s9 ts)\<rparr>;
     let s11 = set_kernel_stack ts s10;
     Some (set_cr3 (thread_dir (threads s11 ts)) s11)
   }"

section \<open>The entry point\<close>

text \<open>
  \<open>main\<close> copies the user image, which the boot loader left behind the system image, to
  \<open>usr_main\<close>; the sizes of both images are the first two words at \<open>KERNEL_START\<close>.
\<close>

definition KERNEL_START :: u32 where [const_defs]: "KERNEL_START = 0x10000"
definition usr_main :: u32 where [const_defs]: "usr_main = 0x100000"

definition load_user_image :: "kernel \<Rightarrow> kernel option" where
  "load_user_image s = do {
     PT \<leftarrow> mmu_table s;
     sys_size \<leftarrow> vload32 PT (ram s) KERNEL_START;
     usr_size \<leftarrow> vload32 PT (ram s) (KERNEL_START + 4);
     m \<leftarrow> copy_mapped PT (KERNEL_START + sys_size) usr_main (sint usr_size) (ram s);
     Some (s\<lparr>ram := m\<rparr>)
   }"

text \<open>\<open>INITIAL_ESP\<close>: the end of the page of \<open>task[1]\<close>.\<close>

definition INITIAL_ESP :: "symbols \<Rightarrow> u32" where
  "INITIAL_ESP \<sigma> = task_addr \<sigma> 1 + of_nat (4 * KERNEL_STACK_SIZE)"

definition cstring :: "string \<Rightarrow> u8 list" where
  "cstring s = map of_char s @ [0]"

text \<open>\<open>setIdt\<close> loads the \<open>sysenter\<close> stack pointer and \<open>setTSS\<close> the one of the TSS.\<close>

definition init_stacks :: "kernel \<Rightarrow> kernel" where
  "init_stacks s = s\<lparr>msr_esp := INITIAL_ESP (sym s), tss_esp0 := INITIAL_ESP (sym s)\<rparr>"

definition init_kernel :: "kernel \<Rightarrow> kernel option" where
  "init_kernel s = do {
     s1 \<leftarrow> init_sched (init_mm (init_stacks s));
     s2 \<leftarrow> init_idle s1;
     init_task1 s2
   }"

definition main :: "kernel \<Rightarrow> kernel option" where
  "main s = do {
     c1 \<leftarrow> printk (cstring (''Kernel Loaded!    '' @ [CHR 0x0A])) (con s);
     s1 \<leftarrow> init_kernel (s\<lparr>con := c1\<rparr>);
     s2 \<leftarrow> load_user_image s1;
     c2 \<leftarrow> printk (cstring (''Entering user mode...'' @ [CHR 0x0A])) (con s2);
     Some (s2\<lparr>con := c2\<rparr>)
   }"

end
