(* ===== verification/Syscalls.thy ===== *)
theory Syscalls
  imports Boot
begin

text \<open>
  The system calls of \<open>sys.c\<close>. A call returns the value of \<open>%eax\<close> and the new state;
  \<^const>\<open>None\<close> is a fault, or the point from which the model does not follow the code: a page that
  is no descriptor taken for one, a word of the kernel's own frames read or written through a user
  pointer (\<open>sys_pthread_create\<close> does not check \<open>id\<close>), the search for a free page beyond the last
  entry of the page table. Calls that switch threads end in the state in which the next thread
  runs; their value is what the call returns once its own thread is resumed. \<open>ram\<close> holds the frames
  of user pages.
\<close>

definition ESCRIPTURA :: u32 where [const_defs]: "ESCRIPTURA = 1"

definition check_fd :: "u32 \<Rightarrow> u32 \<Rightarrow> u32" where
  "check_fd fd permissions =
     (if fd \<noteq> 1 then - EBADF else if permissions \<noteq> ESCRIPTURA then - EACCES else 0)"

definition sys_ni_syscall :: "kernel \<Rightarrow> (u32 \<times> kernel) option" where
  "sys_ni_syscall s = Some (- ENOSYS, s)"

definition sys_getpid :: "kernel \<Rightarrow> (u32 \<times> kernel) option" where
  "sys_getpid s = do { p \<leftarrow> current_p s; Some (PID (tasks s p), s) }"

definition sys_gettime :: "kernel \<Rightarrow> (u32 \<times> kernel) option" where
  "sys_gettime s = Some (zeos_ticks s, s)"

definition sys_yield :: "kernel \<Rightarrow> (u32 \<times> kernel) option" where
  "sys_yield s = do { s1 \<leftarrow> force_thread_switch s; Some (0, s1) }"

section \<open>Kernel stacks and user memory\<close>

definition load_stack :: "u32 \<Rightarrow> kernel \<Rightarrow> u32 option" where
  "load_stack a s = map_option (\<lambda>(i, k). kstack (threads s i) k) (stack_slot (sym s) a)"

definition store_stack :: "u32 \<Rightarrow> u32 \<Rightarrow> kernel \<Rightarrow> kernel option" where
  "store_stack a v s = map_option
     (\<lambda>(i, k). upd_thread i (\<lambda>t. t\<lparr>kstack := (kstack t)(k := v)\<rparr>) s) (stack_slot (sym s) a)"

text \<open>\<open>copy_data(current_t(), uthread, sizeof(union thread_union))\<close>: descriptor, list node and stack.\<close>

definition copy_thread :: "nat \<Rightarrow> nat \<Rightarrow> kernel \<Rightarrow> kernel" where
  "copy_thread c u s = s\<lparr>threads := (threads s)(u := threads s c),
     heap := (heap s)(ThreadList u := heap s (ThreadList c))\<rparr>"

definition user_byte :: "page_table \<Rightarrow> u32 \<Rightarrow> bool" where
  "user_byte PT a = (case kaddr PT a of Some (f, _) \<Rightarrow> NUM_PAG_KERNEL \<le> f | None \<Rightarrow> False)"

definition user_word :: "page_table \<Rightarrow> u32 \<Rightarrow> bool" where
  "user_word PT a \<longleftrightarrow> user_byte PT a \<and> user_byte PT (a + 1) \<and> user_byte PT (a + 2) \<and> user_byte PT (a + 3)"

definition load_user :: "u32 \<Rightarrow> kernel \<Rightarrow> u32 option" where
  "load_user a s = do {
     PT \<leftarrow> mmu_table s;
     if user_word PT a then vload32 PT (ram s) a else None
   }"

definition store_user :: "u32 \<Rightarrow> u32 \<Rightarrow> kernel \<Rightarrow> kernel option" where
  "store_user a v s = do {
     PT \<leftarrow> mmu_table s;
     if user_word PT a then do { m \<leftarrow> vstore32 PT a v (ram s); Some (s\<lparr>ram := m\<rparr>) } else None
   }"

section \<open>Processes\<close>

text \<open>
  The frames of the child's data pages; \<open>Some pag\<close> is the page for which no frame was
  left.
\<close>

function alloc_data :: "nat \<Rightarrow> nat \<Rightarrow> kernel \<Rightarrow> nat option \<times> kernel" where
  "alloc_data PT pag s =
     (if pag < NUM_PAG_DATA then
        let (new_ph_pag, m) = alloc_frame (phys_mem s); s1 = s\<lparr>phys_mem := m\<rparr>
        in if new_ph_pag \<noteq> -1
           then alloc_data PT (pag + 1) (upd_table PT (\<lambda>T. set_ss_pag T (PAG_LOG_INIT_DATA + pag) new_ph_pag) s1)
           else (Some pag, s1)
      else (None, s))"
  by pat_completeness auto
termination
  by (relation "measure (\<lambda>(PT, pag, s). NUM_PAG_DATA - pag)") auto

declare alloc_data.simps [simp del]

text \<open>Maps page \<open>pag\<close> of the child to the frame of the parent's page.\<close>

definition share_page :: "nat \<Rightarrow> nat \<Rightarrow> nat \<Rightarrow> kernel \<Rightarrow> kernel" where
  "share_page process_PT parent_PT pag s =
     upd_table process_PT (\<lambda>T. set_ss_pag T pag (get_frame (pagusr_table s parent_PT) pag)) s"

text \<open>Copies page \<open>pag\<close> through a window in the parent's address space.\<close>

definition copy_to_child :: "nat \<Rightarrow> nat \<Rightarrow> nat \<Rightarrow> kernel \<Rightarrow> kernel option" where
  "copy_to_child process_PT parent_PT pag s = do {
     let s1 = upd_table parent_PT
       (\<lambda>T. set_ss_pag T (pag + NUM_PAG_DATA) (get_frame (pagusr_table s process_PT) pag)) s;
     PT \<leftarrow> mmu_table s1;
     m \<leftarrow> copy_mapped PT (of_nat (4096 * pag)) (of_nat (4096 * (pag + NUM_PAG_DATA))) (int PAGE_SIZE) (ram s1);
     Some (upd_table parent_PT (\<lambda>T. del_ss_pag T (pag + NUM_PAG_DATA)) (s1\<lparr>ram := m\<rparr>))
   }"

definition fork_memory :: "nat \<Rightarrow> nat \<Rightarrow> kernel \<Rightarrow> kernel option" where
  "fork_memory process_PT parent_PT s =
     (let s1 = for_each 0 NUM_PAG_KERNEL (share_page process_PT parent_PT) s;
          s2 = for_each 0 NUM_PAG_CODE (\<lambda>pag. share_page process_PT parent_PT (PAG_LOG_INIT_CODE + pag)) s1
      in for_loop (NUM_PAG_KERNEL + NUM_PAG_CODE) (NUM_PAG_KERNEL + NUM_PAG_CODE + NUM_PAG_DATA)
           (copy_to_child process_PT parent_PT) s2)"

text \<open>The child's stack: as the parent's frame, but returning through \<open>ret_from_fork\<close>.\<close>

definition fork_stack :: "nat \<Rightarrow> kernel \<Rightarrow> kernel option" where
  "fork_stack uthread s = do {
     c \<leftarrow> current_t s;
     let register_ebp = (ebp s - thread_addr (sym s) c) + thread_addr (sym s) uthread;
     let s1 = upd_thread uthread (\<lambda>t. t\<lparr>register_esp := register_ebp + 4\<rparr>) s;
     temp_ebp \<leftarrow> load_stack register_ebp s1;
     let s2 = upd_thread uthread (\<lambda>t. t\<lparr>register_esp := register_esp t - 4\<rparr>) s1;
     s3 \<leftarrow> store_stack (register_esp (threads s2 uthread)) (ret_from_fork_addr (sym s2)) s2;
     let s4 = upd_thread uthread (\<lambda>t. t\<lparr>register_esp := register_esp t - 4\<rparr>) s3;
     store_stack (register_esp (threads s4 uthread)) temp_ebp s4
   }"

definition fork_ids :: "nat \<Rightarrow> nat \<Rightarrow> kernel \<Rightarrow> kernel" where
  "fork_ids uchild uthread s =
     (let s1 = s\<lparr>global_PID := global_PID s + 1\<rparr>;
          s2 = upd_task uchild (\<lambda>t. t\<lparr>PID := global_PID s1, task_state := ST_READY,
                 total_quantum := DEFAULT_QUANTUM_P, nthread := 1\<rparr>) s1;
          s3 = upd_thread uthread (\<lambda>t. t\<lparr>TID := nthread (tasks s2 uchild)\<rparr>) s2;
          s4 = upd_task uchild (\<lambda>t. t\<lparr>nthread := nthread t + 1\<rparr>) s3
      in upd_thread uthread (\<lambda>t. t\<lparr>thread_state := ST_READY, thread_dir := get_DIR s4 uchild,
           thread_p := Some uchild\<rparr>) s4)"

definition sys_fork :: "kernel \<Rightarrow> (u32 \<times> kernel) option" where
  "sys_fork s =
     (if list_empty Freequeue (heap s) then Some (- ENOMEM, s)
      else if list_empty Free_threadqueue (heap s) then Some (- ENOMEM, s)
      else do {
        lhcurrent \<leftarrow> list_first Freequeue (heap s);
        t_lh \<leftarrow> list_first Free_threadqueue (heap s);
        s1 \<leftarrow> k_list_del lhcurrent s;
        s2 \<leftarrow> k_list_del t_lh s1;
        uchild \<leftarrow> task_at (sym s2) (list_head_to_task_struct (sym s2) lhcurrent);
        uthread \<leftarrow> thread_at (sym s2) (list_head_to_thread_struct (sym s2) t_lh);
        c \<leftarrow> current_t s2;
        let s3 = allocate_DIR uchild (copy_thread c uthread s2);
        process_PT \<leftarrow> get_PT s3 uchild;
        case alloc_data process_PT 0 s3 of
          (Some pag, s4) \<Rightarrow> do {
            let s5 = for_each 0 pag (\<lambda>i. free_page process_PT (PAG_LOG_INIT_DATA + i)) s4;
            s6 \<leftarrow> k_list_add_tail lhcurrent Freequeue s5;
            Some (- EAGAIN, s6)
          }
        | (None, s4) \<Rightarrow> do {
            p \<leftarrow> current_p s4;
            parent_PT \<leftarrow> get_PT s4 p;
            s5 \<leftarrow> fork_memory process_PT parent_PT s4;
            p' \<leftarrow> current_p s5;
            let s6 = fork_ids uchild uthread (set_cr3 (get_DIR s5 p') s5);
            s7 \<leftarrow> fork_stack uthread s6;
            let s8 = upd_task uchild (\<lambda>t. t\<lparr>task_state := ST_READY\<rparr>) s7;
            s9 \<leftarrow> k_list_add_tail (TaskList uchild) Readyqueue s8;
            s10 \<leftarrow> k_list_add_tail (ThreadList uthread) (ReadyThreads uchild) s9;
            Some (PID (tasks s10 uchild), s10)
          }
      })"

text \<open>\<open>while (!list_empty(q))\<close>: every thread of the queue becomes free.\<close>

partial_function (option) free_threads :: "lnode \<Rightarrow> kernel \<Rightarrow> kernel option" where
  "free_threads q s =
     (if list_empty q (heap s) then Some s
      else do {
        l \<leftarrow> list_first q (heap s);
        t \<leftarrow> thread_at (sym s) (list_head_to_thread_struct (sym s) l);
        s1 \<leftarrow> k_list_del l s;
        s2 \<leftarrow> k_list_add_tail (ThreadList t) Free_threadqueue s1;
        free_threads q (upd_thread t (\<lambda>t. t\<lparr>TID := -1\<rparr>) s2)
      })"

definition sys_exit :: "kernel \<Rightarrow> (u32 \<times> kernel) option" where
  "sys_exit s = do {
     p \<leftarrow> current_p s;
     process_PT \<leftarrow> get_PT s p;
     let s1 = for_each 0 NUM_PAG_DATA (\<lambda>i. free_page process_PT (PAG_LOG_INIT_DATA + i)) s;
     s2 \<leftarrow> k_list_add_tail (TaskList p) Freequeue s1;
     let s3 = upd_task p (\<lambda>t. t\<lparr>PID := -1\<rparr>) s2;
     s4 \<leftarrow> free_threads (ReadyThreads p) s3;
     s5 \<leftarrow> free_threads (BlockedThreads p) s4;
     s6 \<leftarrow> sched_next_process_rr s5;
     Some (0, s6)
   }"

section \<open>Threads\<close>

text \<open>
  The search for a page whose frame is 0 has no bound; past the end of the page table
  it leaves the array.
\<close>

function find_free_page :: "page_table \<Rightarrow> nat \<Rightarrow> nat option" where
  "find_free_page PT page =
     (if page < TOTAL_PAGES then if pbase_addr (PT page) = 0 then Some page else find_free_page PT (page + 1)
      else None)"
  by pat_completeness auto
termination
  by (relation "measure (\<lambda>(PT, page). TOTAL_PAGES - page)") auto

declare find_free_page.simps [simp del]

definition sys_pthread_create :: "u32 \<Rightarrow> u32 \<Rightarrow> u32 \<Rightarrow> kernel \<Rightarrow> (u32 \<times> kernel) option" where
  "sys_pthread_create idp start_routine arg s =
     (if \<not> access_ok VERIFY_READ start_routine 4 then Some (- EFAULT, s)
      else if list_empty Free_threadqueue (heap s) then Some (- ENOMEM, s)
      else do {
        t_lh \<leftarrow> list_first Free_threadqueue (heap s);
        u \<leftarrow> thread_at (sym s) (list_head_to_thread_struct (sym s) t_lh);
        s1 \<leftarrow> k_list_del t_lh s;
        c \<leftarrow> current_t s1;
        let s2 = copy_thread c u s1;
        let s3 = upd_thread u (\<lambda>t. t\<lparr>kstack := (kstack t)(KERNEL_STACK_SIZE - 18 := 0,
            KERNEL_STACK_SIZE - 5 := start_routine),
            register_esp := stack_addr (sym s2) u (KERNEL_STACK_SIZE - 18)\<rparr>) s2;
        p \<leftarrow> current_p s3;
        process_PT \<leftarrow> get_PT s3 p;
        page \<leftarrow> find_free_page (pagusr_table s3 process_PT) (PAG_LOG_INIT_DATA + NUM_PAG_DATA);
        let s4 = map_new_page set_ss_pag process_PT page s3;
        let s5 = upd_thread u (\<lambda>t. t\<lparr>kstack := (kstack t)(KERNEL_STACK_SIZE - 2 := of_nat (4096 * (page + 1)))\<rparr>) s4;
        let s6 = upd_thread u (\<lambda>t. t\<lparr>TID := nthread (tasks s5 p)\<rparr>) s5;
        let s7 = upd_task p (\<lambda>t. t\<lparr>nthread := nthread t + 1\<rparr>) s6;
        let s8 = upd_thread u (\<lambda>t. t\<lparr>quantum := DEFAULT_QUANTUM_T, thread_state := ST_READY,
            thread_p := Some p, thread_dir := task_dir (tasks s7 p)\<rparr>) s7;
        s9 \<leftarrow> store_user idp (TID (threads s8 u)) s8;
        s10 \<leftarrow> k_list_add_tail (ThreadList u) (ReadyThreads p) s9;
        Some (0, s10)
      })"

definition sys_pthread_join :: "u32 \<Rightarrow> u32 \<Rightarrow> kernel \<Rightarrow> (u32 \<times> kernel) option" where
  "sys_pthread_join idp value_ptr s = do {
     p \<leftarrow> current_p s;
     if nthread (tasks s p) < 2 then Some (- EFAULT, s)
     else do {
       c \<leftarrow> current_t s;
       v \<leftarrow> load_user idp s;
       let s1 = upd_thread c (\<lambda>t. t\<lparr>blocked_by := v\<rparr>) s;
       s2 \<leftarrow> update_thread_state_rr c (Some (BlockedThreads p)) s1;
       s3 \<leftarrow> sched_next_thread_rr s2;
       Some (0, s3)
     }
   }"

text \<open>If \<open>t\<close> waits for thread \<open>c\<close>, it becomes ready.\<close>

definition wake_if_joined :: "nat \<Rightarrow> nat \<Rightarrow> nat \<Rightarrow> kernel \<Rightarrow> kernel option" where
  "wake_if_joined c p t s =
     (if blocked_by (threads s t) = TID (threads s c)
      then update_thread_state_rr t (Some (ReadyThreads p)) s else Some s)"

text \<open>The loop of \<open>sys_pthread_exit\<close>; \<open>it\<close> is its cursor.\<close>

partial_function (option) wake_joined :: "nat \<Rightarrow> nat \<Rightarrow> lnode \<Rightarrow> lnode \<Rightarrow> kernel \<Rightarrow> kernel option" where
  "wake_joined c p i it s =
     (if it = i then Some s
      else do {
        it1 \<leftarrow> list_first (BlockedThreads p) (heap s);
        t \<leftarrow> thread_at (sym s) (list_head_to_thread_struct (sym s) it1);
        s1 \<leftarrow> wake_if_joined c p t s;
        s2 \<leftarrow> k_list_del it1 s1;
        s3 \<leftarrow> k_list_add_tail it1 (BlockedThreads p) s2;
        it2 \<leftarrow> list_first (BlockedThreads p) (heap s3);
        wake_joined c p i it2 s3
      })"

text \<open>The waiters of the process: \<open>i\<close> is the first of them.\<close>

definition wake_waiters :: "nat \<Rightarrow> nat \<Rightarrow> kernel \<Rightarrow> kernel option" where
  "wake_waiters c p s =
     (if \<not> list_empty (BlockedThreads p) (heap s) then do {
        i \<leftarrow> list_first (BlockedThreads p) (heap s);
        s1 \<leftarrow> k_list_del i s;
        s2 \<leftarrow> k_list_add_tail i (BlockedThreads p) s1;
        it \<leftarrow> list_first (BlockedThreads p) (heap s2);
        s3 \<leftarrow> wake_joined c p i it s2;
        it \<leftarrow> list_first (BlockedThreads p) (heap s3);
        t \<leftarrow> thread_at (sym s3) (list_head_to_thread_struct (sym s3) it);
        wake_if_joined c p t s3
      } else Some s)"

definition sys_pthread_exit :: "u32 \<Rightarrow> kernel \<Rightarrow> (u32 \<times> kernel) option" where
  "sys_pthread_exit value_ptr s = do {
     c \<leftarrow> current_t s;
     p \<leftarrow> current_p s;
     s1 \<leftarrow> k_list_add_tail (ThreadList c) Free_threadqueue s;
     s2 \<leftarrow> wake_waiters c p s1;
     s3 \<leftarrow> sched_next_thread_rr s2;
     Some (0, s3)
   }"

section \<open>Writing\<close>

definition TAM_BUFFER :: int where [simp]: "TAM_BUFFER = 512"

text \<open>
  The chunk loop of \<open>sys_write\<close>, for any console \<open>wr\<close> (its result is the number of
  bytes taken) and any way \<open>rd\<close> of reading the user's buffer.
\<close>

partial_function (option) write_chunks ::
  "((nat \<Rightarrow> u8) \<Rightarrow> int \<Rightarrow> 'c \<Rightarrow> int \<times> 'c) \<Rightarrow> (u32 \<Rightarrow> int \<Rightarrow> (nat \<Rightarrow> u8) option) \<Rightarrow>
     u32 \<Rightarrow> int \<Rightarrow> 'c \<Rightarrow> (u32 \<times> int \<times> 'c) option" where
  "write_chunks wr rd buffer bytes_left cs =
     (if bytes_left > TAM_BUFFER then do {
        localbuffer \<leftarrow> rd buffer TAM_BUFFER;
        let (ret, cs1) = wr localbuffer TAM_BUFFER cs;
        write_chunks wr rd (buffer + of_int ret) (bytes_left - ret) cs1
      } else Some (buffer, bytes_left, cs))"

definition write_loop ::
  "((nat \<Rightarrow> u8) \<Rightarrow> int \<Rightarrow> 'c \<Rightarrow> int \<times> 'c) \<Rightarrow> (u32 \<Rightarrow> int \<Rightarrow> (nat \<Rightarrow> u8) option) \<Rightarrow>
     u32 \<Rightarrow> int \<Rightarrow> 'c \<Rightarrow> (int \<times> 'c) option" where
  "write_loop wr rd buffer nbytes cs = do {
     (buffer1, bytes_left, cs1) \<leftarrow> write_chunks wr rd buffer nbytes cs;
     if bytes_left > 0 then do {
       localbuffer \<leftarrow> rd buffer1 bytes_left;
       let (ret, cs2) = wr localbuffer bytes_left cs1;
       Some (nbytes - (bytes_left - ret), cs2)
     } else Some (nbytes - bytes_left, cs1)
   }"

definition sys_write :: "u32 \<Rightarrow> u32 \<Rightarrow> u32 \<Rightarrow> kernel \<Rightarrow> (u32 \<times> kernel) option" where
  "sys_write fd buffer nbytes s =
     (let ret = check_fd fd ESCRIPTURA
      in if ret \<noteq> 0 then Some (ret, s)
         else if sint nbytes < 0 then Some (- EINVAL, s)
         else if \<not> access_ok VERIFY_READ buffer nbytes then Some (- EFAULT, s)
         else do {
           PT \<leftarrow> mmu_table s;
           (n, con1) \<leftarrow> write_loop sys_write_console (vread_buffer PT (ram s)) buffer (sint nbytes) (con s);
           Some (of_int n, s\<lparr>con := con1\<rparr>)
         })"

end
