(* ===== verification/MutexSys.thy ===== *)
theory MutexSys
  imports Syscalls
begin

text \<open>
  The mutex system calls (\<open>mutex.c\<close>) on the global \<open>mutex_vector\<close>. Numbers and owners are
  signed; an owner of 0 means that nobody initialised the mutex. \<open>sys_mutex_unlock\<close> without waiters
  takes the page around the head of the empty list, a part of \<open>mutex_vector\<close> and its neighbours, for a
  thread: it may write there and return 0 all the same. This is not followed and the model has
  \<^const>\<open>None\<close>; no property rests on it.
\<close>

definition bad_mutex :: "u32 \<Rightarrow> bool" where
  "bad_mutex n \<longleftrightarrow> sint n \<ge> 20 \<or> sint n < 0"

definition sys_mutex_init :: "u32 \<Rightarrow> kernel \<Rightarrow> (u32 \<times> kernel) option" where
  "sys_mutex_init n s =
     (if bad_mutex n then Some (- EINVAL, s)
      else let m = unat n
           in if owner (mutexes s m) \<noteq> 0 then Some (- EBUSY, s)
              else do {
                c \<leftarrow> current_t s;
                let s1 = upd_mutex m (\<lambda>x. x\<lparr>owner := TID (threads s c)\<rparr>) s;
                let s2 = upd_mutex m (\<lambda>x. x\<lparr>locked := 0\<rparr>) s1;
                Some (0, k_INIT_LIST_HEAD (MutexBlocked m) s2)
              })"

definition sys_mutex_lock :: "u32 \<Rightarrow> kernel \<Rightarrow> (u32 \<times> kernel) option" where
  "sys_mutex_lock n s =
     (if bad_mutex n then Some (- EINVAL, s)
      else let m = unat n
           in if sint (owner (mutexes s m)) < 0 then Some (- EINVAL, s)
              else if locked (mutexes s m) \<noteq> 0
              then do {
                c \<leftarrow> current_t s;
                let s1 = upd_thread c (\<lambda>t. t\<lparr>thread_state := ST_BLOCKED\<rparr>) s;
                s2 \<leftarrow> k_list_add_tail (ThreadList c) (MutexBlocked m) s1;
                s3 \<leftarrow> sched_next_thread_rr s2;
                Some (0, s3)
              }
              else Some (0, upd_mutex m (\<lambda>x. x\<lparr>locked := 1\<rparr>) s))"

definition sys_mutex_unlock :: "u32 \<Rightarrow> kernel \<Rightarrow> (u32 \<times> kernel) option" where
  "sys_mutex_unlock n s =
     (if bad_mutex n then Some (- EINVAL, s)
      else let m = unat n
           in if sint (owner (mutexes s m)) < 0 then Some (- EINVAL, s)
              else if locked (mutexes s m) = 0 then Some (0, s)
              else do {
                l \<leftarrow> list_first (MutexBlocked m) (heap s);
                t \<leftarrow> thread_at (sym s) (list_head_to_thread_struct (sym s) l);
                p \<leftarrow> current_p s;
                s1 \<leftarrow> update_thread_state_rr t (Some (ReadyThreads p)) s;
                Some (0, if list_empty (MutexBlocked m) (heap s1)
                         then upd_mutex m (\<lambda>x. x\<lparr>locked := 0\<rparr>) s1 else s1)
              })"

text \<open>\<open>while (!list_empty(&m->blocked))\<close> in \<open>sys_mutex_destroy\<close>.\<close>

partial_function (option) wake_all :: "nat \<Rightarrow> kernel \<Rightarrow> kernel option" where
  "wake_all m s =
     (if list_empty (MutexBlocked m) (heap s) then Some s
      else do {
        l \<leftarrow> list_first (MutexBlocked m) (heap s);
        t \<leftarrow> thread_at (sym s) (list_head_to_thread_struct (sym s) l);
        s1 \<leftarrow> k_list_del l s;
        p \<leftarrow> thread_p (threads s1 t);
        s2 \<leftarrow> update_thread_state_rr t (Some (ReadyThreads p)) s1;
        wake_all m s2
      })"

definition sys_mutex_destroy :: "u32 \<Rightarrow> kernel \<Rightarrow> (u32 \<times> kernel) option" where
  "sys_mutex_destroy n s =
     (if bad_mutex n then Some (- EINVAL, s)
      else let m = unat n
           in if sint (owner (mutexes s m)) \<le> 0 then Some (- EINVAL, s)
              else do {
                c \<leftarrow> current_t s;
                if TID (threads s c) \<noteq> owner (mutexes s m) then Some (- EPERM, s)
                else do {
                  s1 \<leftarrow> wake_all m s;
                  let s2 = upd_mutex m (\<lambda>x. x\<lparr>locked := 0\<rparr>) s1;
                  Some (0, upd_mutex m (\<lambda>x. x\<lparr>owner := 0\<rparr>) s2)
                }
              })"

end
