(* ===== verification/Dispatch.thy ===== *)
theory Dispatch
  imports MutexSys
begin

text \<open>
  How the kernel is entered: the system call entry of \<open>entry.S\<close> with the frame it pushes
  and the dispatch through \<open>sys_call_table\<close>, the clock and the keyboard
  (\<open>interrupt.c\<close>). The frame lies at the end of the running thread's kernel stack, whose
  address the processor takes from \<open>msr_esp\<close>.
\<close>

section \<open>System calls\<close>

text \<open>The user's registers when \<open>sysenter\<close> executes; \<open>ret_addr\<close> is the word at \<open>4(%ebp)\<close>.\<close>

record user_regs =
  r_eax :: u32
  r_ebx :: u32
  r_ecx :: u32
  r_edx :: u32
  r_esi :: u32
  r_edi :: u32
  r_ebp :: u32
  r_ds :: u32
  r_es :: u32
  r_fs :: u32
  r_gs :: u32
  r_eflags :: u32
  ret_addr :: u32

text \<open>
  \<open>pushl\<close>: the stack pointer moves down a word and the word is stored. The handler pushes
  five words of return context, \<open>SAVE_ALL\<close> eleven registers.
\<close>

definition pushl :: "u32 \<Rightarrow> kernel \<Rightarrow> kernel option" where
  "pushl v s = store_stack (esp s - 4) v (s\<lparr>esp := esp s - 4\<rparr>)"

fun push_all :: "u32 list \<Rightarrow> kernel \<Rightarrow> kernel option" where
  "push_all [] s = Some s"
| "push_all (v # vs) s = pushl v s \<bind> push_all vs"

definition return_context :: "user_regs \<Rightarrow> u32 list" where
  "return_context r = [ucast USER_DS, r_ebp r, r_eflags r, ucast USER_CS, ret_addr r]"

definition SAVE_ALL :: "user_regs \<Rightarrow> u32 list" where
  "SAVE_ALL r = [r_gs r, r_fs r, r_es r, r_ds r, r_eax r, r_ebp r, r_edi r, r_esi r, r_edx r, r_ecx r, r_ebx r]"

definition MAX_SYSCALL :: int where [simp]: "MAX_SYSCALL = 35"

text \<open>The calls of \<open>sys_call_table\<close>, with their arguments from \<open>%ebx\<close>, \<open>%ecx\<close>, \<open>%edx\<close>.\<close>

datatype syscall = Sys_ni | Sys_exit | Sys_fork | Sys_write | Sys_gettime | Sys_pthread_create | Sys_yield
  | Sys_getpid | Sys_pthread_join | Sys_pthread_exit | Sys_mutex_init | Sys_mutex_lock | Sys_mutex_unlock
  | Sys_mutex_destroy

definition sys_call_table :: "syscall list" where
  "sys_call_table =
     [Sys_ni, Sys_exit, Sys_fork, Sys_ni, Sys_write,
      Sys_ni, Sys_ni, Sys_ni, Sys_ni, Sys_ni,
      Sys_gettime, Sys_ni, Sys_pthread_create, Sys_yield, Sys_ni,
      Sys_ni, Sys_ni, Sys_ni, Sys_ni, Sys_ni,
      Sys_getpid, Sys_ni, Sys_ni, Sys_pthread_create, Sys_pthread_join,
      Sys_pthread_exit, Sys_mutex_init, Sys_mutex_lock, Sys_mutex_unlock, Sys_mutex_destroy,
      Sys_ni, Sys_ni, Sys_ni, Sys_ni, Sys_ni]"

fun call_sys :: "syscall \<Rightarrow> u32 \<Rightarrow> u32 \<Rightarrow> u32 \<Rightarrow> kernel \<Rightarrow> (u32 \<times> kernel) option" where
  "call_sys Sys_ni b c d s = sys_ni_syscall s"
| "call_sys Sys_exit b c d s = sys_exit s"
| "call_sys Sys_fork b c d s = sys_fork s"
| "call_sys Sys_write b c d s = sys_write b c d s"
| "call_sys Sys_gettime b c d s = sys_gettime s"
| "call_sys Sys_pthread_create b c d s = sys_pthread_create b c d s"
| "call_sys Sys_yield b c d s = sys_yield s"
| "call_sys Sys_getpid b c d s = sys_getpid s"
| "call_sys Sys_pthread_join b c d s = sys_pthread_join b c s"
| "call_sys Sys_pthread_exit b c d s = sys_pthread_exit b s"
| "call_sys Sys_mutex_init b c d s = sys_mutex_init b s"
| "call_sys Sys_mutex_lock b c d s = sys_mutex_lock b s"
| "call_sys Sys_mutex_unlock b c d s = sys_mutex_unlock b s"
| "call_sys Sys_mutex_destroy b c d s = sys_mutex_destroy b s"

text \<open>
  \<open>call *sys_call_table(, %eax, 4)\<close> pushes the return address and the C function its frame
  pointer. Word 35 lies behind the table; what is there is not known.
\<close>

definition dispatch :: "u32 \<Rightarrow> u32 \<Rightarrow> u32 \<Rightarrow> u32 \<Rightarrow> kernel \<Rightarrow> (u32 \<times> kernel) option" where
  "dispatch eax b c d s =
     (if sint eax < 0 then Some (- ENOSYS, s)
      else if sint eax > MAX_SYSCALL then Some (- ENOSYS, s)
      else if unat eax < length sys_call_table then call_sys (sys_call_table ! unat eax) b c d s
      else None)"

text \<open>The C function runs with its frame pointer at the last word pushed.\<close>

definition system_call_handler :: "user_regs \<Rightarrow> kernel \<Rightarrow> (u32 \<times> kernel) option" where
  "system_call_handler r s = do {
     s1 \<leftarrow> push_all (return_context r @ SAVE_ALL r) (s\<lparr>esp := msr_esp s\<rparr>);
     s2 \<leftarrow> push_all [sysenter_fin_addr (sym s1), r_ebp r] s1;
     dispatch (r_eax r) (r_ebx r) (r_ecx r) (r_edx r) (s2\<lparr>ebp := esp s2\<rparr>)
   }"

text \<open>
  The end of the handler, executed by the thread the kernel returns to: \<open>sysexit\<close> continues
  at the saved return address with the saved stack pointer. \<open>a\<close> is the stack pointer at
  \<open>sysenter_fin\<close>, when the eleven registers are still pushed.
\<close>

definition sysexit_context :: "u32 \<Rightarrow> kernel \<Rightarrow> (u32 \<times> u32) option" where
  "sysexit_context a s = do {
     eip \<leftarrow> load_stack (a + 4 * 11) s;
     user_esp \<leftarrow> load_stack (a + 4 * 11 + 12) s;
     Some (eip, user_esp)
   }"

section \<open>Interrupts\<close>

text \<open>
  \<open>char_map\<close>, 98 characters in the source's encoding. A scan code above 97 reads past its end.
\<close>

definition char_map :: "u8 list" where
  "char_map = [0,0,49,50,51,52,53,54, 55,56,57,48,39,161,0,0, 113,119,101,114,116,121,117,105,
     111,112,96,43,0,0,97,115, 100,102,103,104,106,107,108,241, 0,186,0,231,122,120,99,118,
     98,110,109,44,46,45,0,42, 0,0,0,0,0,0,0,0, 0,0,0,0,0,0,0,55, 56,57,45,52,53,54,43,49,
     50,51,48,0,0,0,60,0, 0,0,0,0,0,0,0,0, 0,0]"

definition keyboard_routine :: "u8 \<Rightarrow> kernel \<Rightarrow> kernel option" where
  "keyboard_routine c s =
     (if c AND 0x80 \<noteq> 0
      then if unat (c AND 0x7f) < length char_map
           then Some (s\<lparr>con := printc_xy 0 0 (char_map ! unat (c AND 0x7f)) (con s)\<rparr>)
           else None
      else Some s)"

text \<open>
  \<open>zeos_show_clock\<close> of \<open>libzeos\<close> draws on the console. It counts its own calls; as it is called
  once per tick, what it draws may depend on the ticks before it.
\<close>

definition clock_routine :: "(u32 \<Rightarrow> console \<Rightarrow> console) \<Rightarrow> kernel \<Rightarrow> kernel option" where
  "clock_routine zeos_show_clock s =
     (let s1 = s\<lparr>con := zeos_show_clock (zeos_ticks s) (con s)\<rparr>;
          s2 = s1\<lparr>zeos_ticks := zeos_ticks s1 + 1\<rparr>
      in schedule s2)"

text \<open>
  The interrupt entries: the processor pushes five words on the stack of the TSS, \<open>SAVE_ALL\<close>
  eleven, the call its return address; \<open>extra\<close> are the words the C functions push below
  before \<open>switch_stack\<close> saves the frame pointer. Only the stack and frame pointers are followed:
  the words pushed belong to the interrupted program and the C frames, and are read again only by
  \<open>iret\<close>, which is not modelled.
\<close>

definition clock_handler :: "(u32 \<Rightarrow> console \<Rightarrow> console) \<Rightarrow> nat \<Rightarrow> kernel \<Rightarrow> kernel option" where
  "clock_handler show extra s = clock_routine show (kernel_entry (17 + extra) (17 + extra) s)"

definition keyboard_handler :: "u8 \<Rightarrow> nat \<Rightarrow> kernel \<Rightarrow> kernel option" where
  "keyboard_handler c extra s = keyboard_routine c (kernel_entry (17 + extra) (17 + extra) s)"

end
