(* ===== verification/BootProofs.thy ===== *)
theory BootProofs
  imports Boot
begin

text \<open>Each phase of the start-up computed, and the invariant after the last one.\<close>

section \<open>Paging\<close>

lemma init_table_pages_eq:
  "init_table_pages s = s\<lparr>pagusr_table :=
     (\<lambda>j. if j < 10 then init_table (sym s) (pagusr_table s j) else pagusr_table s j)\<rparr>"
proof -
  let ?I = "\<lambda>n s'. s' = s\<lparr>pagusr_table :=
     (\<lambda>j. if j < n then init_table (sym s) (pagusr_table s j) else pagusr_table s j)\<rparr>"
  have "?I 10 (for_each 0 10 (\<lambda>j s. upd_table j (init_table (sym s)) s) s)"
    by (rule for_each_invariant [where I = ?I]) (auto simp: upd_table_def fun_eq_iff)
  then show ?thesis by (simp add: init_table_pages_def)
qed

lemma init_dir_pages_eq:
  "init_dir_pages s = s\<lparr>dir_pages := (\<lambda>i. if i < 10
     then set_ss_pag (dir_pages s i) 0 (drop_bit 12 (elem_addr (pagusr_base (sym s)) i)) else dir_pages s i)\<rparr>"
proof -
  let ?I = "\<lambda>n s'. s' = s\<lparr>dir_pages := (\<lambda>i. if i < n
     then set_ss_pag (dir_pages s i) 0 (drop_bit 12 (elem_addr (pagusr_base (sym s)) i)) else dir_pages s i)\<rparr>"
  have "?I 10 (for_each 0 10 (\<lambda>i s. s\<lparr>dir_pages := (dir_pages s)(i := set_ss_pag (dir_pages s i) 0
         (drop_bit 12 (elem_addr (pagusr_base (sym s)) i)))\<rparr>) s)"
    by (rule for_each_invariant [where I = ?I]) (auto simp: fun_eq_iff)
  then show ?thesis by (simp add: init_dir_pages_def)
qed

lemma drop_page_small: "unat (drop_bit 12 (a :: u32)) < 2 ^ 20"
  using unat_less32 [of a] by (simp add: page_of_unat)

lemma init_mm_eq:
  assumes "layout_ok (sym s)"
  shows "init_mm s = s\<lparr>pagusr_table :=
       (\<lambda>j. if j < 10 then init_table (sym s) (pagusr_table s j) else pagusr_table s j),
     phys_mem := init_frames (phys_mem s),
     dir_pages := (\<lambda>i. if i < 10
       then set_ss_pag (dir_pages s i) 0 (drop_bit 12 (elem_addr (pagusr_base (sym s)) i)) else dir_pages s i),
     tasks := (tasks s)(0 := (tasks s 0)\<lparr>task_dir := dir_addr (sym s) 0\<rparr>),
     cr3 := dir_addr (sym s) 0\<rparr>" (is "_ = ?s")
  using assms
  by (simp add: init_mm_def init_table_pages_eq init_dir_pages_eq allocate_DIR_eq set_cr3_def
      get_DIR_def Let_def cong: if_cong)

lemma init_mm_dirs_ok: "layout_ok (sym s) \<Longrightarrow> dirs_ok (init_mm s)"
  by (simp add: init_mm_eq dirs_ok_def set_ss_pag_eq and_20_bits [OF drop_page_small])


section \<open>The queues\<close>

definition boot_heads :: "nat \<Rightarrow> lnode set" where
  "boot_heads i = {Freequeue} \<union> ReadyThreads ` {..<i} \<union> BlockedThreads ` {..<i}"

lemma boot_heads_Suc:
  "boot_heads (Suc i) = insert (BlockedThreads i) (insert (ReadyThreads i) (boot_heads i))"
  by (auto simp: boot_heads_def less_Suc_eq)

lemma boot_heads_simps [simp]:
  "Freequeue \<in> boot_heads i" "TaskList j \<notin> boot_heads i" "ThreadList j \<notin> boot_heads i"
  "Readyqueue \<notin> boot_heads i" "Free_threadqueue \<notin> boot_heads i" "MutexBlocked m \<notin> boot_heads i"
  by (auto simp: boot_heads_def)

lemma heads_boot: "heads {} = insert Free_threadqueue (insert Readyqueue (boot_heads 10))"
  by (auto simp: heads_def boot_heads_def)

definition free_tasks :: "nat \<Rightarrow> nat \<Rightarrow> lnode \<Rightarrow> lnode list" where
  "free_tasks i j = (\<lambda>_. [])(Freequeue := map TaskList [i..<j])"

lemma queued_free_tasks: "queued H (free_tasks i j) n \<Longrightarrow> \<exists>k < j. n = TaskList k"
  by (auto simp: queued_def free_tasks_def split: if_splits)

text \<open>A round of the loop, on the lists.\<close>

lemma freequeue_round:
  assumes "shape h (boot_heads i) (free_tasks 0 i)"
  obtains h' where "list_add_tail (TaskList i) Freequeue
      (INIT_LIST_HEAD (BlockedThreads i) (INIT_LIST_HEAD (ReadyThreads i) h)) = Some h'"
    and "shape h' (boot_heads (Suc i)) (free_tasks 0 (Suc i))" and "\<And>m. h' (MutexBlocked m) = h (MutexBlocked m)"
proof -
  let ?Q = "free_tasks 0 i" and ?h1 = "INIT_LIST_HEAD (ReadyThreads i) h"
  let ?h2 = "INIT_LIST_HEAD (BlockedThreads i) ?h1"
  have e: "?Q(ReadyThreads i := []) = ?Q" "?Q(BlockedThreads i := []) = ?Q"
    "?Q(Freequeue := ?Q Freequeue @ [TaskList i]) = free_tasks 0 (Suc i)"
    by (simp_all add: free_tasks_def fun_eq_iff)
  have "shape ?h1 (insert (ReadyThreads i) (boot_heads i)) ?Q"
    using shape_init [OF assms, of "ReadyThreads i"] queued_free_tasks e(1) by fastforce
  then have "shape ?h2 (boot_heads (Suc i)) ?Q"
    unfolding boot_heads_Suc using shape_init [of ?h1 _ ?Q "BlockedThreads i"] queued_free_tasks e(2)
    by fastforce
  moreover have "\<not> queued (boot_heads (Suc i)) ?Q (TaskList i)" using queued_free_tasks by fastforce
  ultimately obtain h' where h': "list_add_tail (TaskList i) Freequeue ?h2 = Some h'"
    "shape h' (boot_heads (Suc i)) (?Q(Freequeue := ?Q Freequeue @ [TaskList i]))"
    "\<And>x. x \<notin> boot_heads (Suc i) \<Longrightarrow> x \<noteq> TaskList i \<Longrightarrow> \<not> queued (boot_heads (Suc i)) ?Q x \<Longrightarrow> h' x = ?h2 x"
    using lq.add_tail_law by (metis boot_heads_simps(1,2))
  have "h' (MutexBlocked m) = h (MutexBlocked m)" for m
  proof -
    have "\<not> queued (boot_heads (Suc i)) ?Q (MutexBlocked m)" using queued_free_tasks by fastforce
    with h'(3) [of "MutexBlocked m"] show ?thesis by (simp add: INIT_other)
  qed
  with h'(1,2) show thesis using e(3) by (intro that [of h']) simp_all
qed

lemma init_freequeue_eq:
  obtains h where "init_freequeue s = Some (s\<lparr>heap := h,
       tasks := (\<lambda>i. if i < 10 then (tasks s i)\<lparr>PID := -1\<rparr> else tasks s i)\<rparr>)"
    and "shape h (boot_heads 10) (free_tasks 0 10)"
    and "\<And>m. h (MutexBlocked m) = heap s (MutexBlocked m)"
proof -
  let ?body = "\<lambda>i s. let s1 = upd_task i (\<lambda>t. t\<lparr>PID := -1\<rparr>) s;
                s2 = k_INIT_LIST_HEAD (ReadyThreads i) s1;
                s3 = k_INIT_LIST_HEAD (BlockedThreads i) s2
            in k_list_add_tail (TaskList i) Freequeue s3"
  let ?s = "\<lambda>n h. s\<lparr>heap := h, tasks := (\<lambda>i. if i < n then (tasks s i)\<lparr>PID := -1\<rparr> else tasks s i)\<rparr>"
  let ?I = "\<lambda>n s'. \<exists>h. s' = ?s n h \<and> shape h (boot_heads n) (free_tasks 0 n)
    \<and> (\<forall>m. h (MutexBlocked m) = heap s (MutexBlocked m))"
  have start: "?I 0 (k_INIT_LIST_HEAD Freequeue s)"
  proof -
    have "boot_heads 0 = {Freequeue}" "free_tasks 0 0 = (\<lambda>_. [])"
      by (simp_all add: boot_heads_def free_tasks_def fun_eq_iff)
    moreover have "shape (INIT_LIST_HEAD Freequeue (heap s)) {Freequeue} ((\<lambda>_. [])(Freequeue := []))"
      by (rule shape_init) (simp_all add: shape_def queued_def)
    ultimately show ?thesis
      by (intro exI [of _ "INIT_LIST_HEAD Freequeue (heap s)"])
        (simp add: k_INIT_LIST_HEAD_def INIT_other fun_upd_idem)
  qed
  have step: "\<exists>s2. ?body i s1 = Some s2 \<and> ?I (Suc i) s2" if "?I i s1" for i s1
  proof -
    from that obtain h where h: "s1 = ?s i h" "shape h (boot_heads i) (free_tasks 0 i)"
      "\<forall>m. h (MutexBlocked m) = heap s (MutexBlocked m)" by blast
    obtain h3 where h3: "list_add_tail (TaskList i) Freequeue
        (INIT_LIST_HEAD (BlockedThreads i) (INIT_LIST_HEAD (ReadyThreads i) h)) = Some h3"
      "shape h3 (boot_heads (Suc i)) (free_tasks 0 (Suc i))" "\<And>m. h3 (MutexBlocked m) = h (MutexBlocked m)"
      by (rule freequeue_round [OF h(2)]) (rule that)
    have "?body i s1 = Some (?s (Suc i) h3)"
      using h3(1) by (simp add: h(1) k_INIT_LIST_HEAD_def k_list_add_tail_case Let_def less_Suc_eq fun_eq_iff)
    then show ?thesis using h3(2,3) h(3) by auto
  qed
  have "\<exists>s'. for_loop 0 10 ?body (k_INIT_LIST_HEAD Freequeue s) = Some s' \<and> ?I 10 s'"
    by (rule for_loop_invariant [where I = ?I]) (use start step in simp_all)
  then show thesis using that by (auto simp: init_freequeue_def)
qed

text \<open>The free processes from \<open>i\<close> on and the free threads from \<open>i\<close> up to \<open>j\<close>.\<close>

definition free_lists :: "nat \<Rightarrow> nat \<Rightarrow> lnode \<Rightarrow> lnode list" where
  "free_lists i j = (\<lambda>_. [])(Freequeue := map TaskList [i..<10], Free_threadqueue := map ThreadList [i..<j])"

lemma queued_free_lists:
  "queued H (free_lists i j) n \<Longrightarrow>
     (\<exists>k. n = TaskList k \<and> i \<le> k \<and> k < 10) \<or> (\<exists>k. n = ThreadList k \<and> i \<le> k \<and> k < j)"
  by (auto simp: queued_def free_lists_def split: if_splits)

lemma free_thread_round:
  assumes "shape h (heads {}) (free_lists 0 i)"
  obtains h' where "list_add_tail (ThreadList i) Free_threadqueue h = Some h'"
    and "shape h' (heads {}) (free_lists 0 (Suc i))" and "\<And>m. h' (MutexBlocked m) = h (MutexBlocked m)"
proof -
  let ?Q = "free_lists 0 i"
  have "\<not> queued (heads {}) ?Q (ThreadList i)" using queued_free_lists by fastforce
  with assms obtain h' where h': "list_add_tail (ThreadList i) Free_threadqueue h = Some h'"
    "shape h' (heads {}) (?Q(Free_threadqueue := ?Q Free_threadqueue @ [ThreadList i]))"
    "\<And>x. x \<notin> heads {} \<Longrightarrow> x \<noteq> ThreadList i \<Longrightarrow> \<not> queued (heads {}) ?Q x \<Longrightarrow> h' x = h x"
    using lq.add_tail_law by (metis heads_simps(3,8))
  have q: "?Q(Free_threadqueue := ?Q Free_threadqueue @ [ThreadList i]) = free_lists 0 (Suc i)"
    by (simp add: free_lists_def fun_eq_iff)
  have "h' (MutexBlocked m) = h (MutexBlocked m)" for m
  proof -
    have "\<not> queued (heads {}) ?Q (MutexBlocked m)" using queued_free_lists by fastforce
    with h'(3) [of "MutexBlocked m"] show ?thesis by simp
  qed
  with h'(1,2) show thesis using q by (intro that [of h']) simp_all
qed

lemma init_sched_eq:
  obtains h where "init_sched s = Some (s\<lparr>heap := h,
       tasks := (\<lambda>i. if i < 10 then (tasks s i)\<lparr>PID := -1\<rparr> else tasks s i),
       threads := (\<lambda>i. if i < 10 then (threads s i)\<lparr>TID := -1\<rparr> else threads s i)\<rparr>)"
    and "shape h (heads {}) (free_lists 0 10)"
    and "\<And>m. h (MutexBlocked m) = heap s (MutexBlocked m)"
proof -
  obtain h0 where h0: "init_freequeue s = Some (s\<lparr>heap := h0,
       tasks := (\<lambda>i. if i < 10 then (tasks s i)\<lparr>PID := -1\<rparr> else tasks s i)\<rparr>)"
    "shape h0 (boot_heads 10) (free_tasks 0 10)" "\<And>m. h0 (MutexBlocked m) = heap s (MutexBlocked m)"
    by (rule init_freequeue_eq [of s]) (rule that)
  let ?h1 = "INIT_LIST_HEAD Readyqueue h0"
  let ?h2 = "INIT_LIST_HEAD Free_threadqueue ?h1"
  let ?s1 = "s\<lparr>heap := h0, tasks := (\<lambda>i. if i < 10 then (tasks s i)\<lparr>PID := -1\<rparr> else tasks s i)\<rparr>"
  let ?body = "\<lambda>i s. k_list_add_tail (ThreadList i) Free_threadqueue (upd_thread i (\<lambda>t. t\<lparr>TID := -1\<rparr>) s)"
  let ?s = "\<lambda>n h. s\<lparr>heap := h,
     tasks := (\<lambda>i. if i < 10 then (tasks s i)\<lparr>PID := -1\<rparr> else tasks s i),
     threads := (\<lambda>i. if i < n then (threads s i)\<lparr>TID := -1\<rparr> else threads s i)\<rparr>"
  let ?I = "\<lambda>n s'. \<exists>h. s' = ?s n h \<and> shape h (heads {}) (free_lists 0 n)
    \<and> (\<forall>m. h (MutexBlocked m) = heap s (MutexBlocked m))"
  have start: "?I 0 (k_INIT_LIST_HEAD Free_threadqueue (k_INIT_LIST_HEAD Readyqueue ?s1))"
  proof -
    have e: "(free_tasks 0 10)(Readyqueue := []) = free_tasks 0 10"
      "(free_tasks 0 10)(Free_threadqueue := []) = free_lists 0 0"
      by (simp_all add: free_tasks_def free_lists_def fun_eq_iff)
    have "shape ?h1 (insert Readyqueue (boot_heads 10)) (free_tasks 0 10)"
      using shape_init [OF h0(2), of Readyqueue] queued_free_tasks e(1) by fastforce
    then have "shape ?h2 (heads {}) (free_lists 0 0)"
      unfolding heads_boot using shape_init [of ?h1 _ "free_tasks 0 10" Free_threadqueue]
        queued_free_tasks e(2) by fastforce
    then show ?thesis
      by (intro exI [of _ ?h2]) (simp add: k_INIT_LIST_HEAD_def INIT_other h0(3))
  qed
  have step: "\<exists>s2. ?body i s1 = Some s2 \<and> ?I (Suc i) s2" if "?I i s1" for i s1
  proof -
    from that obtain h where h: "s1 = ?s i h" "shape h (heads {}) (free_lists 0 i)"
      "\<forall>m. h (MutexBlocked m) = heap s (MutexBlocked m)" by blast
    obtain h3 where h3: "list_add_tail (ThreadList i) Free_threadqueue h = Some h3"
      "shape h3 (heads {}) (free_lists 0 (Suc i))" "\<And>m. h3 (MutexBlocked m) = h (MutexBlocked m)"
      by (rule free_thread_round [OF h(2)]) (rule that)
    have "?body i s1 = Some (?s (Suc i) h3)"
      using h3(1) by (simp add: h(1) k_list_add_tail_case less_Suc_eq fun_eq_iff)
    then show ?thesis using h3(2,3) h(3) by auto
  qed
  have "\<exists>s'. for_loop 0 10 ?body (k_INIT_LIST_HEAD Free_threadqueue (k_INIT_LIST_HEAD Readyqueue ?s1)) = Some s' \<and> ?I 10 s'"
    by (rule for_loop_invariant [where I = ?I]) (use start step in simp_all)
  then show thesis using that h0(1) by (auto simp: init_sched_def init_freethreadqueue_def)
qed

text \<open>Taking the first task and the first thread off the free lists.\<close>

lemma take_first_pair:
  assumes "shape h (heads {}) (free_lists i 10)" and "i < 10"
  obtains h1 h2 where "list_first Freequeue h = Some (TaskList i)" "list_del (TaskList i) h = Some h1"
    "list_first Free_threadqueue h1 = Some (ThreadList i)" "list_del (ThreadList i) h1 = Some h2"
    "shape h2 (heads {}) (free_lists (Suc i) 10)"
    "\<And>m. h2 (MutexBlocked m) = h (MutexBlocked m)"
proof -
  let ?Q = "free_lists i 10" and ?H = "heads {}"
  have split: "[i..<10] = i # [Suc i..<10]" using assms(2) by (rule upt_conv_Cons)
  have q: "?Q Freequeue = TaskList i # map TaskList [Suc i..<10]"
    by (simp only: free_lists_def fun_upd_apply lnode.distinct if_False if_True split list.map simp_thms)
  obtain h1 where h1: "list_del (TaskList i) h = Some h1"
    "shape h1 ?H (?Q(Freequeue := map TaskList [Suc i..<10]))"
    "\<And>x. x \<notin> ?H \<Longrightarrow> \<not> queued ?H ?Q x \<Longrightarrow> h1 x = h x"
    using lq.del_law [OF assms(1), of Freequeue "TaskList i"] q by auto
  let ?Q1 = "?Q(Freequeue := map TaskList [Suc i..<10])"
  have q1: "?Q1 Free_threadqueue = ThreadList i # map ThreadList [Suc i..<10]"
    by (simp only: free_lists_def fun_upd_apply lnode.distinct if_False if_True split list.map simp_thms)
  obtain h2 where h2: "list_del (ThreadList i) h1 = Some h2"
    "shape h2 ?H (?Q1(Free_threadqueue := map ThreadList [Suc i..<10]))"
    "\<And>x. x \<notin> ?H \<Longrightarrow> \<not> queued ?H ?Q1 x \<Longrightarrow> h2 x = h1 x"
    using lq.del_law [OF h1(2), of Free_threadqueue "ThreadList i"] q1 by auto
  have "?Q1(Free_threadqueue := map ThreadList [Suc i..<10]) = free_lists (Suc i) 10"
    by (simp add: free_lists_def fun_eq_iff)
  moreover have "h2 (MutexBlocked m) = h (MutexBlocked m)" for m
  proof -
    have "\<not> queued ?H ?Q (MutexBlocked m)" using queued_free_lists by fastforce
    moreover from this have "\<not> queued ?H ?Q1 (MutexBlocked m)"
      by (rule not_queued_shrink) (auto simp: q)
    ultimately show ?thesis using h1(3) h2(3) by simp
  qed
  moreover have "list_first Freequeue h = Some (TaskList i)"
    using lq.first_law [OF assms(1), of Freequeue] q by simp
  moreover have "list_first Free_threadqueue h1 = Some (ThreadList i)"
    using lq.first_law [OF h1(2), of Free_threadqueue] q1 by simp
  ultimately show thesis using h1(1) h2(1,2) by (intro that [of h1 h2]) simp_all
qed


section \<open>Mapping fresh frames\<close>

text \<open>A run of \<open>map_new_page\<close> maps consecutive pages to the frames of a run of allocations.\<close>

definition mapped_run :: "(u32 \<Rightarrow> page_table_entry) \<Rightarrow> nat \<Rightarrow> u32 list \<Rightarrow> page_table \<Rightarrow> page_table" where
  "mapped_run ent base fs T =
     (\<lambda>p. if base \<le> p \<and> p < base + length fs then ent (fs ! (p - base)) else T p)"

lemma mapped_run_Cons: "mapped_run ent (Suc base) fs (T(base := ent f)) = mapped_run ent base (f # fs) T"
proof
  fix p
  consider "p < base" | "p = base" | k where "p = Suc (base + k)"
    by (metis less_imp_Suc_add linorder_neqE_nat)
  then show "mapped_run ent (Suc base) fs (T(base := ent f)) p = mapped_run ent base (f # fs) T p"
    by cases (auto simp: mapped_run_def Suc_diff_le)
qed

lemma take_frames_length: "take_frames a n m = (fs, m') \<Longrightarrow> length fs = n"
  by (induction n arbitrary: m fs) (auto split: prod.splits)

lemma map_new_pages:
  assumes "\<And>T page f. set_pag T page f = T(page := ent f)"
    and "take_frames alloc_frame n (phys_mem s) = (fs, m')"
  shows "for_each lo (lo + n) (\<lambda>pag. map_new_page set_pag PT (base + pag)) s =
    s\<lparr>phys_mem := m', pagusr_table := (pagusr_table s)(PT := mapped_run ent (base + lo) fs (pagusr_table s PT))\<rparr>"
  using assms(2)
proof (induction n arbitrary: lo s fs)
  case 0
  have "mapped_run ent (base + lo) [] T = T" for T by (auto simp: mapped_run_def fun_eq_iff)
  with 0 show ?case by simp
next
  case (Suc n)
  obtain f m1 where f: "alloc_frame (phys_mem s) = (f, m1)" by fastforce
  obtain gs where gs: "take_frames alloc_frame n m1 = (gs, m')" "fs = f # gs"
    using Suc.prems f by (auto split: prod.splits)
  let ?s1 = "map_new_page set_pag PT (base + lo) s"
  have s1: "?s1 = s\<lparr>phys_mem := m1, pagusr_table := (pagusr_table s)(PT := (pagusr_table s PT)(base + lo := ent f))\<rparr>"
    by (simp add: map_new_page_def f upd_table_def assms(1))
  then have "take_frames alloc_frame n (phys_mem ?s1) = (gs, m')" using gs(1) by simp
  from Suc.IH [OF this, of "Suc lo"]
  have "for_each (Suc lo) (Suc lo + n) (\<lambda>pag. map_new_page set_pag PT (base + pag)) ?s1 =
    ?s1\<lparr>phys_mem := m', pagusr_table := (pagusr_table ?s1)(PT := mapped_run ent (Suc (base + lo)) gs (pagusr_table ?s1 PT))\<rparr>"
    by (simp only: add_Suc add_Suc_right)
  then show ?case by (simp add: for_each_step s1 mapped_run_Cons gs(2)) (simp add: fun_upd_def)
qed

definition code_entry :: "u32 \<Rightarrow> page_table_entry" where
  "code_entry f = set_present True (set_user True (set_pbase_addr f 0))"

lemma set_code_pag_eq: "set_code_pag PT page f = PT(page := code_entry f)"
  by (simp add: set_code_pag_def code_entry_def)

lemma code_entry_fields [simp]:
  "pte_present (code_entry f)" "\<not> pte_rw (code_entry f)" "pte_user (code_entry f)"
  "pbase_addr (code_entry f) = f AND 0xFFFFF"
  by (simp_all add: code_entry_def)

definition user_pages :: "u32 list \<Rightarrow> u32 list \<Rightarrow> page_table \<Rightarrow> page_table" where
  "user_pages cs ds T = mapped_run user_entry 264 ds (mapped_run code_entry 256 cs T)"

lemma set_user_pages_eq:
  assumes "get_PT s t = Some PT" and "take_frames alloc_frame 8 (phys_mem s) = (cs, m1)"
    and "take_frames alloc_frame 20 m1 = (ds, m2)"
  shows "set_user_pages t s = Some (s\<lparr>phys_mem := m2,
    pagusr_table := (pagusr_table s)(PT := user_pages cs ds (pagusr_table s PT))\<rparr>)"
proof -
  let ?s1 = "s\<lparr>phys_mem := m1, pagusr_table := (pagusr_table s)
       (PT := mapped_run code_entry 256 cs (pagusr_table s PT))\<rparr>"
  have "for_each 0 (0 + 8) (\<lambda>pag. map_new_page set_code_pag PT (256 + pag)) s = ?s1"
    using map_new_pages [OF set_code_pag_eq assms(2), where lo = 0 and PT = PT and base = 256] by simp
  moreover have "take_frames alloc_frame 20 (phys_mem ?s1) = (ds, m2)" using assms(3) by simp
  from map_new_pages [OF set_ss_pag_eq this, where lo = 0 and PT = PT and base = 264]
  have "for_each 0 (0 + 20) (\<lambda>pag. map_new_page set_ss_pag PT (264 + pag)) ?s1 = s\<lparr>phys_mem := m2,
      pagusr_table := (pagusr_table s)(PT := user_pages cs ds (pagusr_table s PT))\<rparr>"
    by (simp add: user_pages_def)
  ultimately show ?thesis using assms(1) by (simp add: set_user_pages_def)
qed

lemma user_pages_at:
  assumes "length cs = 8" and "length ds = 20"
  shows "user_pages cs ds T p =
    (if 256 \<le> p \<and> p < 264 then code_entry (cs ! (p - 256))
     else if 264 \<le> p \<and> p < 284 then user_entry (ds ! (p - 264)) else T p)"
  using assms by (simp add: user_pages_def mapped_run_def)


section \<open>The first two threads\<close>

text \<open>The descriptors after each phase.\<close>

definition idle_thread :: "symbols \<Rightarrow> thread_struct \<Rightarrow> thread_struct" where
  "idle_thread \<sigma> t = t\<lparr>TID := 0,
     kstack := (kstack t)(1023 := cpu_idle_addr \<sigma>, 1022 := 0), register_esp := stack_addr \<sigma> 0 1022\<rparr>"

definition idle_proc :: "symbols \<Rightarrow> task_struct \<Rightarrow> task_struct" where
  "idle_proc \<sigma> t = t\<lparr>PID := 0, total_quantum := 20, task_dir := dir_addr \<sigma> 0\<rparr>"

definition first_thread :: "symbols \<Rightarrow> thread_struct \<Rightarrow> thread_struct" where
  "first_thread \<sigma> t = t\<lparr>TID := 1, thread_dir := dir_addr \<sigma> 1, thread_p := Some 1,
     thread_state := ST_RUN, quantum := 10\<rparr>"

definition first_proc :: "symbols \<Rightarrow> task_struct \<Rightarrow> task_struct" where
  "first_proc \<sigma> t = t\<lparr>PID := 1, total_quantum := 20, task_state := ST_RUN,
     task_dir := dir_addr \<sigma> 1, nthread := 2\<rparr>"

lemma init_idle_eq:
  assumes "layout_ok (sym s)" and "shape (heap s) (heads {}) (free_lists 0 10)"
  obtains h where "init_idle s = Some (s\<lparr>heap := h,
       tasks := (tasks s)(0 := idle_proc (sym s) (tasks s 0)),
       threads := (threads s)(0 := idle_thread (sym s) (threads s 0)), idle_task := Some 0\<rparr>)"
    and "shape h (heads {}) (free_lists 1 10)"
    and "\<And>m. h (MutexBlocked m) = heap s (MutexBlocked m)"
proof -
  obtain h1 h2 where h: "list_first Freequeue (heap s) = Some (TaskList 0)"
    "list_del (TaskList 0) (heap s) = Some h1"
    "list_first Free_threadqueue h1 = Some (ThreadList 0)" "list_del (ThreadList 0) h1 = Some h2"
    "shape h2 (heads {}) (free_lists (Suc 0) 10)"
    "\<And>m. h2 (MutexBlocked m) = heap s (MutexBlocked m)"
    by (rule take_first_pair [OF assms(2)]) simp_all
  have n: "task_at (sym s) (list_head_to_task_struct (sym s) (TaskList 0)) = Some 0"
    "thread_at (sym s) (list_head_to_thread_struct (sym s) (ThreadList 0)) = Some 0"
    using assms(1) by (simp_all add: task_of_node thread_of_node)
  show thesis
    using h(1-4) n assms(1) h(5)
    by (intro that [OF _ _ h(6)]) (simp_all add: init_idle_def k_list_del_case allocate_DIR_eq
      idle_proc_def idle_thread_def DEFAULT_QUANTUM_P_def)
qed

lemma init_task1_eq:
  assumes "layout_ok (sym s)" and "dirs_ok s" and "shape (heap s) (heads {}) (free_lists 1 10)"
    and "take_frames alloc_frame 8 (phys_mem s) = (cs, m1)" and "take_frames alloc_frame 20 m1 = (ds, m2)"
  obtains h where "init_task1 s = Some (s\<lparr>heap := h, remaining_quantum_p := 20,
       phys_mem := m2,
       pagusr_table := (pagusr_table s)(1 := user_pages cs ds (pagusr_table s 1)),
       tasks := (tasks s)(1 := first_proc (sym s) (tasks s 1)),
       threads := (threads s)(1 := first_thread (sym s) (threads s 1)), remaining_quantum_t := 10,
       tss_esp0 := stack_addr (sym s) 1 1024, msr_esp := stack_addr (sym s) 1 1024,
       cr3 := dir_addr (sym s) 1\<rparr>)"
    and "shape h (heads {}) (free_lists 2 10)"
    and "\<And>m. h (MutexBlocked m) = heap s (MutexBlocked m)"
proof -
  obtain h1 h2 where h: "list_first Freequeue (heap s) = Some (TaskList 1)"
    "list_del (TaskList 1) (heap s) = Some h1"
    "list_first Free_threadqueue h1 = Some (ThreadList 1)" "list_del (ThreadList 1) h1 = Some h2"
    "shape h2 (heads {}) (free_lists (Suc 1) 10)"
    "\<And>m. h2 (MutexBlocked m) = heap s (MutexBlocked m)"
    by (rule take_first_pair [OF assms(3)]) simp_all
  have n: "task_at (sym s) (list_head_to_task_struct (sym s) (TaskList 1)) = Some 1"
    "thread_at (sym s) (list_head_to_thread_struct (sym s) (ThreadList 1)) = Some 1"
    using assms(1) by (simp_all add: task_of_node thread_of_node)
  let ?s5 = "s\<lparr>heap := h2, remaining_quantum_p := 20, tasks := (tasks s)(1 := (tasks s 1)\<lparr>PID := 1,
     total_quantum := 20, task_state := ST_RUN, nthread := 1, task_dir := dir_addr (sym s) 1\<rparr>)\<rparr>"
  have "get_PT_of_dir ?s5 (dir_addr (sym ?s5) 1) = Some 1"
    using assms(1,2) by (intro get_PT_of_dir_addr) (simp_all add: dirs_ok_def)
  then have "get_PT ?s5 1 = Some 1" by (simp add: get_PT_def)
  then have u: "set_user_pages 1 ?s5 = Some (?s5\<lparr>phys_mem := m2,
      pagusr_table := (pagusr_table ?s5)(1 := user_pages cs ds (pagusr_table ?s5 1))\<rparr>)"
    using assms(4,5) by (intro set_user_pages_eq) simp_all
  show thesis
  proof (rule that [of h2])
    show "shape h2 (heads {}) (free_lists 2 10)" using h(5) by (simp add: numeral_2_eq_2)
    show "init_task1 s = Some (s\<lparr>heap := h2, remaining_quantum_p := 20,
       phys_mem := m2,
       pagusr_table := (pagusr_table s)(1 := user_pages cs ds (pagusr_table s 1)),
       tasks := (tasks s)(1 := first_proc (sym s) (tasks s 1)),
       threads := (threads s)(1 := first_thread (sym s) (threads s 1)), remaining_quantum_t := 10,
       tss_esp0 := stack_addr (sym s) 1 1024, msr_esp := stack_addr (sym s) 1 1024,
       cr3 := dir_addr (sym s) 1\<rparr>)"
      using h(1-4) n assms(1) u
      by (simp add: init_task1_def k_list_del_case allocate_DIR_eq first_proc_def first_thread_def
          DEFAULT_QUANTUM_P_def DEFAULT_QUANTUM_T_def set_kernel_stack_def set_cr3_def Let_def)
  qed (rule h(6))
qed


section \<open>The state the start-up leaves\<close>

definition boot_queues :: "lnode \<Rightarrow> lnode list" where
  "boot_queues = free_lists 2 10"

lemma unat_dir_task:
  "user_pages cs ds T 0 = T 0" if "length cs = 8" "length ds = 20"
  using that by (simp add: user_pages_at)

lemma boot_frames:
  assumes "take_frames alloc_frame 8 (init_frames m) = (cs, m1)" and "take_frames alloc_frame 20 m1 = (ds, m2)"
  shows "length cs = 8" "length ds = 20" "distinct (cs @ ds)"
    and "\<And>f. f \<in> set (cs @ ds) \<Longrightarrow> pool_frame (unat f) \<and> unat f \<notin> free_frames m2"
    and "card (free_frames m2) = 356"
proof -
  have c: "card (free_frames (init_frames m)) = 384" by (simp only: free_frames_init card_pool)
  note t1 = fp.take_frames_spec [OF _ assms(1)]
  have p1: "length cs = 8" "distinct cs" "unat ` set cs \<subseteq> free_frames (init_frames m)"
    "free_frames m1 = free_frames (init_frames m) - unat ` set cs"
    using t1 c by simp_all
  have inj: "inj_on unat A" for A :: "u32 set" by (rule inj_onI) (simp add: word_unat_eq_iff)
  have k1: "card (unat ` set cs) = 8" using p1(1,2) by (simp add: card_image [OF inj] distinct_card)
  have c1: "card (free_frames m1) = 376" using p1(3,4) c k1 by (simp add: card_Diff_subset)
  note t2 = fp.take_frames_spec [OF _ assms(2)]
  have p2: "length ds = 20" "distinct ds" "unat ` set ds \<subseteq> free_frames m1"
    "free_frames m2 = free_frames m1 - unat ` set ds"
    using t2 c1 by simp_all
  have k2: "card (unat ` set ds) = 20" using p2(1,2) by (simp add: card_image [OF inj] distinct_card)
  show "card (free_frames m2) = 356" using p2(3,4) c1 k2 by (simp add: card_Diff_subset)
  show "length cs = 8" "length ds = 20" by (fact p1(1) p2(1))+
  show "distinct (cs @ ds)" using p1 p2 by auto
  show "pool_frame (unat f) \<and> unat f \<notin> free_frames m2" if "f \<in> set (cs @ ds)" for f
  proof -
    have "unat f \<in> free_frames (init_frames m)" "unat f \<notin> free_frames m2" using that p1 p2 by auto
    then show ?thesis by (simp add: free_frames_def)
  qed
qed

text \<open>The data pages of the first process.\<close>

lemma boot_data_pages:
  fixes \<sigma> T
  assumes "take_frames alloc_frame 8 (init_frames m) = (cs, m1)" and "take_frames alloc_frame 20 m1 = (ds, m2)"
  defines "PT \<equiv> user_pages cs ds (init_table \<sigma> T)"
  shows "\<And>p. 264 \<le> p \<Longrightarrow> p < 284 \<Longrightarrow> pte_present (PT p) \<and> pool_frame (unat (pbase_addr (PT p)))
      \<and> unat (pbase_addr (PT p)) \<notin> free_frames m2"
    and "inj_on (\<lambda>p. pbase_addr (PT p)) {264..<284}"
proof -
  note fr = boot_frames [OF assms(1,2)]
  have d: "pool_frame (unat (ds ! (p - 264)))" "unat (ds ! (p - 264)) \<notin> free_frames m2" if "264 \<le> p" "p < 284" for p
    using fr(4) [of "ds ! (p - 264)"] that fr(2) by auto
  have e: "pbase_addr (PT p) = ds ! (p - 264) \<and> pte_present (PT p)" if "264 \<le> p" "p < 284" for p
  proof -
    have "ds ! (p - 264) AND 0xFFFFF = ds ! (p - 264)" using d(1) [OF that] by (intro and_20_bits) (simp add: pool_frame_def)
    then show ?thesis using that by (simp add: PT_def user_pages_at [OF fr(1,2)])
  qed
  with d show "pte_present (PT p) \<and> pool_frame (unat (pbase_addr (PT p))) \<and> unat (pbase_addr (PT p)) \<notin> free_frames m2"
    if "264 \<le> p" "p < 284" for p using that by simp
  show "inj_on (\<lambda>p. pbase_addr (PT p)) {264..<284}"
  proof (rule inj_onI)
    fix p q :: nat assume pq: "p \<in> {264..<284}" "q \<in> {264..<284}" and f: "pbase_addr (PT p) = pbase_addr (PT q)"
    have "ds ! (p - 264) = ds ! (q - 264)" using f pq e [of p] e [of q] by simp
    moreover have "distinct ds" using fr(3) by simp
    ultimately have "p - 264 = q - 264" using pq fr(2) nth_eq_iff_index_eq [of ds "p - 264" "q - 264"] by auto
    then show "p = q" using pq by auto
  qed
qed

lemma init_kernel_eq:
  assumes "layout_ok \<sigma>" and "take_frames alloc_frame 8 (init_frames (\<lambda>_. 0)) = (cs, m1)"
    and "take_frames alloc_frame 20 m1 = (ds, m2)" and "s = kernel0 \<sigma> mem video sp\<lparr>con := c\<rparr>"
  obtains s' h where "init_kernel s = Some s'" "shape h (heads {}) boot_queues"
    "\<And>m. h (MutexBlocked m) = \<lparr>lh_next = None, lh_prev = None\<rparr>"
    "sym s' = \<sigma>" "heap s' = h" "dirs_ok s'"
    "\<And>i. i < 10 \<Longrightarrow> task_state (tasks s' i) = ST_RUN" "task_dir (tasks s' 1) = dir_addr \<sigma> 1"
    "threads s' 0 = idle_thread \<sigma> (thread0\<lparr>TID := -1\<rparr>)" "threads s' 1 = first_thread \<sigma> (thread0\<lparr>TID := -1\<rparr>)"
    "idle_task s' = Some 0" "phys_mem s' = m2"
    "pagusr_table s' 1 = user_pages cs ds (init_table \<sigma> (\<lambda>_. 0))"
    "remaining_quantum_p s' = 20" "remaining_quantum_t s' = 10" "on_cpu s' 1 1"
    "ram s' = mem" "con s' = c" "mutexes s' = (\<lambda>_. \<lparr>locked = 0, owner = 0\<rparr>)"
    "PID (tasks s' 1) = 1" "global_PID s' = 1000" "nthread (tasks s' 1) = 2" "total_quantum (tasks s' 1) = 20"
    "TID (threads s' 1) = 1"
proof -
  define s1 where s1: "s1 = init_mm (init_stacks s)"
  have e1: "s1 = s\<lparr>msr_esp := INITIAL_ESP \<sigma>, tss_esp0 := INITIAL_ESP \<sigma>,
     pagusr_table := (\<lambda>j. if j < 10 then init_table \<sigma> (\<lambda>_. 0) else (\<lambda>_. 0)),
     phys_mem := init_frames (\<lambda>_. 0),
     dir_pages := (\<lambda>i. if i < 10
       then set_ss_pag (\<lambda>_. 0) 0 (drop_bit 12 (elem_addr (pagusr_base \<sigma>) i)) else (\<lambda>_. 0)),
     tasks := (\<lambda>_. task0)(0 := task0\<lparr>task_dir := dir_addr \<sigma> 0\<rparr>), cr3 := dir_addr \<sigma> 0\<rparr>"
    using assms(1,4) by (simp add: s1 init_mm_eq init_stacks_def kernel0_def cong: if_cong)
  have d1: "dirs_ok s1" using assms(1,4) by (simp add: s1 init_mm_dirs_ok init_stacks_def kernel0_def)
  have sy: "sym s1 = \<sigma>" using assms(4) by (simp add: e1 kernel0_def)
  obtain h1 where h1: "init_sched s1 = Some (s1\<lparr>heap := h1,
       tasks := (\<lambda>i. if i < 10 then (tasks s1 i)\<lparr>PID := -1\<rparr> else tasks s1 i),
       threads := (\<lambda>i. if i < 10 then (threads s1 i)\<lparr>TID := -1\<rparr> else threads s1 i)\<rparr>)"
    "shape h1 (heads {}) (free_lists 0 10)" "\<And>m. h1 (MutexBlocked m) = heap s1 (MutexBlocked m)"
    by (rule init_sched_eq [of s1]) (rule that)
  define s2 where e2: "s2 = s1\<lparr>heap := h1,
       tasks := (\<lambda>i. if i < 10 then (tasks s1 i)\<lparr>PID := -1\<rparr> else tasks s1 i),
       threads := (\<lambda>i. if i < 10 then (threads s1 i)\<lparr>TID := -1\<rparr> else threads s1 i)\<rparr>"
  have l2: "layout_ok (sym s2)" and p2: "shape (heap s2) (heads {}) (free_lists 0 10)"
    using assms(1) sy h1(2) by (simp_all add: e2)
  obtain h2 where h2: "init_idle s2 = Some (s2\<lparr>heap := h2,
       tasks := (tasks s2)(0 := idle_proc (sym s2) (tasks s2 0)),
       threads := (threads s2)(0 := idle_thread (sym s2) (threads s2 0)), idle_task := Some 0\<rparr>)"
    "shape h2 (heads {}) (free_lists 1 10)" "\<And>m. h2 (MutexBlocked m) = heap s2 (MutexBlocked m)"
    by (rule init_idle_eq [OF l2 p2]) (rule that)
  define s3 where e3: "s3 = s2\<lparr>heap := h2,
       tasks := (tasks s2)(0 := idle_proc (sym s2) (tasks s2 0)),
       threads := (threads s2)(0 := idle_thread (sym s2) (threads s2 0)), idle_task := Some 0\<rparr>"
  have l3: "layout_ok (sym s3)" and d3: "dirs_ok s3" and p3: "shape (heap s3) (heads {}) (free_lists 1 10)"
    and t3: "take_frames alloc_frame 8 (phys_mem s3) = (cs, m1)"
    using l2 d1 h2(2) assms(2) by (simp_all add: e3 e2 dirs_ok_def e1)
  obtain h3 where h3: "init_task1 s3 = Some (s3\<lparr>heap := h3, remaining_quantum_p := 20,
       phys_mem := m2,
       pagusr_table := (pagusr_table s3)(1 := user_pages cs ds (pagusr_table s3 1)),
       tasks := (tasks s3)(1 := first_proc (sym s3) (tasks s3 1)),
       threads := (threads s3)(1 := first_thread (sym s3) (threads s3 1)), remaining_quantum_t := 10,
       tss_esp0 := stack_addr (sym s3) 1 1024, msr_esp := stack_addr (sym s3) 1 1024,
       cr3 := dir_addr (sym s3) 1\<rparr>)"
    "shape h3 (heads {}) (free_lists 2 10)" "\<And>m. h3 (MutexBlocked m) = heap s3 (MutexBlocked m)"
    by (rule init_task1_eq [OF l3 d3 p3 t3 assms(3)]) (rule that)
  have "init_kernel s = Some (s3\<lparr>heap := h3, remaining_quantum_p := 20,
       phys_mem := m2,
       pagusr_table := (pagusr_table s3)(1 := user_pages cs ds (pagusr_table s3 1)),
       tasks := (tasks s3)(1 := first_proc (sym s3) (tasks s3 1)),
       threads := (threads s3)(1 := first_thread (sym s3) (threads s3 1)), remaining_quantum_t := 10,
       tss_esp0 := stack_addr (sym s3) 1 1024, msr_esp := stack_addr (sym s3) 1 1024,
       cr3 := dir_addr (sym s3) 1\<rparr>)"
    using h1(1) h2(1) h3(1) by (simp add: init_kernel_def s1 e2 e3)
  then show thesis
  proof (rule that)
    show "shape h3 (heads {}) boot_queues" using h3(2) by (simp add: boot_queues_def)
    show "h3 (MutexBlocked m) = \<lparr>lh_next = None, lh_prev = None\<rparr>" for m
      using h1(3) h2(3) h3(3) assms(4) by (simp add: e3 e2 e1 kernel0_def)
  qed (use d3 in \<open>simp_all add: e3 e2 e1 assms(4) kernel0_def dirs_ok_def on_cpu_def first_proc_def
      first_thread_def idle_proc_def task0_def\<close>)
qed


lemma boot_queues_simps [simp]:
  "boot_queues Readyqueue = []" "boot_queues (ReadyThreads i) = []" "boot_queues (BlockedThreads i) = []"
  "boot_queues (MutexBlocked m) = []"
  "boot_queues Freequeue = map TaskList [2..<10]" "boot_queues Free_threadqueue = map ThreadList [2..<10]"
  by (simp_all add: boot_queues_def free_lists_def)

lemma boot_not_queued:
  "i < 2 \<Longrightarrow> \<not> queued (heads {}) boot_queues (TaskList i)"
  "i < 2 \<Longrightarrow> \<not> queued (heads {}) boot_queues (ThreadList i)"
  unfolding boot_queues_def by (auto dest!: queued_free_lists)

lemma boot_member_ok:
  assumes "a \<in> heads {}" and "n \<in> set (boot_queues a)"
  shows "member_ok s boot_queues c a n"
  using assms by (cases a) auto

lemma init_kernel_kinv:
  assumes "layout_ok \<sigma>" and "take_frames alloc_frame 8 (init_frames (\<lambda>_. 0)) = (cs, m1)"
    and "take_frames alloc_frame 20 m1 = (ds, m2)"
  obtains s' where "init_kernel (kernel0 \<sigma> mem video sp\<lparr>con := c\<rparr>) = Some s'" "kinv s' boot_queues {} 1 1"
    "phys_mem s' = m2" "pagusr_table s' 1 = user_pages cs ds (init_table \<sigma> (\<lambda>_. 0))"
    "remaining_quantum_p s' = 20" "remaining_quantum_t s' = 10" "ram s' = mem" "con s' = c"
    "mutexes s' = (\<lambda>_. \<lparr>locked = 0, owner = 0\<rparr>)" "PID (tasks s' 1) = 1" "global_PID s' = 1000"
    "sym s' = \<sigma>" "saved_ok \<sigma> 0 (register_esp (threads s' 0))" "dirs_ok s'" "cr3 s' = dir_addr \<sigma> 1"
    "nthread (tasks s' 1) = 2" "total_quantum (tasks s' 1) = 20"
    "TID (threads s' 1) = 1" "register_esp (threads s' 1) = 0"
proof -
  obtain s' h where s': "init_kernel (kernel0 \<sigma> mem video sp\<lparr>con := c\<rparr>) = Some s'"
    "shape h (heads {}) boot_queues"
    "\<And>m. h (MutexBlocked m) = \<lparr>lh_next = None, lh_prev = None\<rparr>"
    "sym s' = \<sigma>" "heap s' = h" "dirs_ok s'"
    "\<And>i. i < 10 \<Longrightarrow> task_state (tasks s' i) = ST_RUN" "task_dir (tasks s' 1) = dir_addr \<sigma> 1"
    "threads s' 0 = idle_thread \<sigma> (thread0\<lparr>TID := -1\<rparr>)" "threads s' 1 = first_thread \<sigma> (thread0\<lparr>TID := -1\<rparr>)"
    "idle_task s' = Some 0" "phys_mem s' = m2"
    "pagusr_table s' 1 = user_pages cs ds (init_table \<sigma> (\<lambda>_. 0))"
    "remaining_quantum_p s' = 20" "remaining_quantum_t s' = 10" "on_cpu s' 1 1"
    "ram s' = mem" "con s' = c" "mutexes s' = (\<lambda>_. \<lparr>locked = 0, owner = 0\<rparr>)"
    "PID (tasks s' 1) = 1" "global_PID s' = 1000" "nthread (tasks s' 1) = 2" "total_quantum (tasks s' 1) = 20"
    "TID (threads s' 1) = 1"
    by (rule init_kernel_eq [OF assms refl]) (rule that)
  have "idle_ok s' boot_queues {}"
    using s'(9,11) boot_not_queued(2) [of 0] by (simp add: idle_ok_def idle_thread_def thread0_def)
  then have "kmid s' boot_queues {} 1"
    using s'(2-6) assms(1) boot_member_ok by (simp add: kmid_def unmade_mutexes_def)
  moreover have "proc_running s' boot_queues {} 1"
    using s'(4,7,8) boot_not_queued(1) [of 1] by (simp add: proc_running_def)
  moreover have "thread_running s' boot_queues {} 1 1"
    using s'(10) boot_not_queued(2) [of 1] by (simp add: thread_running_def first_thread_def)
  ultimately have k: "kinv s' boot_queues {} 1 1" using s'(16) by (simp add: kinv_def)
  have "saved_ok \<sigma> 0 (register_esp (threads s' 0))"
    using assms(1) by (simp add: s'(9) idle_thread_def saved_ok_def stack_slot_addr)
  moreover have "cr3 s' = dir_addr \<sigma> 1" using s'(4,16) by (simp add: on_cpu_def)
  moreover have "register_esp (threads s' 1) = 0" unfolding s'(10) by (simp add: first_thread_def thread0_def)
  ultimately show thesis using s' k by (intro that [of s']) simp_all
qed


section \<open>Loading the user image\<close>

text \<open>The kernel pages are mapped to themselves, but for page 0 and the two guard pages.\<close>

definition kernel_mapped :: "symbols \<Rightarrow> nat \<Rightarrow> bool" where
  "kernel_mapped \<sigma> p \<longleftrightarrow> 1 \<le> p \<and> p < 256 \<and> p \<noteq> PH_PAGE (protected_task_addr \<sigma> 0)
     \<and> p \<noteq> PH_PAGE (protected_task_addr \<sigma> 11)"

lemma kernel_pages_eq:
  "for_each 1 256 kernel_page T =
    (\<lambda>p. if 1 \<le> p \<and> p < 256 then set_present True (set_rw True (set_pbase_addr (of_nat p) (T p))) else T p)"
proof -
  let ?I = "\<lambda>n T'. T' = (\<lambda>p. if 1 \<le> p \<and> p < n
    then set_present True (set_rw True (set_pbase_addr (of_nat p) (T p))) else T p)"
  show ?thesis
    by (rule for_each_invariant [where I = ?I]) (auto simp: kernel_page_def fun_eq_iff less_Suc_eq Let_def)
qed

lemma init_table_fields:
  assumes "p < 1024"
  shows "pte_present (init_table \<sigma> T p) \<longleftrightarrow> kernel_mapped \<sigma> p"
    and "pbase_addr (init_table \<sigma> T p) = (if 1 \<le> p \<and> p < 256 then of_nat p else 0)"
    and "\<not> pte_user (init_table \<sigma> T p)"
proof -
  have small: "of_nat p AND (0xFFFFF :: u32) = of_nat p" if "p < 256"
    using that by (intro and_20_bits) (simp add: unat_of_nat32)
  have clear: "for_each 0 1024 (\<lambda>i PT. PT(i := 0)) T = (\<lambda>x. if x < 1024 then 0 else T x)"
    by (simp add: for_each_fill)
  note e = init_table_def clear kernel_pages_eq Let_def kernel_mapped_def
  show "pte_present (init_table \<sigma> T p) \<longleftrightarrow> kernel_mapped \<sigma> p"
    using assms by (auto simp: e kernel_pages_eq [simplified])
  show "pbase_addr (init_table \<sigma> T p) = (if 1 \<le> p \<and> p < 256 then of_nat p else 0)"
    using assms small by (auto simp: e kernel_pages_eq [simplified])
  show "\<not> pte_user (init_table \<sigma> T p)"
    using assms by (auto simp: e kernel_pages_eq [simplified])
qed

text \<open>Where an address of the first process leads.\<close>

lemma boot_kaddr:
  assumes "length cs = 8" and "length ds = 20" and "\<forall>f \<in> set (cs @ ds). unat f < 1024"
  shows "kaddr (user_pages cs ds (init_table \<sigma> (\<lambda>_. 0))) a =
    (let p = unat a div 4096
     in if p < 256 then (if kernel_mapped \<sigma> p then Some (p, unat a mod 4096) else None)
        else if p < 284 then Some (unat ((cs @ ds) ! (p - 256)), unat a mod 4096) else None)"
proof -
  let ?T = "user_pages cs ds (init_table \<sigma> (\<lambda>_. 0))" and ?p = "unat a div 4096"
  have small: "f AND 0xFFFFF = f" if "f \<in> set (cs @ ds)" for f
    using assms(3) that by (intro and_20_bits) fastforce
  have c: "cs ! (?p - 256) AND 0xFFFFF = cs ! (?p - 256)" if "256 \<le> ?p" "?p < 264"
    using that assms(1) by (intro small) simp
  have d: "ds ! (?p - 264) AND 0xFFFFF = ds ! (?p - 264)" if "264 \<le> ?p" "?p < 284"
    using that assms(2) by (intro small) simp
  consider "?p < 256" | "256 \<le> ?p" "?p < 264" | "264 \<le> ?p" "?p < 284" | "284 \<le> ?p" by linarith
  then show ?thesis
  proof cases
    case 1
    then have "unat (of_nat ?p :: u32) = ?p" by (intro unat_of_nat32) simp
    with 1 show ?thesis
      using init_table_fields [of ?p \<sigma> "\<lambda>_. 0"] assms(1,2)
      by (auto simp: kaddr_def user_pages_at Let_def kernel_mapped_def)
  next
    case 2
    then have "?p - 256 < length cs" using assms(1) by simp
    with 2 show ?thesis using c assms(1,2) by (simp add: kaddr_def user_pages_at Let_def nth_append)
  next
    case 3
    then have "?p - 256 - length cs = ?p - 264" "\<not> ?p - 256 < length cs" using assms(1) by simp_all
    with 3 show ?thesis using d assms(1,2) by (simp add: kaddr_def user_pages_at Let_def nth_append)
  next
    case 4
    have "\<not> kernel_mapped \<sigma> ?p" using 4 by (simp add: kernel_mapped_def)
    with 4 show ?thesis using init_table_fields(1) [of ?p \<sigma> "\<lambda>_. 0"] assms(1,2)
      by (auto simp: kaddr_def user_pages_at Let_def)
  qed
qed


text \<open>No two addresses lead to the same byte.\<close>

lemma boot_no_alias:
  assumes "length cs = 8" and "length ds = 20" and "distinct (cs @ ds)"
    and "\<forall>f \<in> set (cs @ ds). 256 \<le> unat f \<and> unat f < 1024"
    and "kaddr (user_pages cs ds (init_table \<sigma> (\<lambda>_. 0))) a = kaddr (user_pages cs ds (init_table \<sigma> (\<lambda>_. 0))) b"
    and "256 \<le> unat b div 4096" and "unat b div 4096 < 284"
  shows "a = b"
proof -
  let ?p = "unat a div 4096" and ?r = "unat b div 4096" and ?fs = "cs @ ds"
  have small: "\<forall>f \<in> set ?fs. unat f < 1024" using assms(4) by blast
  note k = boot_kaddr [OF assms(1,2) small]
  have len: "length ?fs = 28" using assms(1,2) by simp
  have nb: "?fs ! (?r - 256) \<in> set ?fs" using assms(6,7) len by (intro nth_mem) linarith
  have kb: "kaddr (user_pages cs ds (init_table \<sigma> (\<lambda>_. 0))) b = Some (unat (?fs ! (?r - 256)), unat b mod 4096)"
    using assms(6,7) by (simp add: k Let_def)
  then have ka: "kaddr (user_pages cs ds (init_table \<sigma> (\<lambda>_. 0))) a = Some (unat (?fs ! (?r - 256)), unat b mod 4096)"
    using assms(5) by simp
  have "\<not> ?p < 256"
    using ka bspec [OF assms(4) nb] by (auto simp: k Let_def split: if_splits)
  moreover from this ka have "?p < 284" by (auto simp: k Let_def split: if_splits)
  ultimately have p: "256 \<le> ?p" "?p < 284" by simp_all
  with ka have e: "?fs ! (?p - 256) = ?fs ! (?r - 256)" "unat a mod 4096 = unat b mod 4096"
    by (auto simp: k Let_def word_unat_eq_iff)
  then have "?p - 256 = ?r - 256"
    using assms(3,6,7) p len nth_eq_iff_index_eq [of ?fs "?p - 256" "?r - 256"] by (simp add: less_diff_conv2)
  then have "?p = ?r" using assms(6) p by simp
  then have "unat a = unat b" using e(2) by (metis div_mult_mod_eq)
  then show ?thesis by (simp add: word_unat_eq_iff)
qed

definition image_word :: "frames \<Rightarrow> nat \<Rightarrow> u32" where
  "image_word mem k = ucast (mem 16 k) OR push_bit 8 (ucast (mem 16 (k + 1)))
     OR push_bit 16 (ucast (mem 16 (k + 2))) OR push_bit 24 (ucast (mem 16 (k + 3)))"

text \<open>
  What the boot loader and \<open>build\<close> leave: the user image behind the system image, on
  pages the kernel maps, and small enough for the 28 user pages.
\<close>

definition image_ok :: "symbols \<Rightarrow> frames \<Rightarrow> bool" where
  "image_ok \<sigma> mem \<longleftrightarrow> kernel_mapped \<sigma> 16
     \<and> unat (image_word mem 4) \<le> 28 * 4096
     \<and> 0x10000 + unat (image_word mem 0) + unat (image_word mem 4) \<le> 0x100000
     \<and> (\<forall>i < unat (image_word mem 4). kernel_mapped \<sigma> ((0x10000 + unat (image_word mem 0) + i) div 4096))"

text \<open>The three words in front of the image, and where its user part lies.\<close>

lemma image_header:
  assumes "length cs = 8" and "length ds = 20" and "\<forall>f \<in> set (cs @ ds). unat f < 1024" and "kernel_mapped \<sigma> 16"
  shows "j < 12 \<Longrightarrow> vread (user_pages cs ds (init_table \<sigma> (\<lambda>_. 0))) m (of_nat (65536 + j)) = Some (m 16 j)"
    and "vload32 (user_pages cs ds (init_table \<sigma> (\<lambda>_. 0))) m KERNEL_START = Some (image_word m 0)"
    and "vload32 (user_pages cs ds (init_table \<sigma> (\<lambda>_. 0))) m (KERNEL_START + 4) = Some (image_word m 4)"
    and "vload32 (user_pages cs ds (init_table \<sigma> (\<lambda>_. 0))) m (KERNEL_START + 8) = Some (image_word m 8)"
proof -
  let ?T = "user_pages cs ds (init_table \<sigma> (\<lambda>_. 0))"
  show rd: "vread ?T m (of_nat (65536 + j)) = Some (m 16 j)" if "j < 12" for j
  proof -
    have "unat (of_nat (65536 + j) :: u32) = 65536 + j" using that by (intro unat_of_nat32) simp
    moreover have "(65536 + j) div 4096 = 16" using that by simp
    moreover have "(16 * 4096 + j) mod 4096 = j" using that by (simp only: mod_mult_self3) simp
    ultimately show ?thesis using assms(4) by (simp add: vread_def boot_kaddr [OF assms(1-3)] Let_def del: of_nat_add)
  qed
  show "vload32 ?T m KERNEL_START = Some (image_word m 0)" "vload32 ?T m (KERNEL_START + 4) = Some (image_word m 4)"
    "vload32 ?T m (KERNEL_START + 8) = Some (image_word m 8)"
    using rd [of 0] rd [of 1] rd [of 2] rd [of 3] rd [of 4] rd [of 5] rd [of 6] rd [of 7] rd [of 8] rd [of 9] rd [of 10] rd [of 11]
    by (simp_all add: vload32_def image_word_def KERNEL_START_def numeral_2_eq_2)
qed

lemma image_places:
  assumes "image_ok \<sigma> mem" and "i \<le> unat (image_word mem 4)"
  shows "unat (KERNEL_START + image_word mem 0 + of_nat i) = 65536 + unat (image_word mem 0) + i"
    and "unat (usr_main + of_nat i) = 1048576 + i"
proof -
  have ok: "unat (image_word mem 4) \<le> 114688" "65536 + unat (image_word mem 0) + unat (image_word mem 4) \<le> 1048576"
    using assms(1) by (simp_all add: image_ok_def)
  have "unat (KERNEL_START + image_word mem 0) = 65536 + unat (image_word mem 0)"
    unfolding KERNEL_START_def using ok(2) by (subst unat_add32) simp_all
  then show "unat (KERNEL_START + image_word mem 0 + of_nat i) = 65536 + unat (image_word mem 0) + i"
    using ok(2) assms(2) by (subst unat_add_of_nat32) simp_all
  show "unat (usr_main + of_nat i) = 1048576 + i"
    unfolding usr_main_def using ok(1) assms(2) by (subst unat_add_of_nat32) simp_all
qed

lemma image_copied:
  assumes "image_ok \<sigma> mem" and "length cs = 8" and "length ds = 20" and "distinct (cs @ ds)"
    and "\<forall>f \<in> set (cs @ ds). 256 \<le> unat f \<and> unat f < 1024"
  defines "T \<equiv> user_pages cs ds (init_table \<sigma> (\<lambda>_. 0))"
  obtains m where "copy_mapped T (KERNEL_START + image_word mem 0) usr_main (sint (image_word mem 4)) mem = Some m"
    and "\<And>i. i < unat (image_word mem 4) \<Longrightarrow> vread T m (usr_main + of_nat i) =
      Some (mem ((0x10000 + unat (image_word mem 0) + i) div 4096)
             ((0x10000 + unat (image_word mem 0) + i) mod 4096))"
    and "\<And>a. unat (image_word mem 4) \<le> unat (a - usr_main) \<Longrightarrow> view T m a = view T mem a"
proof -
  let ?S = "image_word mem 0" and ?U = "image_word mem 4"
  have small: "\<forall>f \<in> set (cs @ ds). unat f < 1024" using assms(5) by blast
  note k = boot_kaddr [OF assms(2,3) small, of \<sigma>, folded T_def]
  have ok: "unat ?U \<le> 114688" "65536 + unat ?S + unat ?U \<le> 1048576"
    "\<And>i. i < unat ?U \<Longrightarrow> kernel_mapped \<sigma> ((65536 + unat ?S + i) div 4096)"
    using assms(1) by (simp_all add: image_ok_def)
  note up = image_places(1) [OF assms(1)] and uq = image_places(2) [OF assms(1)]
  have n: "nat (sint ?U) = unat ?U"
    using sint_small32 [of ?U] ok(1) by simp
  let ?p = "KERNEL_START + ?S"
  have page: "256 \<le> unat (usr_main + of_nat i) div 4096" "unat (usr_main + of_nat i) div 4096 < 284"
    if "i < unat ?U" for i
    using uq [of i] that ok(1) by auto
  have nov: "no_overlap ?p usr_main (nat (sint ?U))"
    unfolding n no_overlap_def using up [of 0] uq [of 0] ok(1,2) by simp
  have mapped: "kaddr T (?p + of_nat i) = Some ((65536 + unat ?S + i) div 4096, (65536 + unat ?S + i) mod 4096)"
    if "i < unat ?U" for i
    using that up [of i] ok(2) ok(3) [OF that] by (simp add: k Let_def kernel_mapped_def)
  have mapped': "kaddr T (usr_main + of_nat i) \<noteq> None" if "i < unat ?U" for i
    using page [OF that] by (simp add: k Let_def)
  obtain m where m: "copy_mapped T ?p usr_main (sint ?U) (mem) = Some m"
    "view T m = copy_data ?p usr_main (sint ?U) (view T (mem))"
  proof -
    have "\<exists>m. copy_mapped T ?p usr_main (sint ?U) (mem) = Some m
        \<and> view T m = copy_data ?p usr_main (sint ?U) (view T (mem))"
      using mapped mapped' boot_no_alias [OF assms(2-5), of \<sigma>, folded T_def] page
      unat_less32 [of ?U]
      by (intro copy_mapped_data [OF nov]) (auto simp: n)
    then show thesis using that by blast
  qed
  show thesis
  proof (rule that [OF m(1)])
    fix i assume i: "i < unat ?U"
    have "view T m (usr_main + of_nat i) = view T mem (?p + of_nat i)"
      using i unat_less32 [of ?U] by (simp add: m(2) copy_data_copied [OF nov] n copied_at)
    then show "vread T m (usr_main + of_nat i) = Some (mem ((0x10000 + unat ?S + i) div 4096)
             ((0x10000 + unat ?S + i) mod 4096))"
      using mapped [OF i] mapped' [OF i] by (auto simp: view_def vread_def)
  next
    show "view T m a = view T mem a" if "unat ?U \<le> unat (a - usr_main)" for a
      using that unat_less32 [of ?U] by (simp add: m(2) copy_data_copied [OF nov] n copied_def)
  qed
qed

lemma load_user_image_eq:
  assumes "mmu_table s = Some (user_pages cs ds (init_table \<sigma> (\<lambda>_. 0)))" and "image_ok \<sigma> (ram s)"
    and "length cs = 8" and "length ds = 20" and "distinct (cs @ ds)"
    and "\<forall>f \<in> set (cs @ ds). 256 \<le> unat f \<and> unat f < 1024"
  obtains m where "load_user_image s = Some (s\<lparr>ram := m\<rparr>)"
    and "\<And>i. i < unat (image_word (ram s) 4) \<Longrightarrow>
      vread (user_pages cs ds (init_table \<sigma> (\<lambda>_. 0))) m (usr_main + of_nat i) =
      Some (ram s ((0x10000 + unat (image_word (ram s) 0) + i) div 4096)
             ((0x10000 + unat (image_word (ram s) 0) + i) mod 4096))"
    and "vload32 (user_pages cs ds (init_table \<sigma> (\<lambda>_. 0))) m (KERNEL_START + 8) = Some (image_word (ram s) 8)"
proof -
  let ?T = "user_pages cs ds (init_table \<sigma> (\<lambda>_. 0))" and ?U = "image_word (ram s) 4"
  have small: "\<forall>f \<in> set (cs @ ds). unat f < 1024" using assms(6) by blast
  have ok: "kernel_mapped \<sigma> 16" "unat ?U \<le> 114688" using assms(2) by (simp_all add: image_ok_def)
  note hd = image_header [OF assms(3,4) small ok(1)]
  obtain m where m: "copy_mapped ?T (KERNEL_START + image_word (ram s) 0) usr_main (sint ?U) (ram s) = Some m"
    "\<And>i. i < unat ?U \<Longrightarrow> vread ?T m (usr_main + of_nat i) =
      Some (ram s ((0x10000 + unat (image_word (ram s) 0) + i) div 4096)
             ((0x10000 + unat (image_word (ram s) 0) + i) mod 4096))"
    "\<And>a. unat ?U \<le> unat (a - usr_main) \<Longrightarrow> view ?T m a = view ?T (ram s) a"
    by (rule image_copied [OF assms(2-6)]) (rule that)
  have kept: "m 16 j = ram s 16 j" if "j < 12" for j
  proof -
    have "(of_nat (65536 + j) :: u32) - usr_main = of_nat (2 ^ 32 - 983040 + j)" by (simp add: usr_main_def)
    moreover have "(2::nat) ^ 32 - 983040 + j < 2 ^ 32" using that by simp
    ultimately have "unat ((of_nat (65536 + j) :: u32) - usr_main) = 2 ^ 32 - 983040 + j" by (simp only: unat_of_nat32)
    then have "view ?T m (of_nat (65536 + j)) = view ?T (ram s) (of_nat (65536 + j))"
      using ok(2) by (intro m(3)) simp
    then show ?thesis by (simp only: view_def hd(1) [OF that] option.case)
  qed
  have "image_word m 8 = image_word (ram s) 8"
    using kept [of 8] kept [of 9] kept [of 10] kept [of 11] by (simp add: image_word_def)
  then have "vload32 ?T m (KERNEL_START + 8) = Some (image_word (ram s) 8)" by (simp only: hd(4))
  moreover have "load_user_image s = Some (s\<lparr>ram := m\<rparr>)"
    using assms(1) hd(2,3) [of "ram s"] m(1) by (simp add: load_user_image_def)
  ultimately show thesis using m(2) by (intro that [of m])
qed


lemma cstring_prints:
  assumes "\<And>c. c \<in> set s \<Longrightarrow> (of_char c :: u8) \<noteq> 0"
  shows "\<exists>d'. printk (cstring s) d = Some d' \<and> port_e9 d' = port_e9 d @ map of_char s
    \<and> (on_screen d \<longrightarrow> on_screen d')"
  using assms printk_port [of "map of_char s" "[]" d] by (fastforce simp: cstring_def)

definition loaded_msg :: string where
  "loaded_msg = ''Kernel Loaded!    '' @ [CHR 0x0A]"

definition entering_msg :: string where
  "entering_msg = ''Entering user mode...'' @ [CHR 0x0A]"

lemma boot_messages:
  "c \<in> set loaded_msg \<union> set entering_msg \<Longrightarrow> (of_char c :: u8) \<noteq> 0"
  by (auto simp: loaded_msg_def entering_msg_def)

lemma main_eq:
  assumes "layout_ok \<sigma>" and "image_ok \<sigma> mem"
    and "take_frames alloc_frame 8 (init_frames (\<lambda>_. 0)) = (cs, m1)"
    and "take_frames alloc_frame 20 m1 = (ds, m2)"
  obtains s' where "main (kernel0 \<sigma> mem video sp) = Some s'" "kinv s' boot_queues {} 1 1"
    "phys_mem s' = m2" "mmu_table s' = Some (user_pages cs ds (init_table \<sigma> (\<lambda>_. 0)))"
    "pagusr_table s' 1 = user_pages cs ds (init_table \<sigma> (\<lambda>_. 0))"
    "remaining_quantum_p s' = 20" "remaining_quantum_t s' = 10"
    "mutexes s' = (\<lambda>_. \<lparr>locked = 0, owner = 0\<rparr>)" "PID (tasks s' 1) = 1" "global_PID s' = 1000"
    "sym s' = \<sigma>" "saved_ok \<sigma> 0 (register_esp (threads s' 0))"
    "port_e9 (con s') = map of_char (loaded_msg @ entering_msg)" "on_screen (con s')"
    "\<And>i. i < unat (image_word mem 4) \<Longrightarrow>
      vread (user_pages cs ds (init_table \<sigma> (\<lambda>_. 0))) (ram s') (usr_main + of_nat i) =
      Some (mem ((0x10000 + unat (image_word mem 0) + i) div 4096)
             ((0x10000 + unat (image_word mem 0) + i) mod 4096))"
    "vload32 (user_pages cs ds (init_table \<sigma> (\<lambda>_. 0))) (ram s') (KERNEL_START + 8) = Some (image_word mem 8)"
proof -
  have scr: "on_screen (console_init video)" by (simp add: on_screen_def console_init_def)
  obtain c1 where c1: "printk (cstring loaded_msg) (console_init video) = Some c1"
    "port_e9 c1 = map of_char loaded_msg" "on_screen c1"
    using cstring_prints [of loaded_msg "console_init video"] boot_messages scr
    by (auto simp: console_init_def)
  obtain s1 where s1: "init_kernel (kernel0 \<sigma> mem video sp\<lparr>con := c1\<rparr>) = Some s1" "kinv s1 boot_queues {} 1 1"
    "phys_mem s1 = m2" "pagusr_table s1 1 = user_pages cs ds (init_table \<sigma> (\<lambda>_. 0))"
    "remaining_quantum_p s1 = 20" "remaining_quantum_t s1 = 10" "ram s1 = mem" "con s1 = c1"
    "mutexes s1 = (\<lambda>_. \<lparr>locked = 0, owner = 0\<rparr>)" "PID (tasks s1 1) = 1" "global_PID s1 = 1000"
    "sym s1 = \<sigma>" "saved_ok \<sigma> 0 (register_esp (threads s1 0))" "dirs_ok s1" "cr3 s1 = dir_addr \<sigma> 1"
    "nthread (tasks s1 1) = 2" "total_quantum (tasks s1 1) = 20"
    "TID (threads s1 1) = 1" "register_esp (threads s1 1) = 0"
    by (rule init_kernel_kinv [OF assms(1,3,4)]) (rule that)
  note fr = boot_frames [OF assms(3,4)]
  have "get_PT_of_dir s1 (dir_addr (sym s1) 1) = Some 1"
    using s1(12,14) assms(1) by (intro get_PT_of_dir_addr) simp_all
  then have mmu: "mmu_table s1 = Some (user_pages cs ds (init_table \<sigma> (\<lambda>_. 0)))"
    using s1(4,12,15) by (simp add: mmu_table_def)
  have pool: "\<forall>f \<in> set (cs @ ds). 256 \<le> unat f \<and> unat f < 1024"
    using fr(4) by (auto simp: pool_frame_def)
  have img: "image_ok \<sigma> (ram s1)" using assms(2) s1(7) by simp
  obtain m where m: "load_user_image s1 = Some (s1\<lparr>ram := m\<rparr>)"
    "\<And>i. i < unat (image_word (ram s1) 4) \<Longrightarrow>
      vread (user_pages cs ds (init_table \<sigma> (\<lambda>_. 0))) m (usr_main + of_nat i) =
      Some (ram s1 ((0x10000 + unat (image_word (ram s1) 0) + i) div 4096)
             ((0x10000 + unat (image_word (ram s1) 0) + i) mod 4096))"
    "vload32 (user_pages cs ds (init_table \<sigma> (\<lambda>_. 0))) m (KERNEL_START + 8) = Some (image_word (ram s1) 8)"
    by (rule load_user_image_eq [OF mmu img fr(1-3) pool]) (rule that)
  obtain c2 where c2: "printk (cstring entering_msg) c1 = Some c2"
    "port_e9 c2 = port_e9 c1 @ map of_char entering_msg" "on_screen c2"
    using cstring_prints [of entering_msg c1] boot_messages c1(3) by auto
  let ?s = "s1\<lparr>ram := m, con := c2\<rparr>"
  have "con (kernel0 \<sigma> mem video sp) = console_init video" by (simp add: kernel0_def)
  then have "main (kernel0 \<sigma> mem video sp) = Some ?s"
    using c1(1) s1(1,8) m(1) c2(1) by (simp add: main_def loaded_msg_def entering_msg_def)
  moreover have "kinv ?s boot_queues {} 1 1" using s1(2) kinv_cong [of ?s s1] by simp
  moreover have "mmu_table ?s = Some (user_pages cs ds (init_table \<sigma> (\<lambda>_. 0)))"
    using mmu by (simp add: mmu_table_def get_PT_of_dir_def)
  ultimately show thesis
    using s1 m(2,3) c1(2) c2(2,3) by (intro that [of ?s]) simp_all
qed

end
