(* ===== verification/Policy.thy ===== *)
theory Policy
  imports SchedProofs
begin

text \<open>
  The scheduling policy without pointers: which thread of which process runs, the
  processes waiting in order, the ready threads of each process in order, and the two
  remaining quanta. \<open>rr_tick\<close> is what one clock tick means for such a view; the
  refinement theorem at the end says that \<open>schedule\<close> on the linked lists, the
  descriptors and the stacks does exactly this.
\<close>

section \<open>The abstract scheduler\<close>

record rr =
  rr_thread :: nat
  rr_process :: nat
  rr_ready :: "nat list"
  rr_threads :: "nat \<Rightarrow> nat list"
  rr_qt :: u32
  rr_qp :: u32

text \<open>The running thread, and with \<open>rr_requeue_process\<close> its process, go to the end of the line.\<close>

definition rr_requeue_thread :: "rr \<Rightarrow> rr" where
  "rr_requeue_thread v =
     v\<lparr>rr_threads := (rr_threads v)(rr_process v := rr_threads v (rr_process v) @ [rr_thread v])\<rparr>"

definition rr_requeue_process :: "rr \<Rightarrow> rr" where
  "rr_requeue_process v = rr_requeue_thread (v\<lparr>rr_ready := rr_ready v @ [rr_process v]\<rparr>)"

text \<open>The first ready thread of the running process runs for a fresh thread quantum.\<close>

definition rr_next_thread :: "(nat \<Rightarrow> u32) \<Rightarrow> rr \<Rightarrow> rr" where
  "rr_next_thread TQ v =
     (let p = rr_process v; t = hd (rr_threads v p)
      in v\<lparr>rr_thread := t, rr_threads := (rr_threads v)(p := tl (rr_threads v p)), rr_qt := TQ t\<rparr>)"

text \<open>The first ready process runs its first ready thread, for fresh quanta.\<close>

definition rr_next_process :: "(nat \<Rightarrow> u32) \<Rightarrow> (nat \<Rightarrow> u32) \<Rightarrow> rr \<Rightarrow> rr" where
  "rr_next_process PQ TQ v =
     (let p = hd (rr_ready v)
      in rr_next_thread TQ (v\<lparr>rr_process := p, rr_ready := tl (rr_ready v), rr_qp := PQ p\<rparr>))"

definition rr_tick :: "(nat \<Rightarrow> u32) \<Rightarrow> (nat \<Rightarrow> u32) \<Rightarrow> rr \<Rightarrow> rr" where
  "rr_tick PQ TQ v =
     (let v1 = v\<lparr>rr_qt := rr_qt v - 1, rr_qp := rr_qp v - 1\<rparr>
      in if rr_qp v1 = 0 \<and> rr_ready v1 \<noteq> [] then rr_next_process PQ TQ (rr_requeue_process v1)
         else if rr_qt v1 = 0 \<and> rr_threads v1 (rr_process v1) \<noteq> []
         then rr_next_thread TQ (rr_requeue_thread v1)
         else v1\<lparr>rr_qp := (if rr_qp v1 = 0 then PQ (rr_process v1) else rr_qp v1),
                 rr_qt := (if rr_qt v1 = 0 then TQ (rr_thread v1) else rr_qt v1)\<rparr>)"

text \<open>The view of a concrete state.\<close>

definition sched_view :: "kernel \<Rightarrow> (lnode \<Rightarrow> lnode list) \<Rightarrow> nat \<Rightarrow> nat \<Rightarrow> rr" where
  "sched_view s Q c cp =
     \<lparr>rr_thread = c, rr_process = cp, rr_ready = map elem_index (Q Readyqueue),
      rr_threads = (\<lambda>i. map elem_index (Q (ReadyThreads i))),
      rr_qt = remaining_quantum_t s, rr_qp = remaining_quantum_p s\<rparr>"

section \<open>The decision\<close>

lemma needs_sched_eq:
  assumes "shape (heap s) (heads M) Q" and "current_t s = Some c" and "current_p s = Some cp" and "cp < 10"
  shows "needs_sched_rr s = Some
    (if remaining_quantum_p s = 0 \<and> Q Readyqueue \<noteq> [] then (1, s)
     else if remaining_quantum_t s = 0 \<and> Q (ReadyThreads cp) \<noteq> [] then (2, s)
     else (0, s\<lparr>remaining_quantum_p := (if remaining_quantum_p s = 0 then total_quantum (tasks s cp)
                                        else remaining_quantum_p s),
                remaining_quantum_t := (if remaining_quantum_t s = 0 then quantum (threads s c)
                                        else remaining_quantum_t s)\<rparr>))"
proof -
  have e: "list_empty Readyqueue (heap s) \<longleftrightarrow> Q Readyqueue = []"
    "list_empty (ReadyThreads cp) (heap s) \<longleftrightarrow> Q (ReadyThreads cp) = []"
    using assms(1,4) by (auto intro!: shape_empty_iff)
  have ct: "current_t (s\<lparr>remaining_quantum_p := q\<rparr>) = Some c" for q
    using assms(2) by (simp add: current_t_def)
  show ?thesis
    using assms(2,3) ct by (simp add: needs_sched_rr_def e get_quantum_p_def get_quantum_t_def)
qed

lemma needs_sched_kinv:
  assumes "kinv s Q M c cp" and "in_kernel s c" and "needs_sched_rr s = Some (0, s')"
  shows "kinv s' Q M c cp \<and> in_kernel s' c"
proof -
  have e: "heap s' = heap s" "sym s' = sym s" "tasks s' = tasks s" "threads s' = threads s"
    "dir_pages s' = dir_pages s" "idle_task s' = idle_task s" "tss_esp0 s' = tss_esp0 s"
    "msr_esp s' = msr_esp s" "cr3 s' = cr3 s" "esp s' = esp s" "ebp s' = ebp s"
    using assms(3) kinv_current [OF assms(1,2)]
      needs_sched_eq [OF kmid_shape [OF kinv_kmid [OF assms(1)]], of c cp] kinv_proc [OF assms(1)]
    by (auto simp: proc_running_def split: if_splits)
  show ?thesis using assms(1,2) kinv_cong [OF e(2,1,3-9)] in_kernel_cong [OF e(2,10,11)] by simp
qed

section \<open>Refinement\<close>

text \<open>No switch changes the quanta the processes and threads are entitled to.\<close>

definition same_quanta :: "kernel \<Rightarrow> kernel \<Rightarrow> bool" where
  "same_quanta s s' \<longleftrightarrow> get_quantum_p s' = get_quantum_p s \<and> get_quantum_t s' = get_quantum_t s"

lemma same_quantaI:
  "(\<And>i. total_quantum (tasks s' i) = total_quantum (tasks s i)) \<Longrightarrow>
     (\<And>i. quantum (threads s' i) = quantum (threads s i)) \<Longrightarrow> same_quanta s s'"
  by (simp add: same_quanta_def fun_eq_iff get_quantum_p_def get_quantum_t_def)

lemma same_quanta_trans: "same_quanta s s1 \<Longrightarrow> same_quanta s1 s2 \<Longrightarrow> same_quanta s s2"
  by (simp add: same_quanta_def)

text \<open>The running thread goes to the end of its process's line and the first one runs.\<close>

lemma thread_switch_step:
  assumes "kinv s Q M c cp" and "in_kernel s c"
    and "Q (ReadyThreads cp) = [] \<Longrightarrow> saved_ok (sym s) c (register_esp (threads s c))"
  obtains s1 s' Q' c' where "update_thread_state_rr c (Some (ReadyThreads cp)) s = Some s1"
    and "sched_next_thread_rr s1 = Some s'" and "kinv s' Q' M c' cp"
    and "sched_view s' Q' c' cp = rr_next_thread (get_quantum_t s) (rr_requeue_thread (sched_view s Q c cp))"
    and "same_rest s s'" and "tasks s' = tasks s"
    and "\<And>a. a \<noteq> ReadyThreads cp \<Longrightarrow> Q' a = Q a" and "same_quanta s s'"
proof -
  obtain h1 s1 where u: "update_thread_state_rr c (Some (ReadyThreads cp)) s = Some s1"
    and s1: "s1 = s\<lparr>heap := h1, threads := (threads s)(c := (threads s c)\<lparr>thread_state :=
         (if ReadyThreads cp \<noteq> ReadyThreads cp then ST_BLOCKED else ST_READY)\<rparr>)\<rparr>"
    and km: "kmid s1 (Q(ReadyThreads cp := Q (ReadyThreads cp) @ [ThreadList c])) M c"
    and pr: "proc_running s1 (Q(ReadyThreads cp := Q (ReadyThreads cp) @ [ThreadList c])) M cp"
    by (rule requeue_thread [OF assms(1,2) disjI1 [OF refl]])
  let ?Q = "Q(ReadyThreads cp := Q (ReadyThreads cp) @ [ThreadList c])"
  have cp: "cp < 10" using kinv_proc [OF assms(1)] by (simp add: proc_running_def)
  have own: "thread_p (threads s1 c) = Some cp" and cq: "\<not> queued (heads M) Q (ThreadList c)"
    using s1 kinv_thread [OF assms(1)] by (simp_all add: thread_running_def)
  have ink: "in_kernel s1 c" using assms(2) in_kernel_cong [of s1 s c] s1 by simp
  have ne: "?Q (ReadyThreads cp) \<noteq> []" by simp
  have same: "hd (?Q (ReadyThreads cp)) = ThreadList c \<Longrightarrow> saved_ok (sym s1) c (register_esp (threads s1 c))"
    using assms(3) s1 cq cp queuedI [of "ReadyThreads cp" "heads M" "hd (Q (ReadyThreads cp))" Q]
    by (cases "Q (ReadyThreads cp)") auto
  obtain s' t ts where s': "sched_next_thread_rr s1 = Some s'" "?Q (ReadyThreads cp) = ThreadList t # ts"
    "kinv s' (?Q(ReadyThreads cp := ts)) M t cp" "remaining_quantum_p s' = remaining_quantum_p s1"
    "remaining_quantum_t s' = quantum (threads s1 t)" "same_rest s1 s'" "tasks s' = tasks s1"
    "threads s' = handed_over c t (ebp s1) (threads s1)" "esp s' = register_esp (threads s1 t)"
    by (rule next_thread_step [OF km ink own pr ne same])
  have "map elem_index (Q (ReadyThreads cp)) @ [c] = t # map elem_index ts"
    using arg_cong [OF s'(2), of "map elem_index"] by simp
  then have "sched_view s' (?Q(ReadyThreads cp := ts)) t cp
      = rr_next_thread (get_quantum_t s) (rr_requeue_thread (sched_view s Q c cp))"
    using s'(4,5) s1 by (auto simp: sched_view_def rr_next_thread_def rr_requeue_thread_def Let_def
      get_quantum_t_def fun_eq_iff)
  moreover have "same_rest s s'" using s'(6) s1 by (simp add: same_rest_def)
  moreover have "same_quanta s s'" using s'(7,8) s1 by (intro same_quantaI) simp_all
  ultimately show thesis using u s' s1 by (intro that [of s1 s' "?Q(ReadyThreads cp := ts)" t]) simp_all
qed

text \<open>The running thread and its process go to the end of their lines; the first process runs.\<close>

lemma requeued_first:
  assumes "kinv s Q M c cp" and "Q Readyqueue \<noteq> []"
    and Q': "Q' = Q(Readyqueue := Q Readyqueue @ [TaskList cp], ReadyThreads cp := Q (ReadyThreads cp) @ [ThreadList c])"
    and "kmid s' Q' M c"
    and "hd (Q' Readyqueue) = TaskList p"
  shows "p \<noteq> cp" and "hd (Q' (ReadyThreads p)) \<noteq> ThreadList c"
proof -
  have cp: "\<not> queued (heads M) Q (TaskList cp)" using kinv_proc [OF assms(1)] by (simp add: proc_running_def)
  have cq: "\<not> queued (heads M) Q (ThreadList c)" using kinv_thread [OF assms(1)] by (simp add: thread_running_def)
  from assms(2,5) have q: "TaskList p \<in> set (Q Readyqueue)" by (cases "Q Readyqueue") (auto simp: Q')
  then show pcp: "p \<noteq> cp" using cp queuedI [of Readyqueue "heads M" "TaskList p" Q] by auto
  have "TaskList p \<in> set (Q' Readyqueue)" using q by (simp add: Q')
  then have r: "p < 10" "Q' (ReadyThreads p) \<noteq> []" using kmid_ready_proc [OF assms(4)] by blast+
  show "hd (Q' (ReadyThreads p)) \<noteq> ThreadList c"
  proof
    assume hd: "hd (Q' (ReadyThreads p)) = ThreadList c"
    have "queued (heads M) Q (ThreadList c)"
      using r pcp hd hd_in_set [of "Q (ReadyThreads p)"] by (intro queuedI [of "ReadyThreads p"]) (simp_all add: Q')
    with cq show False by contradiction
  qed
qed

lemma process_switch_step:
  assumes "kinv s Q M c cp" and "in_kernel s c" and "Q Readyqueue \<noteq> []"
  obtains s1 s2 s' Q' c' cp' where "update_process_state_rr cp (Some Readyqueue) s = Some s1"
    and "current_t s1 = Some c" and "current_p s1 = Some cp"
    and "update_thread_state_rr c (Some (ReadyThreads cp)) s1 = Some s2"
    and "sched_next_process_rr s2 = Some s'" and "kinv s' Q' M c' cp'"
    and "sched_view s' Q' c' cp' =
      rr_next_process (get_quantum_p s) (get_quantum_t s) (rr_requeue_process (sched_view s Q c cp))"
    and "same_rest s s'" and "same_quanta s s'"
proof -
  let ?Q = "Q(Readyqueue := Q Readyqueue @ [TaskList cp], ReadyThreads cp := Q (ReadyThreads cp) @ [ThreadList c])"
  obtain h1 s1 s2 where u: "update_process_state_rr cp (Some Readyqueue) s = Some s1"
    "current_t s1 = Some c" "current_p s1 = Some cp"
    "update_thread_state_rr c (Some (ReadyThreads cp)) s1 = Some s2"
    and s2: "s2 = s\<lparr>heap := h1, tasks := (tasks s)(cp := (tasks s cp)\<lparr>task_state := ST_READY\<rparr>),
         threads := (threads s)(c := (threads s c)\<lparr>thread_state := ST_READY\<rparr>)\<rparr>"
    and km: "kmid s2 ?Q M c"
    by (rule requeue_process [OF assms(1,2)])
  have ink: "in_kernel s2 c" using assms(2) in_kernel_cong [of s2 s c] s2 by simp
  have ne: "?Q Readyqueue \<noteq> []" by simp
  obtain s' p ps t ts where s': "sched_next_process_rr s2 = Some s'" "?Q Readyqueue = TaskList p # ps"
    "?Q (ReadyThreads p) = ThreadList t # ts" "p < 10"
    "kinv s' (?Q(Readyqueue := ps, ReadyThreads p := ts)) M t p"
    "remaining_quantum_p s' = total_quantum (tasks s2 p)"
    "remaining_quantum_t s' = quantum (threads s2 t)" "same_rest s2 s'"
    "tasks s' = (tasks s2)(p := (tasks s2 p)\<lparr>task_state := ST_RUN\<rparr>)"
    "threads s' = handed_over c t (ebp s2) (threads s2)"
    by (rule next_process_step [OF km ink ne requeued_first(2) [OF assms(1,3) refl km]])
  have pcp: "p \<noteq> cp" using requeued_first(1) [OF assms(1,3) refl km, of p] s'(2) by simp
  have q1: "map elem_index (Q Readyqueue) @ [cp] = p # map elem_index ps"
    using arg_cong [OF s'(2), of "map elem_index"] by simp
  have q2: "map elem_index (Q (ReadyThreads p)) = t # map elem_index ts"
    using arg_cong [OF s'(3), of "map elem_index"] pcp by simp
  let ?v = "rr_requeue_process (sched_view s Q c cp)"
  have v: "rr_ready ?v = p # map elem_index ps" "rr_threads ?v p = t # map elem_index ts"
    using q1 q2 pcp by (simp_all add: rr_requeue_process_def rr_requeue_thread_def sched_view_def)
  have th: "(rr_threads ?v)(p := map elem_index ts) =
      (\<lambda>i. map elem_index ((?Q(Readyqueue := ps, ReadyThreads p := ts)) (ReadyThreads i)))"
    by (rule ext) (simp add: rr_requeue_process_def rr_requeue_thread_def sched_view_def)
  have "get_quantum_p s p = total_quantum (tasks s2 p)" "get_quantum_t s t = quantum (threads s2 t)"
    using s2 by (simp_all add: get_quantum_p_def get_quantum_t_def)
  then have "sched_view s' (?Q(Readyqueue := ps, ReadyThreads p := ts)) t p =
      rr_next_process (get_quantum_p s) (get_quantum_t s) ?v"
    using s'(6,7) by (simp add: rr_next_process_def rr_next_thread_def Let_def v th)
      (simp add: sched_view_def)
  moreover have "same_rest s s'" using s'(8) s2 by (simp add: same_rest_def)
  moreover have "same_quanta s s'" using s'(9,10) s2 by (intro same_quantaI) simp_all
  ultimately show thesis
    using u s' by (intro that [of s1 s2 s' "?Q(Readyqueue := ps, ReadyThreads p := ts)" t p]) simp_all
qed

lemma ticked:
  assumes "kinv s Q M c cp" and "in_kernel s c"
  shows "kinv (update_sched_data_rr s) Q M c cp" and "in_kernel (update_sched_data_rr s) c"
    and "same_quanta s (update_sched_data_rr s)" and "same_rest s (update_sched_data_rr s)"
    and "get_quantum_p (update_sched_data_rr s) = get_quantum_p s"
    and "get_quantum_t (update_sched_data_rr s) = get_quantum_t s"
    and "sched_view (update_sched_data_rr s) Q c cp = (sched_view s Q c cp)\<lparr>
      rr_qt := remaining_quantum_t (update_sched_data_rr s), rr_qp := remaining_quantum_p (update_sched_data_rr s)\<rparr>"
proof -
  let ?s = "update_sched_data_rr s"
  have "kinv ?s Q M c cp = kinv s Q M c cp" by (rule kinv_cong) (simp_all add: update_sched_data_rr_def)
  then show "kinv ?s Q M c cp" using assms(1) by simp
  have "in_kernel ?s c = in_kernel s c" by (rule in_kernel_cong) (simp_all add: update_sched_data_rr_def)
  then show "in_kernel ?s c" using assms(2) by simp
  show "same_quanta s ?s" by (intro same_quantaI) (simp_all add: update_sched_data_rr_def)
qed (simp_all add: same_rest_def update_sched_data_rr_def get_quantum_p_def get_quantum_t_def sched_view_def fun_eq_iff)

text \<open>A tick after which nobody else may run: quanta that are used up start again.\<close>

lemma schedule_stays:
  assumes "kinv s Q M c cp" and "in_kernel s c"
    and "\<not> (remaining_quantum_p (update_sched_data_rr s) = 0 \<and> Q Readyqueue \<noteq> [])"
    and "\<not> (remaining_quantum_t (update_sched_data_rr s) = 0 \<and> Q (ReadyThreads cp) \<noteq> [])"
  obtains s' where "schedule s = Some s'" and "kinv s' Q M c cp"
    and "sched_view s' Q c cp = rr_tick (get_quantum_p s) (get_quantum_t s) (sched_view s Q c cp)"
    and "same_rest s s'" and "same_quanta s s'"
proof -
  let ?s1 = "update_sched_data_rr s"
  note k1 = ticked(1,2) [OF assms(1,2)]
  have cur: "current_t ?s1 = Some c" "current_p ?s1 = Some cp" using kinv_current [OF k1] by simp_all
  have cp: "cp < 10" using kinv_proc [OF assms(1)] by (simp add: proc_running_def)
  obtain s' where n0: "needs_sched_rr ?s1 = Some (0, s')"
    and s': "s' = ?s1\<lparr>remaining_quantum_p := (if remaining_quantum_p ?s1 = 0 then total_quantum (tasks ?s1 cp)
                                      else remaining_quantum_p ?s1),
              remaining_quantum_t := (if remaining_quantum_t ?s1 = 0 then quantum (threads ?s1 c)
                                      else remaining_quantum_t ?s1)\<rparr>"
    using assms(3,4) needs_sched_eq [OF kmid_shape [OF kinv_kmid [OF k1(1)]] cur cp] by (simp only: if_False)
  have "schedule s = Some s'" using n0 by (simp add: schedule_def)
  moreover have "kinv s' Q M c cp" using needs_sched_kinv [OF k1 n0] by simp
  moreover have "sched_view s' Q c cp = rr_tick (get_quantum_p s) (get_quantum_t s) (sched_view s Q c cp)"
    using assms(3,4) s'
    by (auto simp: sched_view_def rr_tick_def update_sched_data_rr_def Let_def
        get_quantum_p_def get_quantum_t_def)
  moreover have "same_rest s s'" using s' by (simp add: same_rest_def update_sched_data_rr_def)
  moreover have "same_quanta s s'" using s' by (intro same_quantaI) (simp_all add: update_sched_data_rr_def)
  ultimately show thesis by (rule that)
qed

lemma schedule_step:
  assumes "kinv s Q M c cp" and "in_kernel s c"
  obtains s' Q' c' cp' where "schedule s = Some s'" and "kinv s' Q' M c' cp'"
    and "sched_view s' Q' c' cp' = rr_tick (get_quantum_p s) (get_quantum_t s) (sched_view s Q c cp)"
    and "same_rest s s'" and "same_quanta s s'"
proof -
  let ?s1 = "update_sched_data_rr s"
  note k1 = ticked(1,2) [OF assms] and v0 = ticked(3) [OF assms] and v = ticked(4-7) [OF assms]
  have cur: "current_t ?s1 = Some c" "current_p ?s1 = Some cp" using kinv_current [OF k1] by simp_all
  have cp: "cp < 10" using kinv_proc [OF assms(1)] by (simp add: proc_running_def)
  have sh: "shape (heap ?s1) (heads M) Q" by (rule kmid_shape [OF kinv_kmid [OF k1(1)]])
  note needs = needs_sched_eq [OF sh cur cp]
  consider (process) "remaining_quantum_p ?s1 = 0" "Q Readyqueue \<noteq> []"
    | (thread) "\<not> (remaining_quantum_p ?s1 = 0 \<and> Q Readyqueue \<noteq> [])"
        "remaining_quantum_t ?s1 = 0" "Q (ReadyThreads cp) \<noteq> []"
    | (stay) "\<not> (remaining_quantum_p ?s1 = 0 \<and> Q Readyqueue \<noteq> [])"
        "\<not> (remaining_quantum_t ?s1 = 0 \<and> Q (ReadyThreads cp) \<noteq> [])" by blast
  then show thesis
  proof cases
    case process
    obtain s2 s3 s' Q' c' cp' where s': "update_process_state_rr cp (Some Readyqueue) ?s1 = Some s2"
      "current_t s2 = Some c" "current_p s2 = Some cp"
      "update_thread_state_rr c (Some (ReadyThreads cp)) s2 = Some s3"
      "sched_next_process_rr s3 = Some s'" "kinv s' Q' M c' cp'"
      "sched_view s' Q' c' cp' =
        rr_next_process (get_quantum_p ?s1) (get_quantum_t ?s1) (rr_requeue_process (sched_view ?s1 Q c cp))"
      "same_rest ?s1 s'" "same_quanta ?s1 s'"
      by (rule process_switch_step [OF k1 process(2)])
    have "schedule s = Some s'" using process needs cur s' by (simp add: schedule_def)
    moreover have "sched_view s' Q' c' cp' = rr_tick (get_quantum_p s) (get_quantum_t s) (sched_view s Q c cp)"
      using process s'(7) v
      by (auto simp: rr_tick_def update_sched_data_rr_def Let_def sched_view_def)
    ultimately show thesis using s'(6,8,9) same_rest_trans [OF v(1)] same_quanta_trans [OF v0] by (intro that) simp_all
  next
    case thread
    have ne: "Q (ReadyThreads cp) = [] \<Longrightarrow> saved_ok (sym ?s1) c (register_esp (threads ?s1 c))"
      using thread(3) by simp
    obtain s2 s' Q' c' where s': "update_thread_state_rr c (Some (ReadyThreads cp)) ?s1 = Some s2"
      "sched_next_thread_rr s2 = Some s'" "kinv s' Q' M c' cp"
      "sched_view s' Q' c' cp = rr_next_thread (get_quantum_t ?s1) (rr_requeue_thread (sched_view ?s1 Q c cp))"
      "same_rest ?s1 s'" "tasks s' = tasks ?s1" "\<And>a. a \<noteq> ReadyThreads cp \<Longrightarrow> Q' a = Q a" "same_quanta ?s1 s'"
      by (rule thread_switch_step [OF k1 ne]) (assumption | rule that)+
    have "schedule s = Some s'" using thread needs cur s' by (auto simp: schedule_def)
    moreover have "sched_view s' Q' c' cp = rr_tick (get_quantum_p s) (get_quantum_t s) (sched_view s Q c cp)"
      using thread s'(4) v
      by (auto simp: rr_tick_def update_sched_data_rr_def Let_def sched_view_def)
    ultimately show thesis using s'(3,5,8) same_rest_trans [OF v(1)] same_quanta_trans [OF v0] by (intro that) simp_all
  next
    case stay
    then show thesis by (rule schedule_stays [OF assms]) (rule that)
  qed
qed

end
