(* ===== verification/ThreadProofs.thy ===== *)
theory ThreadProofs
  imports Syscalls Policy
begin

text \<open>The system calls on threads computed on states that satisfy the invariant.\<close>

section \<open>What the invariant reads\<close>

lemma kmid_view_cong:
  assumes "sym s' = sym s" and "heap s' = heap s" and "dir_pages s' = dir_pages s"
    and "idle_task s' = idle_task s"
    and "\<And>i. task_state (tasks s' i) = task_state (tasks s i) \<and> task_dir (tasks s' i) = task_dir (tasks s i)"
    and "\<And>t. thread_p (threads s' t) = thread_p (threads s t) \<and> thread_state (threads s' t) = thread_state (threads s t)
      \<and> register_esp (threads s' t) = register_esp (threads s t)"
  shows "kmid s' Q M c = kmid s Q M c"
proof -
  have "member_ok s' Q c a n = member_ok s Q c a n" for a n
    using assms by (cases a) (simp_all add: waits_def split: lnode.split)
  then show ?thesis using assms by (simp add: kmid_def dirs_ok_def idle_ok_def)
qed

lemma kinv_view_cong:
  assumes "sym s' = sym s" and "heap s' = heap s" and "dir_pages s' = dir_pages s"
    and "idle_task s' = idle_task s"
    and "\<And>i. task_state (tasks s' i) = task_state (tasks s i) \<and> task_dir (tasks s' i) = task_dir (tasks s i)"
    and "\<And>t. thread_p (threads s' t) = thread_p (threads s t) \<and> thread_state (threads s' t) = thread_state (threads s t)
      \<and> register_esp (threads s' t) = register_esp (threads s t)"
    and "tss_esp0 s' = tss_esp0 s" and "msr_esp s' = msr_esp s" and "cr3 s' = cr3 s"
  shows "kinv s' Q M c cp = kinv s Q M c cp"
  using kmid_view_cong [OF assms(1-6)] assms
  by (simp add: kinv_def proc_running_def thread_running_def on_cpu_def)

lemma proc_running_cong:
  "sym s' = sym s \<Longrightarrow> task_state (tasks s' p) = task_state (tasks s p) \<Longrightarrow>
     task_dir (tasks s' p) = task_dir (tasks s p) \<Longrightarrow> proc_running s' Q M p = proc_running s Q M p"
  by (simp add: proc_running_def)

lemma get_PT_of_dir_cong:
  "sym s' = sym s \<Longrightarrow> dir_pages s' = dir_pages s \<Longrightarrow> get_PT_of_dir s' d = get_PT_of_dir s d"
  by (simp add: get_PT_of_dir_def)

lemma get_PT_of_dir_upd [simp]:
  "get_PT_of_dir (s\<lparr>heap := a\<rparr>) = get_PT_of_dir s" "get_PT_of_dir (s\<lparr>tasks := b\<rparr>) = get_PT_of_dir s"
  "get_PT_of_dir (s\<lparr>threads := c\<rparr>) = get_PT_of_dir s" "get_PT_of_dir (s\<lparr>phys_mem := d\<rparr>) = get_PT_of_dir s"
  "get_PT_of_dir (s\<lparr>pagusr_table := e\<rparr>) = get_PT_of_dir s" "get_PT_of_dir (s\<lparr>ram := f\<rparr>) = get_PT_of_dir s"
  "get_PT_of_dir (s\<lparr>cr3 := g\<rparr>) = get_PT_of_dir s" "get_PT_of_dir (s\<lparr>global_PID := k\<rparr>) = get_PT_of_dir s"
  by (rule ext, simp add: get_PT_of_dir_def)+

text \<open>The page table in use is the running process's own.\<close>

lemma kinv_tables:
  assumes "kinv s Q M c cp"
  shows "get_PT s cp = Some cp" and "mmu_table s = Some (pagusr_table s cp)"
    and "get_PT_of_dir s (cr3 s) = Some cp"
proof -
  have "get_PT_of_dir s (dir_addr (sym s) cp) = Some cp"
    using kinv_kmid [OF assms] kinv_proc [OF assms]
    by (intro get_PT_of_dir_addr) (simp_all add: kmid_def proc_running_def)
  then show "get_PT s cp = Some cp" "mmu_table s = Some (pagusr_table s cp)"
    "get_PT_of_dir s (cr3 s) = Some cp"
    using kinv_proc [OF assms] kinv_cpu [OF assms]
    by (simp_all add: get_PT_def mmu_table_def proc_running_def on_cpu_def)
qed

section \<open>Yielding and joining\<close>

lemma sys_yield_step:
  assumes "kinv s Q M c cp" and "in_kernel s c"
    and "Q (ReadyThreads cp) = [] \<Longrightarrow> saved_ok (sym s) c (register_esp (threads s c))"
  obtains s' Q' c' where "sys_yield s = Some (0, s')" and "kinv s' Q' M c' cp"
    and "sched_view s' Q' c' cp = rr_next_thread (get_quantum_t s) (rr_requeue_thread (sched_view s Q c cp))"
    and "same_rest s s'"
proof -
  obtain s1 s' Q' c' where s': "update_thread_state_rr c (Some (ReadyThreads cp)) s = Some s1"
    "sched_next_thread_rr s1 = Some s'" "kinv s' Q' M c' cp"
    "sched_view s' Q' c' cp = rr_next_thread (get_quantum_t s) (rr_requeue_thread (sched_view s Q c cp))"
    "same_rest s s'" "tasks s' = tasks s" "\<And>a. a \<noteq> ReadyThreads cp \<Longrightarrow> Q' a = Q a" "same_quanta s s'"
    by (rule thread_switch_step [OF assms]) (assumption | rule that)+
  have "sys_yield s = Some (0, s')"
    using s'(1,2) kinv_current [OF assms(1,2)] by (simp add: sys_yield_def force_thread_switch_def)
  with s' show thesis by (intro that) simp_all
qed

lemma sys_pthread_join_step:
  assumes "kinv s Q M c cp" and "in_kernel s c" and "\<not> nthread (tasks s cp) < 2"
    and "load_user idp s = Some v" and "Q (ReadyThreads cp) = ThreadList t # ts"
  obtains s' where "sys_pthread_join idp value_ptr s = Some (0, s')"
    and "kinv s' (Q(BlockedThreads cp := Q (BlockedThreads cp) @ [ThreadList c], ReadyThreads cp := ts)) M t cp"
    and "blocked_by (threads s' c) = v" and "same_rest s s'" and "\<And>x. TID (threads s' x) = TID (threads s x)"
proof -
  let ?s1 = "upd_thread c (\<lambda>t. t\<lparr>blocked_by := v\<rparr>) s"
  have k1: "kinv ?s1 Q M c cp" using assms(1) kinv_view_cong [of ?s1 s] by simp
  have i1: "in_kernel ?s1 c" using assms(2) in_kernel_cong [of ?s1 s c] by simp
  obtain h1 s2 where u: "update_thread_state_rr c (Some (BlockedThreads cp)) ?s1 = Some s2"
    and s2: "s2 = ?s1\<lparr>heap := h1, threads := (threads ?s1)(c := (threads ?s1 c)\<lparr>thread_state :=
         (if BlockedThreads cp \<noteq> ReadyThreads cp then ST_BLOCKED else ST_READY)\<rparr>)\<rparr>"
    and km: "kmid s2 (Q(BlockedThreads cp := Q (BlockedThreads cp) @ [ThreadList c])) M c"
    and pr: "proc_running s2 (Q(BlockedThreads cp := Q (BlockedThreads cp) @ [ThreadList c])) M cp"
    by (rule requeue_thread [OF k1 i1 disjI2 [OF refl]])
  let ?Q = "Q(BlockedThreads cp := Q (BlockedThreads cp) @ [ThreadList c])"
  have own: "thread_p (threads s2 c) = Some cp"
    using s2 kinv_thread [OF assms(1)] by (simp add: thread_running_def)
  have ink: "in_kernel s2 c" using i1 in_kernel_cong [of s2 ?s1 c] s2 by simp
  have cp: "cp < 10" using kinv_proc [OF assms(1)] by (simp add: proc_running_def)
  have tc: "t \<noteq> c"
    using kinv_thread [OF assms(1)] assms(5) cp queuedI [of "ReadyThreads cp" "heads M" "ThreadList t" Q]
    by (auto simp: thread_running_def)
  have ne: "?Q (ReadyThreads cp) \<noteq> []" using assms(5) by simp
  have other: "hd (?Q (ReadyThreads cp)) = ThreadList c \<Longrightarrow> saved_ok (sym s2) c (register_esp (threads s2 c))"
    using assms(5) tc by simp
  obtain s' t' ts' where s': "sched_next_thread_rr s2 = Some s'" "?Q (ReadyThreads cp) = ThreadList t' # ts'"
    "kinv s' (?Q(ReadyThreads cp := ts')) M t' cp" "remaining_quantum_p s' = remaining_quantum_p s2"
    "remaining_quantum_t s' = quantum (threads s2 t')" "same_rest s2 s'" "tasks s' = tasks s2"
    "threads s' = handed_over c t' (ebp s2) (threads s2)" "esp s' = register_esp (threads s2 t')"
    by (rule next_thread_step [OF km ink own pr ne other])
  have "sys_pthread_join idp value_ptr s = Some (0, s')"
    using u s'(1) kinv_current [OF assms(1,2)] assms(3,4) by (simp add: sys_pthread_join_def)
  moreover have "kinv s' (Q(BlockedThreads cp := Q (BlockedThreads cp) @ [ThreadList c], ReadyThreads cp := ts)) M t cp"
    using s'(2,3) assms(5) by simp
  moreover have "blocked_by (threads s' c) = v" by (simp add: s'(8) s2)
  moreover have "same_rest s s'" using s'(6) s2 by (simp add: same_rest_def)
  moreover have "TID (threads s' x) = TID (threads s x)" for x by (simp add: s'(8) s2)
  ultimately show thesis by (rule that)
qed

section \<open>The loop of \<open>sys_pthread_exit\<close>\<close>

text \<open>The threads of \<open>A\<close> that wait for thread \<open>c\<close> are marked ready.\<close>

definition marked :: "nat \<Rightarrow> nat set \<Rightarrow> (nat \<Rightarrow> thread_struct) \<Rightarrow> nat \<Rightarrow> thread_struct" where
  "marked c A th = (\<lambda>x. if x \<in> A \<and> blocked_by (th x) = TID (th c) then (th x)\<lparr>thread_state := ST_READY\<rparr> else th x)"

lemma marked_fields [simp]:
  "TID (marked c A th x) = TID (th x)" "thread_p (marked c A th x) = thread_p (th x)"
  "blocked_by (marked c A th x) = blocked_by (th x)" "register_esp (marked c A th x) = register_esp (th x)"
  "quantum (marked c A th x) = quantum (th x)" "kstack (marked c A th x) = kstack (th x)"
  "thread_state (marked c A th x) =
    (if x \<in> A \<and> blocked_by (th x) = TID (th c) then ST_READY else thread_state (th x))"
  by (simp_all add: marked_def)

lemma marked_Un: "marked c B (marked c A th) = marked c (A \<union> B) th"
  by (rule ext) (auto simp: marked_def)

lemma marked_empty [simp]: "marked c {} th = th"
  by (simp add: marked_def)

lemma current_p_threads:
  "sym s' = sym s \<Longrightarrow> esp s' = esp s \<Longrightarrow> (\<And>x. thread_p (threads s' x) = thread_p (threads s x)) \<Longrightarrow>
     current_p s' = current_p s"
  by (rule current_frame(2))

text \<open>
  One round of the loop: the first waiter, if it waits for \<open>c\<close>, is marked ready and moved
  to the ready queue, but then moved back to the end of the blocked queue.
\<close>

lemma wake_round_joined:
  assumes "shape (heap s) (heads M) Q" and "p < 10" and "current_p s = Some p"
    and "Q (BlockedThreads p) = ThreadList t # r" and "thread_state (threads s t) \<noteq> ST_RUN"
    and "blocked_by (threads s t) = TID (threads s c)"
  obtains s1 s2 h where "wake_if_joined c p t s = Some s1" and "k_list_del (ThreadList t) s1 = Some s2"
    and "k_list_add_tail (ThreadList t) (BlockedThreads p) s2 =
      Some (s\<lparr>heap := h, threads := marked c {t} (threads s)\<rparr>)"
    and "shape h (heads M) (Q(BlockedThreads p := r @ [ThreadList t]))"
    and "\<And>x. x \<notin> heads M \<Longrightarrow> \<not> queued (heads M) Q x \<Longrightarrow> h x = heap s x"
proof -
  have b: "BlockedThreads p \<in> heads M" "ReadyThreads p \<in> heads M" using assms(2) by simp_all
  have tq: "ThreadList t \<in> set (Q (BlockedThreads p))" using assms(4) by simp
  let ?Q1 = "(Q(BlockedThreads p := remove1 (ThreadList t) (Q (BlockedThreads p))))
           (ReadyThreads p := (Q(BlockedThreads p := remove1 (ThreadList t) (Q (BlockedThreads p)))) (ReadyThreads p)
              @ [ThreadList t])"
  obtain h1 where h1: "update_thread_state_rr t (Some (ReadyThreads p)) s = Some (s\<lparr>heap := h1,
       threads := (threads s)(t := (threads s t)\<lparr>thread_state :=
         (if ReadyThreads p \<noteq> ReadyThreads p then ST_BLOCKED else ST_READY)\<rparr>)\<rparr>)"
    "shape h1 (heads M) ?Q1" "\<And>x. x \<notin> heads M \<Longrightarrow> \<not> queued (heads M) Q x \<Longrightarrow> h1 x = heap s x"
    by (rule update_thread_state_move [OF assms(5,3,1) b tq]) (rule that)
  have tr: "ThreadList t \<notin> set (Q (ReadyThreads p))"
    using lq.disjoint_law [OF assms(1) b tq] by auto
  have t1: "ThreadList t \<in> set (?Q1 (ReadyThreads p))" by simp
  obtain h2 h3 where h3: "list_del (ThreadList t) h1 = Some h2"
    "list_add_tail (ThreadList t) (BlockedThreads p) h2 = Some h3"
    "shape h3 (heads M) ((?Q1(ReadyThreads p := remove1 (ThreadList t) (?Q1 (ReadyThreads p))))
       (BlockedThreads p := (?Q1(ReadyThreads p := remove1 (ThreadList t) (?Q1 (ReadyThreads p)))) (BlockedThreads p)
          @ [ThreadList t]))"
    "\<And>x. x \<notin> heads M \<Longrightarrow> \<not> queued (heads M) ?Q1 x \<Longrightarrow> h3 x = h1 x"
    using lq.move [OF h1(2) b(2,1) t1] by blast
  have q: "(?Q1(ReadyThreads p := remove1 (ThreadList t) (?Q1 (ReadyThreads p))))
       (BlockedThreads p := (?Q1(ReadyThreads p := remove1 (ThreadList t) (?Q1 (ReadyThreads p)))) (BlockedThreads p)
          @ [ThreadList t]) = Q(BlockedThreads p := r @ [ThreadList t])"
    using assms(4) tr by (simp add: fun_eq_iff remove1_append)
  have fr: "h3 x = heap s x" if "x \<notin> heads M" "\<not> queued (heads M) Q x" for x
  proof -
    have "x \<noteq> ThreadList t" using that tq b by (auto simp: queued_def)
    with that have "\<not> queued (heads M) ?Q1 x" using assms(4) by (auto simp: queued_def split: if_splits)
    with that h1(3) h3(4) show ?thesis by simp
  qed
  have "(threads s)(t := (threads s t)\<lparr>thread_state := ST_READY\<rparr>) = marked c {t} (threads s)"
    using assms(6) by (auto simp: marked_def)
  with assms(6) h1(1) h3(1,2) show thesis
    using h3(3) fr unfolding q
    by (intro that [of "s\<lparr>heap := h1, threads := marked c {t} (threads s)\<rparr>"
          "s\<lparr>heap := h2, threads := marked c {t} (threads s)\<rparr>" h3])
      (simp_all add: wake_if_joined_def k_list_eqs k_list_add_tail_case)
qed

lemma wake_round:
  assumes "shape (heap s) (heads M) Q" and "p < 10" and "current_p s = Some p"
    and "Q (BlockedThreads p) = ThreadList t # r" and "thread_state (threads s t) \<noteq> ST_RUN"
  obtains s1 s2 h where "wake_if_joined c p t s = Some s1" and "k_list_del (ThreadList t) s1 = Some s2"
    and "k_list_add_tail (ThreadList t) (BlockedThreads p) s2 =
      Some (s\<lparr>heap := h, threads := marked c {t} (threads s)\<rparr>)"
    and "shape h (heads M) (Q(BlockedThreads p := r @ [ThreadList t]))"
    and "\<And>x. x \<notin> heads M \<Longrightarrow> \<not> queued (heads M) Q x \<Longrightarrow> h x = heap s x"
proof (cases "blocked_by (threads s t) = TID (threads s c)")
  case False
  have b: "BlockedThreads p \<in> heads M" using assms(2) by simp
  obtain h1 h2 where h: "list_del (ThreadList t) (heap s) = Some h1"
    "list_add_tail (ThreadList t) (BlockedThreads p) h1 = Some h2"
    "shape h2 (heads M) (Q(BlockedThreads p := r @ [ThreadList t]))"
    "\<And>x. x \<notin> heads M \<Longrightarrow> \<not> queued (heads M) Q x \<Longrightarrow> h2 x = heap s x"
    using lq.rotate_first [OF assms(1) b assms(4)] by blast
  have "marked c {t} (threads s) = threads s" using False by (auto simp: marked_def)
  with False h show thesis
    by (intro that [of s "s\<lparr>heap := h1\<rparr>" h2]) (simp_all add: wake_if_joined_def k_list_eqs k_list_add_tail_case)
next
  case True
  show thesis by (rule wake_round_joined [OF assms True]) (rule that)
qed

lemma wake_joined_spec:
  assumes "shape (heap s) (heads M) Q" and "p < 10" and "current_p s = Some p" and "layout_ok (sym s)"
    and "Q (BlockedThreads p) = map ThreadList ys @ ThreadList i # zs"
    and "\<And>t. t \<in> set ys \<Longrightarrow> t < 22 \<and> thread_state (threads s t) \<noteq> ST_RUN"
  shows "\<exists>h. wake_joined c p (ThreadList i) (hd (Q (BlockedThreads p))) s =
      Some (s\<lparr>heap := h, threads := marked c (set ys) (threads s)\<rparr>)
    \<and> shape h (heads M) (Q(BlockedThreads p := ThreadList i # zs @ map ThreadList ys))
    \<and> (\<forall>x. x \<notin> heads M \<longrightarrow> \<not> queued (heads M) Q x \<longrightarrow> h x = heap s x)"
  using assms
proof (induction ys arbitrary: s Q zs)
  case Nil
  then show ?case
    by (intro exI [of _ "heap s"]) (simp add: wake_joined.simps fun_upd_idem)
next
  case (Cons y ys)
  let ?B = "BlockedThreads p"
  have B: "Q ?B = ThreadList y # (map ThreadList ys @ ThreadList i # zs)" using Cons.prems(5) by simp
  have b: "?B \<in> heads M" using Cons.prems(2) by simp
  have yi: "y \<noteq> i" using lq.distinct_law [OF Cons.prems(1) b] B by auto
  have y: "y < 22" "thread_state (threads s y) \<noteq> ST_RUN" using Cons.prems(6) by simp_all
  obtain s1 s2 h where r: "wake_if_joined c p y s = Some s1" "k_list_del (ThreadList y) s1 = Some s2"
    "k_list_add_tail (ThreadList y) ?B s2 = Some (s\<lparr>heap := h, threads := marked c {y} (threads s)\<rparr>)"
    "shape h (heads M) (Q(?B := (map ThreadList ys @ ThreadList i # zs) @ [ThreadList y]))"
    "\<And>x. x \<notin> heads M \<Longrightarrow> \<not> queued (heads M) Q x \<Longrightarrow> h x = heap s x"
    by (rule wake_round [OF Cons.prems(1-3) B y(2)]) (rule that)
  let ?s = "s\<lparr>heap := h, threads := marked c {y} (threads s)\<rparr>"
  let ?Q = "Q(?B := (map ThreadList ys @ ThreadList i # zs) @ [ThreadList y])"
  have cp: "current_p ?s = Some p" using Cons.prems(3) current_p_threads [of ?s s] by simp
  have f: "list_first ?B (heap s) = Some (ThreadList y)" "list_first ?B h = Some (hd (?Q ?B))"
    using lq.first_law [OF Cons.prems(1) b] lq.first_law [OF r(4) b] B by simp_all
  have sh: "shape (heap ?s) (heads M) ?Q" using r(4) by simp
  have "\<exists>h'. wake_joined c p (ThreadList i) (hd (?Q ?B)) ?s =
      Some (?s\<lparr>heap := h', threads := marked c (set ys) (threads ?s)\<rparr>)
    \<and> shape h' (heads M) (?Q(?B := ThreadList i # (zs @ [ThreadList y]) @ map ThreadList ys))
    \<and> (\<forall>x. x \<notin> heads M \<longrightarrow> \<not> queued (heads M) ?Q x \<longrightarrow> h' x = heap ?s x)"
  proof (rule Cons.IH [where s = ?s and Q = ?Q and zs = "zs @ [ThreadList y]"])
    show "t < 22 \<and> thread_state (threads ?s t) \<noteq> ST_RUN" if "t \<in> set ys" for t
      using that Cons.prems(6) by simp
  qed (rule sh, use Cons.prems(2,4) cp in simp_all)
  then obtain h' where h': "wake_joined c p (ThreadList i) (hd (?Q ?B)) ?s =
      Some (s\<lparr>heap := h', threads := marked c (set (y # ys)) (threads s)\<rparr>)"
    "shape h' (heads M) (Q(?B := ThreadList i # zs @ map ThreadList (y # ys)))"
    "\<And>x. x \<notin> heads M \<Longrightarrow> \<not> queued (heads M) ?Q x \<Longrightarrow> h' x = h x"
    by (auto simp: marked_Un)
  have fr: "h' x = heap s x" if "x \<notin> heads M" "\<not> queued (heads M) Q x" for x
  proof -
    have "\<not> queued (heads M) ?Q x" by (rule not_queued_shrink [OF that(2)]) (auto simp: B)
    with that h'(3) r(5) show ?thesis by simp
  qed
  have "thread_at (sym s) (list_head_to_thread_struct (sym s) (ThreadList y)) = Some y"
    using Cons.prems(4) y(1) by (intro thread_of_node) simp_all
  then have "wake_joined c p (ThreadList i) (hd (Q ?B)) s =
      wake_joined c p (ThreadList i) (hd (?Q ?B)) ?s"
    using yi f r(1-3) B by (simp add: wake_joined.simps [of c p _ "ThreadList y"])
  then have e: "wake_joined c p (ThreadList i) (hd (Q ?B)) s =
      Some (s\<lparr>heap := h', threads := marked c (set (y # ys)) (threads s)\<rparr>)" using h'(1) by (rule trans)
  show ?case by (intro exI [of _ h'] conjI allI impI e h'(2) fr)
qed

section \<open>Leaving a thread\<close>

lemma thread_nodes:
  "(\<And>n. n \<in> set xs \<Longrightarrow> \<exists>t. n = ThreadList t) \<Longrightarrow> \<exists>ts. xs = map ThreadList ts"
proof (induction xs)
  case (Cons x xs)
  then obtain ts t where "xs = map ThreadList ts" "x = ThreadList t" by (metis list.set_intros)
  then have "x # xs = map ThreadList (t # ts)" by simp
  then show ?case by (rule exI)
qed simp

lemma kmid_blocked:
  assumes "kmid s Q M c" and "p < 10"
  obtains ts where "Q (BlockedThreads p) = map ThreadList ts" and "\<And>t. t \<in> set ts \<Longrightarrow> waits s c p t"
proof -
  have w: "\<exists>t. n = ThreadList t \<and> waits s c p t" if "n \<in> set (Q (BlockedThreads p))" for n
    using kmid_member [OF assms(1), of "BlockedThreads p" n] assms(2) that by (cases n) auto
  then obtain ts where "Q (BlockedThreads p) = map ThreadList ts" using thread_nodes by metis
  with w show thesis by (intro that) auto
qed

text \<open>The thread that stops running joins the free threads.\<close>

lemma free_running_thread:
  assumes "kinv s Q M c cp"
  obtains h where "k_list_add_tail (ThreadList c) Free_threadqueue s = Some (s\<lparr>heap := h\<rparr>)"
    and "kmid (s\<lparr>heap := h\<rparr>) (Q(Free_threadqueue := Q Free_threadqueue @ [ThreadList c])) M c"
    and "proc_running (s\<lparr>heap := h\<rparr>) (Q(Free_threadqueue := Q Free_threadqueue @ [ThreadList c])) M cp"
proof -
  let ?Q = "Q(Free_threadqueue := Q Free_threadqueue @ [ThreadList c])"
  note km = kinv_kmid [OF assms]
  have c: "thread_p (threads s c) = Some cp" "\<not> queued (heads M) Q (ThreadList c)"
    using kinv_thread [OF assms] by (simp_all add: thread_running_def)
  obtain h where h: "list_add_tail (ThreadList c) Free_threadqueue (heap s) = Some h" "shape h (heads M) ?Q"
    "\<And>x. x \<notin> heads M \<Longrightarrow> x \<noteq> ThreadList c \<Longrightarrow> \<not> queued (heads M) Q x \<Longrightarrow> h x = heap s x"
    using lq.add_tail_law [OF kmid_shape [OF km] heads_simps(3) heads_simps(8) c(2)] by blast
  have "kmid (s\<lparr>heap := h\<rparr>) ?Q M c"
  proof (rule kmid_requeue [where N = "{ThreadList c}", OF km])
    show "member_ok (s\<lparr>heap := h\<rparr>) ?Q c a n"
      if a: "a \<in> heads M" and n: "n \<in> set (?Q a)" "n \<in> {ThreadList c}" for a n
    proof -
      have "a = Free_threadqueue" using n c(2) queuedI [of a "heads M" n Q, OF a] by (auto split: if_splits)
      then show ?thesis using n kmid_c [OF km] by auto
    qed
  qed (use h(2,3) c(1) in \<open>auto split: if_splits\<close>)
  moreover have "proc_running (s\<lparr>heap := h\<rparr>) ?Q M cp"
    using kinv_proc [OF assms] by (simp add: proc_running_def not_queued_append)
  ultimately show thesis using h(1) by (intro that) (simp_all add: k_list_eqs)
qed

text \<open>The first waiter, if it waits for thread \<open>c\<close>.\<close>

definition first_joined :: "kernel \<Rightarrow> (lnode \<Rightarrow> lnode list) \<Rightarrow> nat \<Rightarrow> nat \<Rightarrow> lnode list" where
  "first_joined s Q c cp = (case Q (BlockedThreads cp) of
     ThreadList i # r \<Rightarrow> if blocked_by (threads s i) = TID (threads s c) then [ThreadList i] else []
   | _ \<Rightarrow> [])"

text \<open>Marking waiters ready keeps the invariant.\<close>

lemma kmid_marked:
  assumes "kmid s Q M c" and "p < 10" and "Q (BlockedThreads p) = map ThreadList ts" and "A \<subseteq> set ts"
    and "shape h (heads M) Q" and "\<And>x. x \<notin> heads M \<Longrightarrow> \<not> queued (heads M) Q x \<Longrightarrow> h x = heap s x"
  shows "kmid (s\<lparr>heap := h, threads := marked c A (threads s)\<rparr>) Q M c"
proof (rule kmid_requeue [where N = "ThreadList ` A", OF assms(1)])
  let ?s = "s\<lparr>heap := h, threads := marked c A (threads s)\<rparr>"
  have A: "n \<in> set (Q (BlockedThreads p))" if "n \<in> ThreadList ` A" for n using that assms(3,4) by auto
  show "member_ok ?s Q c a n" if a: "a \<in> heads M" and n: "n \<in> set (Q a)" "n \<in> ThreadList ` A" for a n
  proof -
    have "a = BlockedThreads p"
      using lq.disjoint_law [OF kmid_shape [OF assms(1)] a, of "BlockedThreads p" n] n A assms(2) by simp
    then show ?thesis using kmid_member [OF assms(1) a n(1)] by (cases n) (auto simp: waits_def)
  qed
  show "ThreadList i \<notin> ThreadList ` A \<and> thread_p (threads ?s i) = None"
    if "thread_p (threads s i) = None" "\<not> queued (heads M) Q (ThreadList i)" for i
    using that A assms(2) queuedI [of "BlockedThreads p" "heads M" "ThreadList i" Q] by auto
qed (use assms(5,6) in auto)

text \<open>The first thread of a waiting queue becomes ready.\<close>

lemma wake_queued:
  assumes "kmid s Q M c" and "proc_running s Q M p" and "current_p s = Some p"
    and "b = BlockedThreads p \<or> (\<exists>m. b = MutexBlocked m)" and "b \<in> heads M" and "Q b = ThreadList i # r"
    and "waits s c p i"
  obtains h where "update_thread_state_rr i (Some (ReadyThreads p)) s =
      Some (s\<lparr>heap := h, threads := (threads s)(i := (threads s i)\<lparr>thread_state := ST_READY\<rparr>)\<rparr>)"
    and "kmid (s\<lparr>heap := h, threads := (threads s)(i := (threads s i)\<lparr>thread_state := ST_READY\<rparr>)\<rparr>)
      (Q(b := r, ReadyThreads p := Q (ReadyThreads p) @ [ThreadList i])) M c"
    and "proc_running (s\<lparr>heap := h, threads := (threads s)(i := (threads s i)\<lparr>thread_state := ST_READY\<rparr>)\<rparr>)
      (Q(b := r, ReadyThreads p := Q (ReadyThreads p) @ [ThreadList i])) M p"
proof -
  let ?Q = "Q(b := r, ReadyThreads p := Q (ReadyThreads p) @ [ThreadList i])"
  have p: "p < 10" "\<not> queued (heads M) Q (TaskList p)" using assms(2) by (simp_all add: proc_running_def)
  have H: "b \<in> heads M" "ReadyThreads p \<in> heads M" using p(1) assms(5) by simp_all
  have bn: "b \<noteq> ReadyThreads j" "b \<noteq> Freequeue" "b \<noteq> Readyqueue" for j using assms(4) by auto
  have iq: "ThreadList i \<in> set (Q b)" using assms(6) by simp
  note w = assms(7)
  then have nr: "thread_state (threads s i) \<noteq> ST_RUN" by (simp add: waits_def)
  have q: "(Q(b := remove1 (ThreadList i) (Q b)))
           (ReadyThreads p := (Q(b := remove1 (ThreadList i) (Q b))) (ReadyThreads p)
              @ [ThreadList i]) = ?Q"
    using assms(6) bn(1) [symmetric] by simp
  obtain h where h: "update_thread_state_rr i (Some (ReadyThreads p)) s = Some (s\<lparr>heap := h,
       threads := (threads s)(i := (threads s i)\<lparr>thread_state :=
         (if ReadyThreads p \<noteq> ReadyThreads p then ST_BLOCKED else ST_READY)\<rparr>)\<rparr>)"
    "shape h (heads M) ?Q" "\<And>x. x \<notin> heads M \<Longrightarrow> \<not> queued (heads M) Q x \<Longrightarrow> h x = heap s x"
    by (rule update_thread_state_move [OF nr assms(3) kmid_shape [OF assms(1)] H iq, unfolded q]) (rule that)
  let ?s = "s\<lparr>heap := h, threads := (threads s)(i := (threads s i)\<lparr>thread_state := ST_READY\<rparr>)\<rparr>"
  have iu: "queued (heads M) Q (ThreadList i)" by (rule queuedI [of "b" "heads M" _ Q, OF H(1) iq])
  have "kmid ?s ?Q M c"
  proof (rule kmid_requeue [where N = "{ThreadList i}", OF assms(1)])
    show "member_ok ?s ?Q c a n" if a: "a \<in> heads M" and n: "n \<in> set (?Q a)" "n \<in> {ThreadList i}" for a n
    proof -
      have "a = ReadyThreads p"
      proof (rule ccontr)
        assume na: "a \<noteq> ReadyThreads p"
        then have "n \<in> set (Q a)" using n assms(6) by (auto split: if_splits)
        then have "a = b" using lq.disjoint_law [OF kmid_shape [OF assms(1)] a H(1), of n] iq n(2) by simp
        with na n assms(6) show False using lq.distinct_law [OF kmid_shape [OF assms(1)] H(1)] by simp
      qed
      with n(2) w show ?thesis by (simp add: waits_def)
    qed
    show "ThreadList j \<notin> {ThreadList i} \<and> thread_p (threads ?s j) = None"
      if "thread_p (threads s j) = None" "\<not> queued (heads M) Q (ThreadList j)" for j
      using that iu by auto
    show "?Q (ReadyThreads j) = [] \<and> ?Q (BlockedThreads j) = []"
      if "TaskList j \<in> set (?Q Freequeue)" "Q (ReadyThreads j) = []" "Q (BlockedThreads j) = []" for j
      using that p(2) assms(6) bn queuedI [of Freequeue "heads M" "TaskList j" Q] by auto
  qed (use h(2,3) assms(6) bn in \<open>auto split: if_splits\<close>)
  moreover have "proc_running ?s ?Q M p"
  proof -
    have "\<not> queued (heads M) ?Q (TaskList p)" using p(2) assms(6) by (auto simp: queued_def split: if_splits)
    with assms(2) show ?thesis by (simp add: proc_running_def)
  qed
  ultimately show thesis using h(1) by (intro that) simp_all
qed

text \<open>The first waiter becomes ready.\<close>

lemma wake_first:
  assumes "kmid s Q M c" and "proc_running s Q M p" and "current_p s = Some p" and "Q (BlockedThreads p) = ThreadList i # r"
  obtains h where "update_thread_state_rr i (Some (ReadyThreads p)) s =
      Some (s\<lparr>heap := h, threads := (threads s)(i := (threads s i)\<lparr>thread_state := ST_READY\<rparr>)\<rparr>)"
    and "kmid (s\<lparr>heap := h, threads := (threads s)(i := (threads s i)\<lparr>thread_state := ST_READY\<rparr>)\<rparr>)
      (Q(BlockedThreads p := r, ReadyThreads p := Q (ReadyThreads p) @ [ThreadList i])) M c"
    and "proc_running (s\<lparr>heap := h, threads := (threads s)(i := (threads s i)\<lparr>thread_state := ST_READY\<rparr>)\<rparr>)
      (Q(BlockedThreads p := r, ReadyThreads p := Q (ReadyThreads p) @ [ThreadList i])) M p"
proof -
  have H: "BlockedThreads p \<in> heads M" using assms(2) by (simp add: proc_running_def)
  have "waits s c p i" using kmid_member [OF assms(1) H, of "ThreadList i"] assms(4) by simp
  from wake_queued [OF assms(1-3) disjI1 [OF refl] H assms(4) this] that show thesis by blast
qed

text \<open>The first waiter goes to the end and the loop runs until it is first again: the queue is as before.\<close>

lemma wake_rotated:
  assumes "shape (heap s) (heads M) Q" and "p < 10" and "current_p s = Some p" and "layout_ok (sym s)"
    and "Q (BlockedThreads p) = ThreadList i # map ThreadList ys" and "\<And>t. t \<in> set ys \<Longrightarrow> waits s c p t"
  obtains g1 g2 n h where "list_first (BlockedThreads p) (heap s) = Some (ThreadList i)"
    and "list_del (ThreadList i) (heap s) = Some g1" and "list_add_tail (ThreadList i) (BlockedThreads p) g1 = Some g2"
    and "list_first (BlockedThreads p) g2 = Some n" and "wake_joined c p (ThreadList i) n (s\<lparr>heap := g2\<rparr>) =
      Some (s\<lparr>heap := h, threads := marked c (set ys) (threads s)\<rparr>)"
    and "shape h (heads M) Q" and "\<And>x. x \<notin> heads M \<Longrightarrow> \<not> queued (heads M) Q x \<Longrightarrow> h x = heap s x"
proof -
  let ?B = "BlockedThreads p"
  let ?Q = "Q(?B := map ThreadList ys @ [ThreadList i])"
  have B: "?B \<in> heads M" using assms(2) by simp
  obtain g1 g2 where g: "list_first ?B (heap s) = Some (ThreadList i)"
    "list_del (ThreadList i) (heap s) = Some g1" "list_add_tail (ThreadList i) ?B g1 = Some g2"
    "shape g2 (heads M) ?Q" "\<And>x. x \<notin> heads M \<Longrightarrow> \<not> queued (heads M) Q x \<Longrightarrow> g2 x = heap s x"
    using lq.rotate_first [OF assms(1) B assms(5)] by blast
  have sh: "shape (heap (s\<lparr>heap := g2\<rparr>)) (heads M) ?Q" using g(4) by simp
  have cp: "current_p (s\<lparr>heap := g2\<rparr>) = Some p" using assms(3) by (simp add: current_p_def current_t_def)
  have lay: "layout_ok (sym (s\<lparr>heap := g2\<rparr>))" using assms(4) by simp
  have "?Q ?B = map ThreadList ys @ ThreadList i # []" by simp
  then have "\<exists>h. wake_joined c p (ThreadList i) (hd (?Q ?B)) (s\<lparr>heap := g2\<rparr>) =
      Some (s\<lparr>heap := g2, heap := h, threads := marked c (set ys) (threads (s\<lparr>heap := g2\<rparr>))\<rparr>)
    \<and> shape h (heads M) (?Q(?B := ThreadList i # [] @ map ThreadList ys))
    \<and> (\<forall>x. x \<notin> heads M \<longrightarrow> \<not> queued (heads M) ?Q x \<longrightarrow> h x = heap (s\<lparr>heap := g2\<rparr>) x)"
    using assms(6) by (intro wake_joined_spec [OF sh assms(2) cp lay]) (auto simp: waits_def)
  moreover have "?Q(?B := ThreadList i # [] @ map ThreadList ys) = Q" using assms(5) by (simp add: fun_eq_iff)
  ultimately obtain h where h: "wake_joined c p (ThreadList i) (hd (?Q ?B)) (s\<lparr>heap := g2\<rparr>) =
      Some (s\<lparr>heap := h, threads := marked c (set ys) (threads s)\<rparr>)" "shape h (heads M) Q"
    "\<And>x. x \<notin> heads M \<Longrightarrow> \<not> queued (heads M) ?Q x \<Longrightarrow> h x = g2 x" by auto
  have "\<not> queued (heads M) ?Q x" if "\<not> queued (heads M) Q x" for x
    by (rule not_queued_shrink [OF that]) (auto simp: assms(5))
  with g(5) h(3) have "\<And>x. x \<notin> heads M \<Longrightarrow> \<not> queued (heads M) Q x \<Longrightarrow> h x = heap s x" by simp
  with g(1-3) h(1,2) lq.first_law [OF g(4) B] show thesis by (intro that [of g1 g2 "hd (?Q ?B)" h]) simp_all
qed

text \<open>Marking: the rotation and the loop leave the queues as they were.\<close>

lemma wake_loop:
  assumes "kmid s Q M c" and "proc_running s Q M p" and "current_p s = Some p"
    and "Q (BlockedThreads p) = ThreadList i # map ThreadList ys"
    and "\<And>t. t \<in> set (i # ys) \<Longrightarrow> waits s c p t"
  obtains h where "wake_waiters c p s = wake_if_joined c p i (s\<lparr>heap := h, threads := marked c (set ys) (threads s)\<rparr>)"
    and "kmid (s\<lparr>heap := h, threads := marked c (set ys) (threads s)\<rparr>) Q M c"
    and "proc_running (s\<lparr>heap := h, threads := marked c (set ys) (threads s)\<rparr>) Q M p"
proof -
  let ?B = "BlockedThreads p" and ?s = "\<lambda>h. s\<lparr>heap := h, threads := marked c (set ys) (threads s)\<rparr>"
  have p: "p < 10" and B: "?B \<in> heads M" using assms(2) by (simp_all add: proc_running_def)
  note sh = kmid_shape [OF assms(1)] and lay = kmid_layout [OF assms(1)]
  have w: "\<And>t. t \<in> set ys \<Longrightarrow> waits s c p t" using assms(5) by simp
  obtain g1 g2 n h where h: "list_first ?B (heap s) = Some (ThreadList i)"
    "list_del (ThreadList i) (heap s) = Some g1" "list_add_tail (ThreadList i) ?B g1 = Some g2"
    "list_first ?B g2 = Some n" "wake_joined c p (ThreadList i) n (s\<lparr>heap := g2\<rparr>) = Some (?s h)"
    "shape h (heads M) Q" "\<And>x. x \<notin> heads M \<Longrightarrow> \<not> queued (heads M) Q x \<Longrightarrow> h x = heap s x"
    by (rule wake_rotated [OF sh p assms(3) lay assms(4)]) (erule w, rule that)
  have BQ: "Q ?B = map ThreadList (i # ys)" using assms(4) by simp
  have "kmid (?s h) Q M c" by (rule kmid_marked [OF assms(1) p BQ _ h(6,7)]) auto
  moreover have "proc_running (?s h) Q M p" using assms(2) proc_running_cong [of "?s h" s] by simp
  moreover have "wake_waiters c p s = wake_if_joined c p i (?s h)"
  proof -
    have "\<not> list_empty ?B (heap s)" using shape_empty_iff [OF sh B] assms(4) by simp
    moreover have "list_first ?B h = Some (ThreadList i)" using lq.first_law [OF h(6) B] assms(4) by simp
    moreover have "thread_at (sym s) (list_head_to_thread_struct (sym s) (ThreadList i)) = Some i"
      using lay assms(5) by (intro thread_of_node) (simp_all add: waits_def)
    ultimately show ?thesis using h(1-5) by (simp add: wake_waiters_def k_list_eqs k_list_add_tail_case)
  qed
  ultimately show thesis by (intro that)
qed

lemma wake_waiters_step:
  assumes "kmid s Q M c" and "proc_running s Q M p" and "current_p s = Some p"
  obtains s2 h th where "wake_waiters c p s = Some s2" and "s2 = s\<lparr>heap := h, threads := th\<rparr>"
    and "\<And>x. thread_p (th x) = thread_p (threads s x)"
    and "kmid s2 (Q(BlockedThreads p := drop (length (first_joined s Q c p)) (Q (BlockedThreads p)),
        ReadyThreads p := Q (ReadyThreads p) @ first_joined s Q c p)) M c"
    and "proc_running s2 (Q(BlockedThreads p := drop (length (first_joined s Q c p)) (Q (BlockedThreads p)),
        ReadyThreads p := Q (ReadyThreads p) @ first_joined s Q c p)) M p"
proof -
  let ?B = "BlockedThreads p" and ?w = "first_joined s Q c p"
  let ?Q = "Q(?B := drop (length ?w) (Q ?B), ReadyThreads p := Q (ReadyThreads p) @ ?w)"
  have p: "p < 10" and B: "?B \<in> heads M" using assms(2) by (simp_all add: proc_running_def)
  obtain ts where ts: "Q ?B = map ThreadList ts" "\<And>t. t \<in> set ts \<Longrightarrow> waits s c p t"
    by (rule kmid_blocked [OF assms(1) p]) (rule that)
  show thesis
  proof (cases ts)
    case Nil
    have "?Q = Q" using Nil ts(1) by (simp add: first_joined_def fun_eq_iff)
    moreover have "wake_waiters c p s = Some s"
      using shape_empty_iff [OF kmid_shape [OF assms(1)] B] Nil ts(1) by (simp add: wake_waiters_def)
    ultimately show thesis using assms by (intro that [of s "threads s" "heap s"]) simp_all
  next
    case (Cons i ys)
    have BQ: "Q ?B = ThreadList i # map ThreadList ys" using ts(1) Cons by simp
    have w: "t \<in> set (i # ys) \<Longrightarrow> waits s c p t" for t using ts(2) Cons by simp
    let ?s3 = "\<lambda>h. s\<lparr>heap := h, threads := marked c (set ys) (threads s)\<rparr>"
    obtain h where h: "wake_waiters c p s = wake_if_joined c p i (?s3 h)"
      "kmid (?s3 h) Q M c" "proc_running (?s3 h) Q M p"
      by (rule wake_loop [OF assms BQ w])
    show thesis
    proof (cases "blocked_by (threads s i) = TID (threads s c)")
      case False
      have "?w = []" using False BQ by (simp add: first_joined_def)
      then have "?Q = Q" by (simp add: fun_eq_iff)
      moreover have "wake_if_joined c p i (?s3 h) = Some (?s3 h)" using False by (simp add: wake_if_joined_def)
      ultimately show thesis using h by (intro that [of "?s3 h" "marked c (set ys) (threads s)" h]) simp_all
    next
      case True
      have "?w = [ThreadList i]" using True BQ by (simp add: first_joined_def)
      then have q: "Q(?B := map ThreadList ys, ReadyThreads p := Q (ReadyThreads p) @ [ThreadList i]) = ?Q"
        using BQ by (simp add: fun_eq_iff)
      have cp3: "current_p (?s3 h) = Some p" using assms(3) current_p_threads [of "?s3 h" s] by simp
      let ?th = "(threads (?s3 h))(i := (threads (?s3 h) i)\<lparr>thread_state := ST_READY\<rparr>)"
      obtain g where g: "update_thread_state_rr i (Some (ReadyThreads p)) (?s3 h) =
          Some (?s3 h\<lparr>heap := g, threads := ?th\<rparr>)"
        "kmid (?s3 h\<lparr>heap := g, threads := ?th\<rparr>) ?Q M c" "proc_running (?s3 h\<lparr>heap := g, threads := ?th\<rparr>) ?Q M p"
        by (rule wake_first [OF h(2,3) cp3 BQ, unfolded q])
      have "wake_waiters c p s = Some (s\<lparr>heap := g, threads := ?th\<rparr>)"
        using g(1) h(1) True by (simp add: wake_if_joined_def)
      moreover have "thread_p (?th x) = thread_p (threads s x)" for x by simp
      ultimately show thesis using g(2,3)
        by (intro that [of "s\<lparr>heap := g, threads := ?th\<rparr>" ?th g]) simp_all
    qed
  qed
qed

lemma sys_pthread_exit_step:
  assumes "kinv s Q M c cp" and "in_kernel s c" and "Q (ReadyThreads cp) @ first_joined s Q c cp \<noteq> []"
  obtains s' t ts where "sys_pthread_exit v s = Some (0, s')"
    and "Q (ReadyThreads cp) @ first_joined s Q c cp = ThreadList t # ts"
    and "kinv s' (Q(Free_threadqueue := Q Free_threadqueue @ [ThreadList c],
        BlockedThreads cp := drop (length (first_joined s Q c cp)) (Q (BlockedThreads cp)),
        ReadyThreads cp := ts)) M t cp"
    and "same_rest s s'"
proof -
  let ?w = "first_joined s Q c cp"
  obtain h1 where h1: "k_list_add_tail (ThreadList c) Free_threadqueue s = Some (s\<lparr>heap := h1\<rparr>)"
    "kmid (s\<lparr>heap := h1\<rparr>) (Q(Free_threadqueue := Q Free_threadqueue @ [ThreadList c])) M c"
    "proc_running (s\<lparr>heap := h1\<rparr>) (Q(Free_threadqueue := Q Free_threadqueue @ [ThreadList c])) M cp"
    by (rule free_running_thread [OF assms(1)])
  let ?Q1 = "Q(Free_threadqueue := Q Free_threadqueue @ [ThreadList c])"
  have cur: "current_t s = Some c" "current_p s = Some cp" using kinv_current [OF assms(1,2)] by simp_all
  have cp1: "current_p (s\<lparr>heap := h1\<rparr>) = Some cp" using cur(2) by (simp add: current_p_def current_t_def)
  have fj: "first_joined (s\<lparr>heap := h1\<rparr>) ?Q1 c cp = ?w" by (simp add: first_joined_def split: list.split lnode.split)
  let ?Q2 = "?Q1(BlockedThreads cp := drop (length ?w) (Q (BlockedThreads cp)),
      ReadyThreads cp := Q (ReadyThreads cp) @ ?w)"
  have q2: "?Q1(BlockedThreads cp := drop (length ?w) (?Q1 (BlockedThreads cp)),
      ReadyThreads cp := ?Q1 (ReadyThreads cp) @ ?w) = ?Q2" by simp
  obtain s2 h2 th where s2: "wake_waiters c cp (s\<lparr>heap := h1\<rparr>) = Some s2"
    and e2: "s2 = (s\<lparr>heap := h1\<rparr>)\<lparr>heap := h2, threads := th\<rparr>"
    and th: "\<And>x. thread_p (th x) = thread_p (threads (s\<lparr>heap := h1\<rparr>) x)"
    and km2: "kmid s2 ?Q2 M c" and pr2: "proc_running s2 ?Q2 M cp"
    by (rule wake_waiters_step [OF h1(2,3) cp1, unfolded fj q2]) (rule that)
  have ink: "in_kernel s2 c" using assms(2) in_kernel_cong [of s2 s c] e2 by simp
  have own: "thread_p (threads s2 c) = Some cp"
    using kinv_thread [OF assms(1)] e2 th by (simp add: thread_running_def)
  have cp: "ReadyThreads cp \<in> heads M" using pr2 by (simp add: proc_running_def)
  have ne: "?Q2 (ReadyThreads cp) \<noteq> []" using assms(3) by simp
  have fresh: "hd (?Q2 (ReadyThreads cp)) = ThreadList c \<Longrightarrow> saved_ok (sym s2) c (register_esp (threads s2 c))"
    using hd_in_set [OF ne] lq.disjoint_law [OF kmid_shape [OF km2] cp, of Free_threadqueue "ThreadList c"] by simp
  obtain s' t ts' where s': "sched_next_thread_rr s2 = Some s'" "?Q2 (ReadyThreads cp) = ThreadList t # ts'"
    "kinv s' (?Q2(ReadyThreads cp := ts')) M t cp" "remaining_quantum_p s' = remaining_quantum_p s2"
    "remaining_quantum_t s' = quantum (threads s2 t)" "same_rest s2 s'" "tasks s' = tasks s2"
    "threads s' = handed_over c t (ebp s2) (threads s2)" "esp s' = register_esp (threads s2 t)"
    by (rule next_thread_step [OF km2 ink own pr2 ne fresh])
  have "sys_pthread_exit v s = Some (0, s')"
    using cur h1(1) s2 s'(1) by (simp add: sys_pthread_exit_def)
  moreover have "same_rest s s'" using s'(6) e2 by (simp add: same_rest_def)
  ultimately show thesis using s'(2,3) by (intro that [of s' t ts']) simp_all
qed

section \<open>Creating a thread\<close>

text \<open>The fields of a node that is on no list do not matter.\<close>

lemma shape_upd_unqueued:
  "shape h H Q \<Longrightarrow> n \<notin> H \<Longrightarrow> \<not> queued H Q n \<Longrightarrow> shape (h(n := x)) H Q"
proof -
  assume a: "shape h H Q" "n \<notin> H" "\<not> queued H Q n"
  have "queue (h(n := x)) b (Q b) = queue h b (Q b)" if "b \<in> H" for b
    using a(2,3) that by (intro queue_cong) (auto simp: queued_def)
  with a(1) show ?thesis by (simp add: shape_def)
qed

text \<open>Taking a free thread and copying the running one over it.\<close>

lemma take_free_thread:
  assumes "kinv s Q M c cp" and "Q Free_threadqueue = ThreadList u # us"
  obtains h where "list_first Free_threadqueue (heap s) = Some (ThreadList u)"
    and "thread_at (sym s) (list_head_to_thread_struct (sym s) (ThreadList u)) = Some u"
    and "list_del (ThreadList u) (heap s) = Some h"
    and "shape (h(ThreadList u := h (ThreadList c))) (heads M) (Q(Free_threadqueue := us))"
    and "\<not> queued (heads M) (Q(Free_threadqueue := us)) (ThreadList u)"
    and "\<And>x. x \<notin> heads M \<Longrightarrow> \<not> queued (heads M) Q x \<Longrightarrow> (h(ThreadList u := h (ThreadList c))) x = heap s x"
    and "u < 22" and "u \<noteq> c" and "\<And>i. idle_task s = Some i \<Longrightarrow> u \<noteq> i"
    and "queued (heads M) Q (ThreadList u)"
proof -
  note km = kinv_kmid [OF assms(1)]
  note sh = kmid_shape [OF km]
  have uq: "ThreadList u \<in> set (Q Free_threadqueue)" using assms(2) by simp
  have qu: "queued (heads M) Q (ThreadList u)" by (rule queuedI [of _ "heads M" _ Q, OF heads_simps(3) uq])
  have u: "u < 22" using kmid_member [OF km heads_simps(3) uq] by simp
  have r: "remove1 (ThreadList u) (Q Free_threadqueue) = us" using assms(2) by simp
  obtain h where h: "list_del (ThreadList u) (heap s) = Some h" "shape h (heads M) (Q(Free_threadqueue := us))"
    "\<And>x. x \<notin> heads M \<Longrightarrow> \<not> queued (heads M) Q x \<Longrightarrow> h x = heap s x"
    using lq.del_law [OF sh heads_simps(3) uq] unfolding r by blast
  have nq: "\<not> queued (heads M) (Q(Free_threadqueue := us)) (ThreadList u)"
    by (rule shape_tail_unqueued [OF sh heads_simps(3) assms(2)])
  have sh': "shape (h(ThreadList u := h (ThreadList c))) (heads M) (Q(Free_threadqueue := us))"
    by (rule shape_upd_unqueued [OF h(2) _ nq]) simp
  have f: "list_first Free_threadqueue (heap s) = Some (ThreadList u)"
    using lq.first_law [OF sh heads_simps(3)] assms(2) by simp
  have ts: "thread_at (sym s) (list_head_to_thread_struct (sym s) (ThreadList u)) = Some u"
    using kmid_layout [OF km] u by (intro thread_of_node) simp_all
  have "u \<noteq> c" using qu kinv_thread [OF assms(1)] by (auto simp: thread_running_def)
  moreover have "u \<noteq> i" if "idle_task s = Some i" for i
    using qu kmid_idle [OF km] that by (auto simp: idle_ok_def)
  moreover have "(h(ThreadList u := h (ThreadList c))) x = heap s x"
    if "x \<notin> heads M" "\<not> queued (heads M) Q x" for x
    using that qu h(3) [OF that] by auto
  ultimately show thesis using f ts h(1) sh' nq u qu by (intro that [of h]) simp_all
qed

lemma find_free_page_spec:
  "find_free_page PT page = Some p \<Longrightarrow> page \<le> p \<and> p < 1024 \<and> pbase_addr (PT p) = 0"
proof (induction PT page rule: find_free_page.induct)
  case (1 PT page)
  then show ?case
    by (auto simp: find_free_page.simps [of PT page] split: if_splits)
qed

text \<open>A search below the end of the table finds the first page without a frame.\<close>

lemma find_free_page_exists:
  "\<exists>p. page \<le> p \<and> p < 1024 \<and> pbase_addr (PT p) = 0 \<Longrightarrow> \<exists>p. find_free_page PT page = Some p"
proof (induction PT page rule: find_free_page.induct)
  case (1 PT page)
  then obtain p where p: "page \<le> p" "p < 1024" "pbase_addr (PT p) = 0" by blast
  show ?case
  proof (cases "pbase_addr (PT page) = 0")
    case True
    with p show ?thesis by (simp add: find_free_page.simps [of PT page])
  next
    case False
    with p have "page + 1 \<le> p" by (cases "p = page") auto
    with p False have "\<exists>p. find_free_page PT (page + 1) = Some p" by (intro "1.IH") auto
    with p False show ?thesis by (simp add: find_free_page.simps [of PT page])
  qed
qed

definition created_thread :: "kernel \<Rightarrow> nat \<Rightarrow> nat \<Rightarrow> nat \<Rightarrow> u32 \<Rightarrow> nat \<Rightarrow> thread_struct" where
  "created_thread s c p u start page = (threads s c)\<lparr>register_esp := stack_addr (sym s) u 1006,
     kstack := (kstack (threads s c))(1006 := 0, 1019 := start, 1022 := 4096 + 4096 * of_nat page),
     TID := nthread (tasks s p), quantum := 10, thread_state := ST_READY, thread_p := Some p,
     thread_dir := task_dir (tasks s p)\<rparr>"

text \<open>Mapping a page that had no frame does not disturb the user's other accesses.\<close>

lemma user_word_new_page:
  assumes "user_word PT a" and "pbase_addr (PT page) = 0"
  shows "user_word (PT(page := e)) a"
    and "vstore32 (PT(page := e)) a v m = vstore32 PT a v m"
proof -
  have same: "kaddr (PT(page := e)) b = kaddr PT b" if "user_byte PT b" for b
  proof -
    have "unat b div 4096 \<noteq> page" using that assms(2) by (auto simp: user_byte_def kaddr_def Let_def split: if_splits)
    then show ?thesis by (simp add: kaddr_def Let_def)
  qed
  have b: "user_byte PT a" "user_byte PT (a + 1)" "user_byte PT (a + 2)" "user_byte PT (a + 3)"
    using assms(1) by (simp_all add: user_word_def)
  show "user_word (PT(page := e)) a"
    using b by (simp add: user_word_def user_byte_def same)
  show "vstore32 (PT(page := e)) a v m = vstore32 PT a v m"
    using b by (simp add: vstore32_def vwrite_def same)
qed

lemma vstore32_some: "user_word PT a \<Longrightarrow> \<exists>m'. vstore32 PT a v m = Some m'"
  by (auto simp: user_word_def user_byte_def vstore32_def vwrite_def split: option.splits)

lemma created_fields [simp]:
  "thread_p (created_thread s c p u start page) = Some p"
  "thread_state (created_thread s c p u start page) = ST_READY"
  "register_esp (created_thread s c p u start page) = stack_addr (sym s) u 1006"
  "TID (created_thread s c p u start page) = nthread (tasks s p)"
  by (simp_all add: created_thread_def)

definition created :: "kernel \<Rightarrow> nat \<Rightarrow> nat \<Rightarrow> nat \<Rightarrow> u32 \<Rightarrow> nat \<Rightarrow> u32 \<Rightarrow> frame_map \<Rightarrow> frames \<Rightarrow> lnode lheap \<Rightarrow> kernel" where
  "created s c p u start page f pm m h = s\<lparr>heap := h, phys_mem := pm,
     pagusr_table := (pagusr_table s)(p := (pagusr_table s p)(page := user_entry f)),
     tasks := (tasks s)(p := (tasks s p)\<lparr>nthread := nthread (tasks s p) + 1\<rparr>),
     threads := (threads s)(u := created_thread s c p u start page), ram := m\<rparr>"

text \<open>The invariant with the new thread queued.\<close>

lemma created_kinv:
  assumes "kinv s Q M c cp" and "Q Free_threadqueue = ThreadList u # us" and "u < 22" and "u \<noteq> c"
    and "\<And>i. idle_task s = Some i \<Longrightarrow> u \<noteq> i" and "\<not> queued (heads M) (Q(Free_threadqueue := us)) (ThreadList u)"
    and "shape g (heads M) (Q(Free_threadqueue := us, ReadyThreads cp := Q (ReadyThreads cp) @ [ThreadList u]))"
    and "\<And>x. x \<notin> heads M \<Longrightarrow> \<not> queued (heads M) Q x \<Longrightarrow> g x = heap s x"
  shows "kinv (created s c cp u start page f pm m g)
    (Q(Free_threadqueue := us, ReadyThreads cp := Q (ReadyThreads cp) @ [ThreadList u])) M c cp"
proof -
  let ?Q1 = "Q(Free_threadqueue := us)" and ?s = "created s c cp u start page f pm m g"
  let ?Q = "?Q1(ReadyThreads cp := Q (ReadyThreads cp) @ [ThreadList u])"
  note km = kinv_kmid [OF assms(1)]
  have cp: "cp < 10" "\<not> queued (heads M) Q (TaskList cp)"
    using kinv_proc [OF assms(1)] by (simp_all add: proc_running_def)
  have sub: "\<not> queued (heads M) ?Q n" if "\<not> queued (heads M) Q n" "n \<noteq> ThreadList u" for n
  proof -
    have "\<not> queued (heads M) ?Q1 n" by (rule not_queued_shrink [OF that(1)]) (auto simp: assms(2))
    then show ?thesis using not_queued_append [of "heads M" ?Q1 n "ThreadList u" "ReadyThreads cp"] that(2) by simp
  qed
  have "kmid ?s ?Q M c"
  proof (rule kmid_requeue [where N = "{ThreadList u}", OF km])
    show "member_ok ?s ?Q c a n" if a: "a \<in> heads M" and n: "n \<in> set (?Q a)" "n \<in> {ThreadList u}" for a n
    proof -
      have "n \<notin> set (?Q1 a)" using assms(6) n(2) queuedI [of a "heads M" n ?Q1, OF a] by auto
      with n have "a = ReadyThreads cp" by (auto split: if_splits)
      with n show ?thesis using assms(3) stack_slot_addr [OF kmid_layout [OF km], of u 1006]
        by (simp add: waits_def saved_ok_def created_def)
    qed
    show "ThreadList i \<notin> {ThreadList u} \<and> thread_p (threads ?s i) = None"
      if "idle_task s = Some i" "thread_p (threads s i) = None" "\<not> queued (heads M) Q (ThreadList i)" for i
      using that assms(5) [of i] by (simp add: created_def)
  qed (use assms(2,7,8) cp queuedI [of Freequeue "heads M" "TaskList cp" Q] in
    \<open>auto simp: created_def split: if_splits\<close>)
  moreover have "proc_running ?s ?Q M cp"
    using kinv_proc [OF assms(1)] sub by (simp add: proc_running_def created_def)
  moreover have "thread_running ?s ?Q M c cp"
    using kinv_thread [OF assms(1)] sub assms(4) by (simp add: thread_running_def created_def)
  moreover have "on_cpu ?s c cp" using kinv_cpu [OF assms(1)] by (simp add: on_cpu_def created_def)
  ultimately show ?thesis by (simp add: kinv_def)
qed

text \<open>
  The whole call: the identifier is stored with the new page already mapped, so its address may
  lie there.
\<close>

text \<open>The run of \<open>sys_pthread_create\<close>, up to where the page table and the address of the id decide.\<close>

lemma sys_pthread_create_run:
  assumes "kinv s Q M c cp" and "in_kernel s c" and "access_ok VERIFY_READ start 4"
    and "alloc_frame (phys_mem s) = (f, pm)" and "\<not> list_empty Free_threadqueue (heap s)"
    and "list_first Free_threadqueue (heap s) = Some (ThreadList u)"
    and "thread_at (sym s) (list_head_to_thread_struct (sym s) (ThreadList u)) = Some u" and "list_del (ThreadList u) (heap s) = Some h"
    and "u \<noteq> c" and "list_add_tail (ThreadList u) (ReadyThreads cp) (h(ThreadList u := h (ThreadList c))) = Some g"
  shows "sys_pthread_create idp start arg s = do {
      page \<leftarrow> find_free_page (pagusr_table s cp) 284;
      let T = (pagusr_table s cp)(page := user_entry f);
      if user_word T idp
      then do { m \<leftarrow> vstore32 T idp (nthread (tasks s cp)) (ram s); Some (0, created s c cp u start page f pm m g) }
      else None }"
proof -
  have cur: "current_t s = Some c" "current_p s = Some cp" using kinv_current [OF assms(1,2)] by simp_all
  have pt: "get_PT s cp = Some cp" and mm: "get_PT_of_dir s (cr3 s) = Some cp"
    by (rule kinv_tables [OF assms(1)])+
  let ?T = "\<lambda>page. (pagusr_table s cp)(page := user_entry f)"
  let ?s8 = "\<lambda>page. s\<lparr>heap := h(ThreadList u := h (ThreadList c)), phys_mem := pm, pagusr_table := (pagusr_table s)(cp := ?T page),
     tasks := (tasks s)(cp := (tasks s cp)\<lparr>nthread := nthread (tasks s cp) + 1\<rparr>),
     threads := (threads s)(u := created_thread s c cp u start page)\<rparr>"
  have "mmu_table (?s8 page) = Some (?T page)" for page
    using mm get_PT_of_dir_cong [of "?s8 page" s] by (simp add: mmu_table_def)
  then have st: "store_user idp (nthread (tasks s cp)) (?s8 page) = (if user_word (?T page) idp
      then do { m \<leftarrow> vstore32 (?T page) idp (nthread (tasks s cp)) (ram s); Some (?s8 page\<lparr>ram := m\<rparr>) } else None)" for page
    by (simp add: store_user_def)
  have del: "k_list_del (ThreadList u) s = Some (s\<lparr>heap := h\<rparr>)" using assms(8) by (rule k_list_eqs)
  have cur': "thread_at (sym s) (esp s AND 0xfffff000) = Some c" "thread_p (threads s c) = Some cp"
    "get_PT_of_dir s (task_dir (tasks s cp)) = Some cp"
    using cur pt by (simp_all add: current_t_def current_p_def get_PT_def)
  show ?thesis
  proof (cases "find_free_page (pagusr_table s cp) 284")
    case None
    then show ?thesis
      using assms(3-7,9)
      by (simp add: sys_pthread_create_def del copy_thread_def current_t_def current_p_def cur' get_PT_def Let_def cong: if_cong)
  next
    case (Some page)
    show ?thesis
      using st [of page] assms(3-7,9,10) Some
      by (cases "vstore32 (?T page) idp (nthread (tasks s cp)) (ram s)")
        (simp_all add: sys_pthread_create_def del copy_thread_def current_t_def current_p_def cur' get_PT_def Let_def
          map_new_page_def upd_table_def set_ss_pag_eq DEFAULT_QUANTUM_T_def created_thread_def created_def
          k_list_add_tail_case cong: if_cong)
  qed
qed

lemma sys_pthread_create_eq:
  assumes "kinv s Q M c cp" and "in_kernel s c" and "access_ok VERIFY_READ start 4"
    and "Q Free_threadqueue = ThreadList u # us" and "alloc_frame (phys_mem s) = (f, pm)"
  obtains h where "sys_pthread_create idp start arg s = do {
      page \<leftarrow> find_free_page (pagusr_table s cp) 284;
      let T = (pagusr_table s cp)(page := user_entry f);
      if user_word T idp
      then do { m \<leftarrow> vstore32 T idp (nthread (tasks s cp)) (ram s); Some (0, created s c cp u start page f pm m h) }
      else None }"
    and "\<And>page m. kinv (created s c cp u start page f pm m h)
      (Q(Free_threadqueue := us, ReadyThreads cp := Q (ReadyThreads cp) @ [ThreadList u])) M c cp"
    and "\<And>page m. in_kernel (created s c cp u start page f pm m h) c"
proof -
  let ?Q1 = "Q(Free_threadqueue := us)"
  let ?Q = "?Q1(ReadyThreads cp := Q (ReadyThreads cp) @ [ThreadList u])"
  note km = kinv_kmid [OF assms(1)]
  have cp: "cp < 10" "\<not> queued (heads M) Q (TaskList cp)"
    using kinv_proc [OF assms(1)] by (simp_all add: proc_running_def)
  obtain h where h: "list_first Free_threadqueue (heap s) = Some (ThreadList u)"
    "thread_at (sym s) (list_head_to_thread_struct (sym s) (ThreadList u)) = Some u" "list_del (ThreadList u) (heap s) = Some h"
    "shape (h(ThreadList u := h (ThreadList c))) (heads M) ?Q1"
    "\<not> queued (heads M) ?Q1 (ThreadList u)"
    "\<And>x. x \<notin> heads M \<Longrightarrow> \<not> queued (heads M) Q x \<Longrightarrow> (h(ThreadList u := h (ThreadList c))) x = heap s x"
    "u < 22" "u \<noteq> c" "\<And>i. idle_task s = Some i \<Longrightarrow> u \<noteq> i" "queued (heads M) Q (ThreadList u)"
    by (rule take_free_thread [OF assms(1,4)]) (rule that)
  let ?h1 = "h(ThreadList u := h (ThreadList c))"
  have R: "ReadyThreads cp \<in> heads M" using cp(1) by simp
  obtain g where g: "list_add_tail (ThreadList u) (ReadyThreads cp) ?h1 = Some g" "shape g (heads M) ?Q"
    "\<And>x. x \<notin> heads M \<Longrightarrow> x \<noteq> ThreadList u \<Longrightarrow> \<not> queued (heads M) ?Q1 x \<Longrightarrow> g x = ?h1 x"
    using lq.add_tail_law [OF h(4) R heads_simps(8) h(5)] by (auto simp del: fun_upd_apply simp: fun_upd_other)
  have ne: "\<not> list_empty Free_threadqueue (heap s)"
    using shape_empty_iff [OF kmid_shape [OF km] heads_simps(3)] assms(4) by simp
  note run = sys_pthread_create_run [OF assms(1-3,5) ne h(1-3,8) g(1)]
  have "g x = heap s x" if "x \<notin> heads M" "\<not> queued (heads M) Q x" for x
  proof -
    have "x \<noteq> ThreadList u" using that(2) h(10) by auto
    moreover have "\<not> queued (heads M) ?Q1 x" by (rule not_queued_shrink [OF that(2)]) (auto simp: assms(4))
    ultimately show ?thesis using that(1) g(3) h(6) [OF that] by simp
  qed
  then have k: "kinv (created s c cp u start page f pm m g) ?Q M c cp" for page m
    by (intro created_kinv [OF assms(1,4) h(7,8,9,5) g(2)])
  have "in_kernel (created s c cp u start page f pm m g) c" for page m
    using assms(2) in_kernel_cong [of "created s c cp u start page f pm m g" s c] by (simp add: created_def)
  with run k show thesis by (intro that) (simp_all only: Let_def)
qed

lemma sys_pthread_create_step:
  assumes "kinv s Q M c cp" and "in_kernel s c" and "access_ok VERIFY_READ start 4"
    and "Q Free_threadqueue = ThreadList u # us"
    and "find_free_page (pagusr_table s cp) 284 = Some page" and "alloc_frame (phys_mem s) = (f, pm)"
    and "user_word (pagusr_table s cp) idp"
  obtains h m where "sys_pthread_create idp start arg s = Some (0, created s c cp u start page f pm m h)"
    and "vstore32 (pagusr_table s cp) idp (nthread (tasks s cp)) (ram s) = Some m"
    and "kinv (created s c cp u start page f pm m h)
      (Q(Free_threadqueue := us, ReadyThreads cp := Q (ReadyThreads cp) @ [ThreadList u])) M c cp"
    and "in_kernel (created s c cp u start page f pm m h) c"
proof -
  obtain h where h: "sys_pthread_create idp start arg s = do {
      page \<leftarrow> find_free_page (pagusr_table s cp) 284;
      let T = (pagusr_table s cp)(page := user_entry f);
      if user_word T idp
      then do { m \<leftarrow> vstore32 T idp (nthread (tasks s cp)) (ram s); Some (0, created s c cp u start page f pm m h) }
      else None }"
    "\<And>page m. kinv (created s c cp u start page f pm m h)
      (Q(Free_threadqueue := us, ReadyThreads cp := Q (ReadyThreads cp) @ [ThreadList u])) M c cp"
    "\<And>page m. in_kernel (created s c cp u start page f pm m h) c"
    by (rule sys_pthread_create_eq [OF assms(1-4,6), of idp arg]) (rule that)
  obtain m where m: "vstore32 (pagusr_table s cp) idp (nthread (tasks s cp)) (ram s) = Some m"
    using vstore32_some [OF assms(7)] by blast
  have pz: "pbase_addr (pagusr_table s cp page) = 0" using find_free_page_spec [OF assms(5)] by simp
  have "sys_pthread_create idp start arg s = Some (0, created s c cp u start page f pm m h)"
    using h(1) assms(5) m user_word_new_page [OF assms(7) pz] by simp
  with m h(2,3) show thesis by (intro that)
qed

end
