(* ===== verification/Scenario.thy ===== *)
theory Scenario
  imports BootProofs ThreadProofs
begin

text \<open>
  Concrete states of the kernel: after \<open>init_kernel\<close> on an example layout, inside the
  kernel on an entry from there, and after a first \<open>sys_pthread_create\<close>. They show that the
  hypotheses of the theorems about running kernels can hold.
\<close>

section \<open>After initialisation\<close>

definition booted :: kernel where
  "booted = the (init_kernel (kernel0 example_layout (\<lambda>_ _. 0) (\<lambda>_. 0) 0))"

lemma booted_facts:
  obtains cs m1 ds where "take_frames alloc_frame 8 (init_frames (\<lambda>_. 0)) = (cs, m1)"
    and "take_frames alloc_frame 20 m1 = (ds, phys_mem booted)"
    and "kinv booted boot_queues {} 1 1"
    and "pagusr_table booted 1 = user_pages cs ds (init_table example_layout (\<lambda>_. 0))"
    and "mutexes booted = (\<lambda>_. \<lparr>locked = 0, owner = 0\<rparr>)" and "sym booted = example_layout"
    and "remaining_quantum_p booted = 20" and "remaining_quantum_t booted = 10"
    and "PID (tasks booted 1) = 1" and "global_PID booted = 1000" and "on_screen (con booted)"
    and "nthread (tasks booted 1) = 2" and "total_quantum (tasks booted 1) = 20" and "TID (threads booted 1) = 1"
    and "register_esp (threads booted 1) = 0"
proof -
  obtain cs m1 where 1: "take_frames alloc_frame 8 (init_frames (\<lambda>_. 0)) = (cs, m1)" by fastforce
  obtain ds m2 where 2: "take_frames alloc_frame 20 m1 = (ds, m2)" by fastforce
  let ?s0 = "kernel0 example_layout (\<lambda>_ _. 0) (\<lambda>_. 0) 0"
  have e: "?s0\<lparr>con := console_init (\<lambda>_. 0)\<rparr> = ?s0" by (simp add: kernel0_def)
  obtain s' where s': "init_kernel (?s0\<lparr>con := console_init (\<lambda>_. 0)\<rparr>) = Some s'" "kinv s' boot_queues {} 1 1"
    "phys_mem s' = m2" "pagusr_table s' 1 = user_pages cs ds (init_table example_layout (\<lambda>_. 0))"
    "remaining_quantum_p s' = 20" "remaining_quantum_t s' = 10" "ram s' = (\<lambda>_ _. 0)"
    "con s' = console_init (\<lambda>_. 0)" "mutexes s' = (\<lambda>_. \<lparr>locked = 0, owner = 0\<rparr>)" "PID (tasks s' 1) = 1"
    "global_PID s' = 1000" "sym s' = example_layout" "saved_ok example_layout 0 (register_esp (threads s' 0))"
    "dirs_ok s'" "cr3 s' = dir_addr example_layout 1"
    "nthread (tasks s' 1) = 2" "total_quantum (tasks s' 1) = 20"
    "TID (threads s' 1) = 1" "register_esp (threads s' 1) = 0"
    by (rule init_kernel_kinv [OF example_layout_ok 1 2]) (rule that)
  have b: "booted = s'" using s'(1) by (simp add: booted_def e)
  have "on_screen (con s')" by (simp add: s'(8) on_screen_def console_init_def)
  then show thesis using 2 s' unfolding b [symmetric] by (intro that [OF 1, of ds]) simp_all
qed

lemma booted_kinv: "kinv booted boot_queues {} 1 1"
  by (rule booted_facts)

section \<open>In the kernel\<close>

definition entered :: kernel where
  "entered = kernel_entry 21 21 booted"

lemma entered_kinv: "kinv entered boot_queues {} 1 1" "in_kernel entered 1"
  using kernel_entry_in_kernel [OF booted_kinv, of 21 21] by (simp_all add: entered_def entry_depth_def)

lemma entered_simps [simp]:
  "pagusr_table entered = pagusr_table booted" "phys_mem entered = phys_mem booted"
  "mutexes entered = mutexes booted" "sym entered = sym booted" "tasks entered = tasks booted"
  "threads entered = threads booted" "con entered = con booted" "ram entered = ram booted"
  "remaining_quantum_p entered = remaining_quantum_p booted"
  "remaining_quantum_t entered = remaining_quantum_t booted" "global_PID entered = global_PID booted"
  by (simp_all add: entered_def kernel_entry_def)

text \<open>The first free page of the first process, and its data pages.\<close>

lemma booted_pages:
  "find_free_page (pagusr_table booted 1) 284 = Some 284"
  "264 * 4096 \<le> unat a \<Longrightarrow> unat a + 4 \<le> 284 * 4096 \<Longrightarrow> user_word (pagusr_table booted 1) a"
proof -
  obtain cs m1 ds where 1: "take_frames alloc_frame 8 (init_frames (\<lambda>_. 0)) = (cs, m1)"
    and 2: "take_frames alloc_frame 20 m1 = (ds, phys_mem booted)"
    and T: "pagusr_table booted 1 = user_pages cs ds (init_table example_layout (\<lambda>_. 0))"
    by (rule booted_facts)
  note fr = boot_frames [OF 1 2]
  have "pbase_addr (init_table example_layout (\<lambda>_. 0) 284) = 0" using init_table_fields(2) [of 284] by simp
  then show "find_free_page (pagusr_table booted 1) 284 = Some 284"
    unfolding T by (simp add: find_free_page.simps [of _ 284] user_pages_at [OF fr(1,2)])
  have pool: "\<forall>f \<in> set (cs @ ds). unat f < 1024" using fr(4) by (auto simp: pool_frame_def)
  have byte: "user_byte (pagusr_table booted 1) b" if "264 * 4096 \<le> unat b" "unat b < 284 * 4096" for b
  proof -
    let ?p = "unat b div 4096"
    have p: "264 \<le> ?p" "?p < 284" using that by auto
    then have "(cs @ ds) ! (?p - 256) \<in> set (cs @ ds)" using fr(1,2) by (intro nth_mem) simp
    then have "pool_frame (unat ((cs @ ds) ! (?p - 256)))" using fr(4) by blast
    then have f: "256 \<le> unat ((cs @ ds) ! (?p - 256))" by (simp add: pool_frame_def)
    have "kaddr (pagusr_table booted 1) b = Some (unat ((cs @ ds) ! (?p - 256)), unat b mod 4096)"
      using p by (simp only: T boot_kaddr [OF fr(1,2) pool] Let_def) simp
    with f show ?thesis by (simp add: user_byte_def)
  qed
  show "user_word (pagusr_table booted 1) a" if "264 * 4096 \<le> unat a" "unat a + 4 \<le> 284 * 4096"
  proof -
    have u: "unat (a + of_nat k) = unat a + k" if "k < 4" for k
      using that \<open>unat a + 4 \<le> 284 * 4096\<close> by (intro unat_add_of_nat32) simp
    have "user_byte (pagusr_table booted 1) (a + of_nat k)" if "k < 4" for k
      using u [OF that] that \<open>264 * 4096 \<le> unat a\<close> \<open>unat a + 4 \<le> 284 * 4096\<close> by (intro byte) auto
    from this [of 0] this [of 1] this [of 2] this [of 3] show ?thesis by (simp add: user_word_def)
  qed
qed

lemma null_mapped_kinv: "kinv s Q M c cp \<Longrightarrow> null_mapped s \<longleftrightarrow> pte_present (pagusr_table s cp 0)"
  using kinv_tables(2) [of s Q M c cp] by (simp add: null_mapped_def)

text \<open>Page 0 of the first process is not present.\<close>

lemma entered_null: "\<not> null_mapped entered"
proof -
  obtain cs m1 ds where 1: "take_frames alloc_frame 8 (init_frames (\<lambda>_. 0)) = (cs, m1)"
    and 2: "take_frames alloc_frame 20 m1 = (ds, phys_mem booted)"
    and T: "pagusr_table booted 1 = user_pages cs ds (init_table example_layout (\<lambda>_. 0))" by (rule booted_facts)
  note fr = boot_frames [OF 1 2]
  have "\<not> pte_present (pagusr_table entered 1 0)"
    using init_table_fields [of 0] by (simp add: T [unfolded One_nat_def] user_pages_at [OF fr(1,2)] kernel_mapped_def)
  then show ?thesis using kinv_tables(2) [OF entered_kinv(1)] by (simp add: null_mapped_def)
qed

section \<open>A second thread\<close>

lemma second_thread:
  obtains s where "sys_pthread_create 0x108000 0x100000 0 entered = Some (0, s)"
    and "kinv s (boot_queues(Free_threadqueue := map ThreadList [3..<10], ReadyThreads 1 := [ThreadList 2])) {} 1 1"
    and "in_kernel s 1" and "nthread (tasks s 1) = nthread (tasks booted 1) + 1"
    and "user_word (pagusr_table s 1) 0x108000"
    and "mutexes s = mutexes booted" and "TID (threads s 1) = TID (threads booted 1)" and "\<not> null_mapped s"
proof -
  have ok: "access_ok VERIFY_READ 0x100000 4" by (simp add: access_ok_range)
  have free: "boot_queues Free_threadqueue = ThreadList 2 # map ThreadList [3..<10]" by (simp add: upt_rec)
  obtain f pm where a: "alloc_frame (phys_mem entered) = (f, pm)" by fastforce
  have page: "find_free_page (pagusr_table entered 1) 284 = Some 284" using booted_pages(1) by simp
  have w: "user_word (pagusr_table entered 1) 0x108000" using booted_pages(2) [of "0x108000"] by simp
  have z: "pbase_addr (pagusr_table entered 1 284) = 0" using find_free_page_spec [OF page] by simp
  obtain h m where s: "sys_pthread_create 0x108000 0x100000 0 entered =
      Some (0, created entered 1 1 2 0x100000 284 f pm m h)"
    "vstore32 (pagusr_table entered 1) 0x108000 (nthread (tasks entered 1)) (ram entered) = Some m"
    "kinv (created entered 1 1 2 0x100000 284 f pm m h) (boot_queues(Free_threadqueue := map ThreadList [3..<10],
       ReadyThreads 1 := boot_queues (ReadyThreads 1) @ [ThreadList 2])) {} 1 1"
    "in_kernel (created entered 1 1 2 0x100000 284 f pm m h) 1"
    by (rule sys_pthread_create_step [OF entered_kinv ok free page a w])
  have "\<not> null_mapped (created entered 1 1 2 0x100000 284 f pm m h)"
    using entered_null null_mapped_kinv [OF s(3)] null_mapped_kinv [OF entered_kinv(1)] by (simp add: created_def)
  then show thesis
    using s(1,3,4) user_word_new_page(1) [OF w z] by (intro that [OF s(1)]) (simp_all add: created_def)
qed

end
