(* ===== verification/ForkProofs.thy ===== *)
theory ForkProofs
  imports Scenario
begin

text \<open>
  \<open>sys_fork\<close> computed on states that satisfy the invariant: the memory of the child, its
  kernel stack and the queues, and the path on which the frames run out.
\<close>

section \<open>The queues\<close>

text \<open>Taking the first free process and the first free thread.\<close>

lemma take_free_pair:
  assumes "shape h (heads M) Q" and "Q Freequeue = TaskList i # fs" and "Q Free_threadqueue = ThreadList u # us"
  obtains h1 h2 where "list_first Freequeue h = Some (TaskList i)" "list_first Free_threadqueue h = Some (ThreadList u)"
    "list_del (TaskList i) h = Some h1" "list_del (ThreadList u) h1 = Some h2"
    "\<And>x. shape (h2(ThreadList u := x)) (heads M) (Q(Freequeue := fs, Free_threadqueue := us))"
    "\<not> queued (heads M) (Q(Freequeue := fs, Free_threadqueue := us)) (TaskList i)"
    "\<not> queued (heads M) (Q(Freequeue := fs, Free_threadqueue := us)) (ThreadList u)"
    "\<And>x. x \<notin> heads M \<Longrightarrow> \<not> queued (heads M) Q x \<Longrightarrow> h2 x = h x"
    "queued (heads M) Q (TaskList i)" "queued (heads M) Q (ThreadList u)"
proof -
  let ?Q1 = "Q(Freequeue := fs)" and ?Q2 = "Q(Freequeue := fs, Free_threadqueue := us)"
  have iq: "TaskList i \<in> set (Q Freequeue)" and uq: "ThreadList u \<in> set (?Q1 Free_threadqueue)"
    using assms by simp_all
  have r: "remove1 (TaskList i) (Q Freequeue) = fs" "remove1 (ThreadList u) (?Q1 Free_threadqueue) = us"
    using assms by simp_all
  obtain h1 where h1: "list_del (TaskList i) h = Some h1" "shape h1 (heads M) ?Q1"
    "\<And>x. x \<notin> heads M \<Longrightarrow> \<not> queued (heads M) Q x \<Longrightarrow> h1 x = h x"
    using lq.del_law [OF assms(1) heads_simps(1) iq] unfolding r(1) by blast
  have n1: "\<not> queued (heads M) ?Q1 (TaskList i)"
    by (rule shape_tail_unqueued [OF assms(1) heads_simps(1) assms(2)])
  obtain h2 where h2: "list_del (ThreadList u) h1 = Some h2" "shape h2 (heads M) ?Q2"
    "\<And>x. x \<notin> heads M \<Longrightarrow> \<not> queued (heads M) ?Q1 x \<Longrightarrow> h2 x = h1 x"
    using lq.del_law [OF h1(2) heads_simps(3) uq] unfolding r(2) by blast
  have q1: "?Q1 Free_threadqueue = ThreadList u # us" using assms(3) by simp
  have nu: "\<not> queued (heads M) ?Q2 (ThreadList u)"
    by (rule shape_tail_unqueued [OF h1(2) heads_simps(3) q1])
  have ni: "\<not> queued (heads M) ?Q2 (TaskList i)"
    by (rule not_queued_shrink [OF n1]) (auto simp: assms(3))
  have "shape (h2(ThreadList u := x)) (heads M) ?Q2" for x
    by (rule shape_upd_unqueued [OF h2(2) _ nu]) simp
  moreover have "h2 x = h x" if "x \<notin> heads M" "\<not> queued (heads M) Q x" for x
  proof -
    have "\<not> queued (heads M) ?Q1 x" by (rule not_queued_shrink [OF that(2)]) (auto simp: assms(2))
    with that h1(3) h2(3) show ?thesis by simp
  qed
  moreover have "queued (heads M) Q (TaskList i)" "queued (heads M) Q (ThreadList u)"
    using iq uq by (auto intro: queuedI [of Freequeue "heads M" _ Q] queuedI [of Free_threadqueue "heads M" _ Q])
  moreover have "list_first Freequeue h = Some (TaskList i)" "list_first Free_threadqueue h = Some (ThreadList u)"
    using lq.first_law [OF assms(1) heads_simps(1)] lq.first_law [OF assms(1) heads_simps(3)] assms(2,3) by simp_all
  ultimately show thesis using h1(1) h2(1) ni nu by (intro that) assumption+
qed

text \<open>The new process and its thread become ready.\<close>

lemma enqueue_child:
  assumes "shape h (heads M) Q" and "i < 10" and "Q (ReadyThreads i) = []"
    and "\<not> queued (heads M) Q (TaskList i)" and "\<not> queued (heads M) Q (ThreadList u)"
  obtains h1 h2 where "list_add_tail (TaskList i) Readyqueue h = Some h1"
    "list_add_tail (ThreadList u) (ReadyThreads i) h1 = Some h2"
    "shape h2 (heads M) (Q(Readyqueue := Q Readyqueue @ [TaskList i], ReadyThreads i := [ThreadList u]))"
    "\<And>x. x \<notin> heads M \<Longrightarrow> x \<noteq> TaskList i \<Longrightarrow> x \<noteq> ThreadList u \<Longrightarrow> \<not> queued (heads M) Q x \<Longrightarrow> h2 x = h x"
proof -
  let ?Q1 = "Q(Readyqueue := Q Readyqueue @ [TaskList i])"
  obtain h1 where h1: "list_add_tail (TaskList i) Readyqueue h = Some h1" "shape h1 (heads M) ?Q1"
    "\<And>x. x \<notin> heads M \<Longrightarrow> x \<noteq> TaskList i \<Longrightarrow> \<not> queued (heads M) Q x \<Longrightarrow> h1 x = h x"
    using lq.add_tail_law [OF assms(1) heads_simps(2) heads_simps(7) assms(4)] by blast
  have r: "ReadyThreads i \<in> heads M" using assms(2) by simp
  have nu: "\<not> queued (heads M) ?Q1 (ThreadList u)"
    using not_queued_append [OF assms(5), of "TaskList i" Readyqueue] by simp
  obtain h2 where h2: "list_add_tail (ThreadList u) (ReadyThreads i) h1 = Some h2"
    "shape h2 (heads M) (?Q1(ReadyThreads i := ?Q1 (ReadyThreads i) @ [ThreadList u]))"
    "\<And>x. x \<notin> heads M \<Longrightarrow> x \<noteq> ThreadList u \<Longrightarrow> \<not> queued (heads M) ?Q1 x \<Longrightarrow> h2 x = h1 x"
    using lq.add_tail_law [OF h1(2) r heads_simps(8) nu] by blast
  have "?Q1(ReadyThreads i := ?Q1 (ReadyThreads i) @ [ThreadList u]) =
      Q(Readyqueue := Q Readyqueue @ [TaskList i], ReadyThreads i := [ThreadList u])" using assms(3) by simp
  moreover have "h2 x = h x" if "x \<notin> heads M" "x \<noteq> TaskList i" "x \<noteq> ThreadList u" "\<not> queued (heads M) Q x" for x
    using that h1(3) h2(3) not_queued_append [of "heads M" Q x "TaskList i" Readyqueue] by simp
  ultimately show thesis using h1(1) h2(1,2) by (intro that) (assumption | simp only:)+
qed

section \<open>The child's frames\<close>

lemma mapped_run_Nil: "mapped_run ent base [] T = T"
  by (rule ext) (auto simp: mapped_run_def)

lemma alloc_data_all:
  "take_frames alloc_frame n (phys_mem s) = (ds, m') \<Longrightarrow> -1 \<notin> set ds \<Longrightarrow> pag + n = 20 \<Longrightarrow>
     alloc_data PT pag s = (None, s\<lparr>phys_mem := m',
       pagusr_table := (pagusr_table s)(PT := mapped_run user_entry (264 + pag) ds (pagusr_table s PT))\<rparr>)"
proof (induction n arbitrary: pag s ds)
  case 0
  then show ?case by (simp add: alloc_data.simps [of PT 20] mapped_run_Nil)
next
  case (Suc n)
  obtain f m1 where f: "alloc_frame (phys_mem s) = (f, m1)" by fastforce
  obtain gs m2 where g: "take_frames alloc_frame n m1 = (gs, m2)" by fastforce
  have e: "ds = f # gs" "m2 = m'" using Suc.prems(1) f g by simp_all
  let ?s = "s\<lparr>phys_mem := m1, pagusr_table := (pagusr_table s)(PT := (pagusr_table s PT)(264 + pag := user_entry f))\<rparr>"
  have "alloc_data PT (Suc pag) ?s = (None, ?s\<lparr>phys_mem := m', pagusr_table := (pagusr_table ?s)
      (PT := mapped_run user_entry (264 + Suc pag) gs (pagusr_table ?s PT))\<rparr>)"
    using g e Suc.prems by (intro Suc.IH) simp_all
  moreover have "mapped_run user_entry (264 + Suc pag) gs (T(264 + pag := user_entry f)) =
      mapped_run user_entry (264 + pag) ds T" for T
    using mapped_run_Cons [of user_entry "264 + pag" gs T f] e by simp
  moreover have "f \<noteq> -1" "pag < 20" using e Suc.prems by auto
  ultimately show ?case
    using f by (simp only: alloc_data.simps [of PT pag] upd_table_def set_ss_pag_eq Let_def) (simp, simp add: fun_upd_def)
qed

lemma alloc_data_fails:
  "take_frames alloc_frame n (phys_mem s) = (ds, m') \<Longrightarrow> -1 \<notin> set ds \<Longrightarrow> pag + n < 20 \<Longrightarrow>
     alloc_frame m' = (-1, m') \<Longrightarrow>
     alloc_data PT pag s = (Some (pag + n), s\<lparr>phys_mem := m',
       pagusr_table := (pagusr_table s)(PT := mapped_run user_entry (264 + pag) ds (pagusr_table s PT))\<rparr>)"
proof (induction n arbitrary: pag s ds)
  case 0
  then show ?case by (simp add: alloc_data.simps [of PT pag] mapped_run_Nil)
next
  case (Suc n)
  obtain f m1 where f: "alloc_frame (phys_mem s) = (f, m1)" by fastforce
  obtain gs m2 where g: "take_frames alloc_frame n m1 = (gs, m2)" by fastforce
  have e: "ds = f # gs" "m2 = m'" using Suc.prems(1) f g by simp_all
  let ?s = "s\<lparr>phys_mem := m1, pagusr_table := (pagusr_table s)(PT := (pagusr_table s PT)(264 + pag := user_entry f))\<rparr>"
  have "alloc_data PT (Suc pag) ?s = (Some (Suc pag + n), ?s\<lparr>phys_mem := m', pagusr_table := (pagusr_table ?s)
      (PT := mapped_run user_entry (264 + Suc pag) gs (pagusr_table ?s PT))\<rparr>)"
    using g e Suc.prems by (intro Suc.IH) simp_all
  moreover have "mapped_run user_entry (264 + Suc pag) gs (T(264 + pag := user_entry f)) =
      mapped_run user_entry (264 + pag) ds T" for T
    using mapped_run_Cons [of user_entry "264 + pag" gs T f] e by simp
  moreover have "f \<noteq> -1" "pag < 20" using e Suc.prems by auto
  ultimately show ?case
    using f by (simp only: alloc_data.simps [of PT pag] upd_table_def set_ss_pag_eq Let_def) (simp, simp add: fun_upd_def)
qed

text \<open>The loops that map the parent's frames in the child's table.\<close>

lemma share_pages:
  assumes "i \<noteq> c" and "lo \<le> hi"
  shows "for_each lo hi (\<lambda>pag. share_page i c (base + pag)) s = s\<lparr>pagusr_table := (pagusr_table s)
    (i := (\<lambda>p. if base + lo \<le> p \<and> p < base + hi then user_entry (pbase_addr (pagusr_table s c p)) else pagusr_table s i p))\<rparr>"
proof -
  let ?I = "\<lambda>n s'. s' = s\<lparr>pagusr_table := (pagusr_table s)
    (i := (\<lambda>p. if base + lo \<le> p \<and> p < base + n then user_entry (pbase_addr (pagusr_table s c p)) else pagusr_table s i p))\<rparr>"
  show ?thesis
  proof (rule for_each_invariant [where I = ?I, OF assms(2)])
    have "(\<lambda>p. if base + lo \<le> p \<and> p < base + lo then user_entry (pbase_addr (pagusr_table s c p))
        else pagusr_table s i p) = pagusr_table s i" by (rule ext) auto
    then show "?I lo s" by simp
    show "?I (Suc n) (share_page i c (base + n) s')" if "lo \<le> n" "n < hi" "?I n s'" for n s'
      using that assms(1)
      by (auto simp: share_page_def upd_table_def set_ss_pag_eq get_frame_def fun_eq_iff less_Suc_eq
          intro!: arg_cong [where f = "\<lambda>t. s\<lparr>pagusr_table := t\<rparr>"])
  qed
qed

text \<open>One page of data.\<close>

lemma copy_to_child_step:
  assumes "get_PT_of_dir s (cr3 s) = Some c" and "i \<noteq> c" and "264 \<le> pag" and "pag < 284"
    and "pte_present (pagusr_table s c pag)"
    and "pbase_addr (pagusr_table s i pag) \<noteq> pbase_addr (pagusr_table s c pag)"
  shows "copy_to_child i c pag s = Some (s\<lparr>ram := (ram s)(unat (pbase_addr (pagusr_table s i pag)) :=
      (\<lambda>k. if k < 4096 then ram s (unat (pbase_addr (pagusr_table s c pag))) k
           else ram s (unat (pbase_addr (pagusr_table s i pag))) k)),
    pagusr_table := (pagusr_table s)(c := (pagusr_table s c)(pag + 20 := 0))\<rparr>)"
proof -
  let ?f = "pbase_addr (pagusr_table s i pag)"
  let ?PT = "(pagusr_table s c)(pag + 20 := user_entry ?f)"
  let ?s1 = "s\<lparr>pagusr_table := (pagusr_table s)(c := ?PT)\<rparr>"
  have f: "?f AND 0xFFFFF = ?f" by (rule and_20_bits) (simp only: pbase_addr_def drop_page_small)
  have "mmu_table ?s1 = Some ?PT" using assms(1) by (simp add: mmu_table_def)
  moreover have "copy_mapped ?PT (of_nat (4096 * pag)) (of_nat (4096 * (pag + 20))) 4096 (ram s) =
      Some ((ram s)(unat (pbase_addr (?PT (pag + 20))) := (\<lambda>k. if k < 4096 then ram s (unat (pbase_addr (?PT pag))) k
        else ram s (unat (pbase_addr (?PT (pag + 20)))) k)))"
    using assms(3-6) f by (intro copy_page) simp_all
  ultimately show ?thesis
    using f by (simp add: copy_to_child_def Let_def upd_table_def set_ss_pag_eq del_ss_pag_def get_frame_def cong: if_cong)
qed

section \<open>The child's memory\<close>

text \<open>
  The page tables after the fork: the child sees the parent's kernel and code frames and its
  own data frames; the parent loses whatever it had in the window behind its data.
\<close>

definition child_table :: "page_table \<Rightarrow> page_table \<Rightarrow> u32 list \<Rightarrow> page_table" where
  "child_table T0 TP ds = (\<lambda>p. if p < 264 then user_entry (pbase_addr (TP p))
     else if p < 284 then user_entry (ds ! (p - 264)) else T0 p)"

definition without_window :: "page_table \<Rightarrow> page_table" where
  "without_window TP = (\<lambda>p. if 284 \<le> p \<and> p < 304 then 0 else TP p)"

text \<open>The frames \<open>ds\<close> hold what the parent's data pages hold; other frames are as before.\<close>

definition copied_pages :: "page_table \<Rightarrow> u32 list \<Rightarrow> frames \<Rightarrow> frames \<Rightarrow> bool" where
  "copied_pages TP ds m m' \<longleftrightarrow>
     (\<forall>k < 20. \<forall>j < 4096. m' (unat (ds ! k)) j = m (unat (pbase_addr (TP (264 + k)))) j)
   \<and> (\<forall>f. f \<notin> unat ` set ds \<longrightarrow> m' f = m f)"

text \<open>The loop has copied the pages below \<open>n\<close> and unmapped them again from the window.\<close>

definition copied_below :: "kernel \<Rightarrow> nat \<Rightarrow> page_table \<Rightarrow> u32 list \<Rightarrow> nat \<Rightarrow> kernel \<Rightarrow> bool" where
  "copied_below s c TP ds n s' \<longleftrightarrow>
     (\<exists>m. s' = s\<lparr>ram := m, pagusr_table := (pagusr_table s)(c := (\<lambda>p. if 284 \<le> p \<and> p < 20 + n then 0 else TP p))\<rparr>
   \<and> (\<forall>k < n - 264. \<forall>j < 4096. m (unat (ds ! k)) j = ram s (unat (pbase_addr (TP (264 + k)))) j)
   \<and> (\<forall>f. f \<notin> unat ` set ds \<longrightarrow> m f = ram s f))"

lemma copied_below_start:
  assumes "pagusr_table s c = TP"
  shows "copied_below s c TP ds 264 s"
proof -
  have "(\<lambda>p. if 284 \<le> p \<and> p < 20 + 264 then 0 else TP p) = TP" by (rule ext) auto
  then have "s = s\<lparr>ram := ram s, pagusr_table := (pagusr_table s)(c := (\<lambda>p. if 284 \<le> p \<and> p < 20 + 264 then 0 else TP p))\<rparr>"
    using assms by (auto simp: fun_upd_idem)
  then show ?thesis unfolding copied_below_def by (intro exI [of _ "ram s"]) simp
qed

lemma copied_below_step:
  assumes "get_PT_of_dir s (cr3 s) = Some c" and "i \<noteq> c"
    and "\<And>k. k < 20 \<Longrightarrow> pagusr_table s i (264 + k) = user_entry (ds ! k)"
    and "length ds = 20" and "distinct ds" and "\<And>f. f \<in> set ds \<Longrightarrow> unat f < 2 ^ 20"
    and "\<And>p. 264 \<le> p \<Longrightarrow> p < 284 \<Longrightarrow> pte_present (TP p) \<and> unat (pbase_addr (TP p)) \<notin> unat ` set ds"
    and "264 \<le> n" "n < 284" and "copied_below s c TP ds n s'"
  shows "\<exists>s''. copy_to_child i c n s' = Some s'' \<and> copied_below s c TP ds (Suc n) s''"
proof -
  let ?W = "\<lambda>n p. if 284 \<le> p \<and> p < 20 + n then 0 else TP p"
  note n = assms(8,9)
  obtain m where s': "s' = s\<lparr>ram := m, pagusr_table := (pagusr_table s)(c := ?W n)\<rparr>"
    and m: "\<And>k j. k < n - 264 \<Longrightarrow> j < 4096 \<Longrightarrow> m (unat (ds ! k)) j = ram s (unat (pbase_addr (TP (264 + k)))) j"
      "\<And>f. f \<notin> unat ` set ds \<Longrightarrow> m f = ram s f" using assms(10) unfolding copied_below_def by blast
  let ?d = "ds ! (n - 264)"
  have d: "?d \<in> set ds" using n assms(4) by (intro nth_mem) simp
  have dm: "?d AND 0xFFFFF = ?d" using assms(6) [OF d] by (rule and_20_bits)
  have ti: "pagusr_table s' i n = user_entry ?d" using assms(2) assms(3) [of "n - 264"] n by (simp add: s')
  have tc: "pagusr_table s' c n = TP n" using n by (simp add: s')
  have src: "pte_present (TP n)" "unat (pbase_addr (TP n)) \<notin> unat ` set ds" using assms(7) n by simp_all
  have ne: "pbase_addr (pagusr_table s' i n) \<noteq> pbase_addr (pagusr_table s' c n)"
    using src(2) d by (auto simp: ti tc dm)
  let ?m = "m(unat ?d := (\<lambda>k. if k < 4096 then m (unat (pbase_addr (TP n))) k else m (unat ?d) k))"
  have "get_PT_of_dir s' (cr3 s') = Some c" using assms(1) by (simp add: s')
  from copy_to_child_step [OF this assms(2) n _ ne] src(1)
  have step: "copy_to_child i c n s' = Some (s'\<lparr>ram := ?m,
      pagusr_table := (pagusr_table s')(c := (pagusr_table s' c)(n + 20 := 0))\<rparr>)"
    by (simp add: ti tc dm cong: if_cong) (simp add: s' cong: if_cong)
  have w: "(pagusr_table s' c)(n + 20 := 0) = ?W (Suc n)" using n by (auto simp: s' fun_eq_iff)
  have "s'\<lparr>ram := ?m, pagusr_table := (pagusr_table s')(c := (pagusr_table s' c)(n + 20 := 0))\<rparr> =
      s\<lparr>ram := ?m, pagusr_table := (pagusr_table s)(c := ?W (Suc n))\<rparr>" unfolding w by (simp add: s')
  moreover have "?m (unat (ds ! k)) j = ram s (unat (pbase_addr (TP (264 + k)))) j"
    if "k < Suc n - 264" "j < 4096" for k j
  proof (cases "k = n - 264")
    case True
    with n that(2) m(2) [OF src(2)] show ?thesis by simp
  next
    case False
    then have k: "k < n - 264" using that(1) by simp
    have "ds ! k \<noteq> ?d" using k n assms(4,5) by (simp add: nth_eq_iff_index_eq)
    with m(1) [OF k that(2)] show ?thesis by (simp add: word_unat_eq_iff)
  qed
  moreover have "?m f = ram s f" if "f \<notin> unat ` set ds" for f using that d m(2) [OF that] by auto
  ultimately show ?thesis unfolding step copied_below_def by blast
qed

lemma copy_pages_loop:
  assumes "get_PT_of_dir s (cr3 s) = Some c" and "i \<noteq> c" and "pagusr_table s c = TP"
    and "\<And>k. k < 20 \<Longrightarrow> pagusr_table s i (264 + k) = user_entry (ds ! k)"
    and "length ds = 20" and "distinct ds" and "\<And>f. f \<in> set ds \<Longrightarrow> unat f < 2 ^ 20"
    and "\<And>p. 264 \<le> p \<Longrightarrow> p < 284 \<Longrightarrow> pte_present (TP p) \<and> unat (pbase_addr (TP p)) \<notin> unat ` set ds"
  shows "\<exists>m. for_loop 264 284 (copy_to_child i c) s =
    Some (s\<lparr>ram := m, pagusr_table := (pagusr_table s)(c := without_window TP)\<rparr>) \<and> copied_pages TP ds (ram s) m"
proof -
  have "\<exists>s'. for_loop 264 284 (copy_to_child i c) s = Some s' \<and> copied_below s c TP ds 284 s'"
    by (rule for_loop_invariant [where I = "copied_below s c TP ds"])
      (simp_all add: copied_below_start [OF assms(3)] copied_below_step [OF assms(1,2,4-8)])
  moreover have "(\<lambda>p. if 284 \<le> p \<and> p < 20 + 284 then 0 else TP p) = without_window TP"
    by (simp add: without_window_def)
  ultimately show ?thesis by (auto simp: copied_pages_def copied_below_def)
qed

lemma fork_memory_eq:
  assumes "get_PT_of_dir s (cr3 s) = Some c" and "i \<noteq> c" and "pagusr_table s c = TP"
    and "pagusr_table s i = mapped_run user_entry 264 ds T0"
    and "length ds = 20" and "distinct ds" and "\<And>f. f \<in> set ds \<Longrightarrow> unat f < 2 ^ 20"
    and "\<And>p. 264 \<le> p \<Longrightarrow> p < 284 \<Longrightarrow> pte_present (TP p) \<and> unat (pbase_addr (TP p)) \<notin> unat ` set ds"
  obtains m where "fork_memory i c s = Some (s\<lparr>ram := m,
      pagusr_table := (pagusr_table s)(i := child_table T0 TP ds, c := without_window TP)\<rparr>)"
    and "copied_pages TP ds (ram s) m"
proof -
  let ?T1 = "\<lambda>p. if p < 256 then user_entry (pbase_addr (TP p)) else pagusr_table s i p"
  let ?s1 = "s\<lparr>pagusr_table := (pagusr_table s)(i := ?T1)\<rparr>"
  let ?s2 = "s\<lparr>pagusr_table := (pagusr_table s)(i := child_table T0 TP ds)\<rparr>"
  have 1: "for_each 0 256 (share_page i c) s = ?s1"
    using share_pages [OF assms(2), of 0 256 0 s] unfolding assms(3) by simp
  have "(\<lambda>p. if 256 \<le> p \<and> p < 264 then user_entry (pbase_addr (TP p)) else ?T1 p) = child_table T0 TP ds"
    using assms(4,5) by (auto simp: child_table_def mapped_run_def fun_eq_iff)
  then have 2: "for_each 0 8 (\<lambda>pag. share_page i c (256 + pag)) ?s1 = ?s2"
    using share_pages [OF assms(2), of 0 8 256 ?s1] assms(2,3) by (simp cong: if_cong)
  have "\<exists>m. for_loop 264 284 (copy_to_child i c) ?s2 =
    Some (?s2\<lparr>ram := m, pagusr_table := (pagusr_table ?s2)(c := without_window TP)\<rparr>) \<and> copied_pages TP ds (ram ?s2) m"
    by (rule copy_pages_loop [OF _ assms(2) _ _ assms(5-8)])
      (use assms(1-3) in \<open>simp_all add: child_table_def\<close>)
  then obtain m where m: "for_loop 264 284 (copy_to_child i c) ?s2 =
    Some (?s2\<lparr>ram := m, pagusr_table := (pagusr_table ?s2)(c := without_window TP)\<rparr>)" "copied_pages TP ds (ram s) m"
    by auto
  have "fork_memory i c s = for_loop 264 284 (copy_to_child i c) ?s2"
    using 1 2 by (simp add: fork_memory_def Let_def)
  also have "\<dots> = Some (s\<lparr>ram := m,
      pagusr_table := (pagusr_table s)(i := child_table T0 TP ds, c := without_window TP)\<rparr>)"
    unfolding m(1) using assms(2) by simp
  finally show thesis using m(2) by (rule that)
qed

section \<open>The child's kernel stack\<close>

lemma stack_slot_eq:
  assumes "layout_ok \<sigma>" and "stack_slot \<sigma> a = Some (i, k)"
  shows "a = stack_addr \<sigma> i k" and "i < 22" and "k < 1024"
proof -
  have "thread_at \<sigma> (a AND 0xfffff000) = Some i" "unat a mod 4 = 0" "k = unat a mod 4096 div 4"
    using assms(2) by (auto simp: stack_slot_def split: option.splits if_splits)
  moreover have "x = 4 * (x div 4)" if "unat a mod 4 = 0" "x = unat a mod 4096" for x
    using that mod_mod_cancel [of 4 4096 "unat a"] mult_div_mod_eq [of 4 x] by simp
  ultimately have e: "unat (thread_base \<sigma>) \<le> unat a - unat a mod 4096"
    "(unat a - unat a mod 4096 - unat (thread_base \<sigma>)) mod 4096 = 0"
    "i = (unat a - unat a mod 4096 - unat (thread_base \<sigma>)) div 4096" "i < 22" "unat a mod 4096 = 4 * k"
    by (auto simp: thread_at_def elem_at_def unat_page_mask split: if_splits)
  show "i < 22" "k < 1024" using e(4,5) by simp_all
  then have "unat (stack_addr \<sigma> i k) = unat (thread_base \<sigma>) + 4096 * i + 4 * k"
    using assms(1) by (simp add: unat_stack_addr)
  also have "4096 * i = unat a - unat a mod 4096 - unat (thread_base \<sigma>)"
    using e(2,3) by (simp add: mod_eq_0_iff_dvd)
  also have "unat (thread_base \<sigma>) + \<dots> + 4 * k = unat a"
    using e(1,5) mod_less_eq_dividend [of "unat a" 4096] by linarith
  finally show "a = stack_addr \<sigma> i k" by (simp add: word_unat_eq_iff)
qed

lemma stack_addr_Suc: "stack_addr \<sigma> u (Suc k) = stack_addr \<sigma> u k + 4"
  by (simp add: stack_addr_def algebra_simps)

definition fork_frame :: "symbols \<Rightarrow> nat \<Rightarrow> nat \<Rightarrow> thread_struct \<Rightarrow> thread_struct" where
  "fork_frame \<sigma> u k t = t\<lparr>register_esp := stack_addr \<sigma> u k,
     kstack := (kstack t)(Suc k := ret_from_fork_addr \<sigma>, k := kstack t (Suc k))\<rparr>"

lemma fork_stack_eq:
  assumes "layout_ok (sym s)" and "current_t s = Some c"
    and "stack_slot (sym s) (ebp s) = Some (c, Suc k)" and "u < 22"
  shows "fork_stack u s = Some (s\<lparr>threads := (threads s)(u := fork_frame (sym s) u k (threads s u))\<rparr>)"
proof -
  let ?\<sigma> = "sym s"
  note b = stack_slot_eq [OF assms(1,3)]
  have e: "ebp s - thread_addr ?\<sigma> c + thread_addr ?\<sigma> u = stack_addr ?\<sigma> u (Suc k)"
    unfolding b(1) by (simp add: stack_addr_def)
  have k: "stack_slot ?\<sigma> (stack_addr ?\<sigma> u (Suc k)) = Some (u, Suc k)" "stack_slot ?\<sigma> (stack_addr ?\<sigma> u k) = Some (u, k)"
    using assms(1,4) b(3) by (simp_all add: stack_slot_addr)
  have d: "stack_addr ?\<sigma> u (Suc k) - 4 = stack_addr ?\<sigma> u k" by (simp add: stack_addr_Suc)
  show ?thesis
    using assms(2) k by (simp add: fork_stack_def e Let_def load_stack_def store_stack_def d fork_frame_def)
qed

section \<open>\<open>sys_fork\<close>\<close>

text \<open>The pages of the process's data hold frames that are not free.\<close>

definition data_mapped :: "kernel \<Rightarrow> nat \<Rightarrow> bool" where
  "data_mapped s i \<longleftrightarrow> (\<forall>p. 264 \<le> p \<and> p < 284 \<longrightarrow>
     pte_present (pagusr_table s i p) \<and> unat (pbase_addr (pagusr_table s i p)) \<notin> free_frames (phys_mem s))"

definition child_thread :: "kernel \<Rightarrow> nat \<Rightarrow> nat \<Rightarrow> nat \<Rightarrow> nat \<Rightarrow> thread_struct" where
  "child_thread s c i u k = fork_frame (sym s) u k ((threads s c)\<lparr>TID := 1, thread_state := ST_READY,
     thread_dir := dir_addr (sym s) i, thread_p := Some i\<rparr>)"

definition forked :: "kernel \<Rightarrow> nat \<Rightarrow> nat \<Rightarrow> nat \<Rightarrow> nat \<Rightarrow> nat \<Rightarrow> u32 list \<Rightarrow> frame_map \<Rightarrow> frames \<Rightarrow> lnode lheap \<Rightarrow> kernel" where
  "forked s c cp i u k ds pm m h = s\<lparr>heap := h,
     tasks := (tasks s)(i := (tasks s i)\<lparr>task_dir := dir_addr (sym s) i, PID := global_PID s + 1,
       total_quantum := 20, nthread := 2, task_state := ST_READY\<rparr>),
     threads := (threads s)(u := child_thread s c i u k), phys_mem := pm,
     pagusr_table := (pagusr_table s)(i := child_table (pagusr_table s i) (pagusr_table s cp) ds,
       cp := without_window (pagusr_table s cp)),
     ram := m, global_PID := global_PID s + 1\<rparr>"

lemma free_frame_words:
  assumes "unat ` set ds \<subseteq> free_frames m" and "f \<in> set ds"
  shows "unat f < 2 ^ 20"
  using assms by (auto simp: free_frames_def pool_frame_def)

text \<open>The invariant after the fork.\<close>

lemma forked_kinv:
  assumes "kinv s Q M c cp" and "Q Freequeue = TaskList i # fs" and "Q Free_threadqueue = ThreadList u # us"
    and "shape h (heads M) (Q(Freequeue := fs, Free_threadqueue := us,
      Readyqueue := Q Readyqueue @ [TaskList i], ReadyThreads i := [ThreadList u]))"
    and "\<not> queued (heads M) (Q(Freequeue := fs, Free_threadqueue := us)) (TaskList i)"
    and "\<not> queued (heads M) (Q(Freequeue := fs, Free_threadqueue := us)) (ThreadList u)"
    and "\<And>x. x \<notin> heads M \<Longrightarrow> \<not> queued (heads M) Q x \<Longrightarrow> h x = heap s x" and "Suc k < 1024"
  shows "kinv (forked s c cp i u k ds pm m h) (Q(Freequeue := fs, Free_threadqueue := us,
      Readyqueue := Q Readyqueue @ [TaskList i], ReadyThreads i := [ThreadList u])) M c cp"
proof -
  let ?Q1 = "Q(Freequeue := fs, Free_threadqueue := us)" and ?s = "forked s c cp i u k ds pm m h"
  let ?Q = "Q(Freequeue := fs, Free_threadqueue := us,
      Readyqueue := Q Readyqueue @ [TaskList i], ReadyThreads i := [ThreadList u])"
  note km = kinv_kmid [OF assms(1)]
  have qi: "queued (heads M) Q (TaskList i)" and qu: "queued (heads M) Q (ThreadList u)"
    using assms(2,3) by (auto intro: queuedI [of Freequeue "heads M" _ Q] queuedI [of Free_threadqueue "heads M" _ Q])
  have i: "i < 10" "Q (ReadyThreads i) = []" "Q (BlockedThreads i) = []"
    using kmid_member [OF km heads_simps(1), of "TaskList i"] assms(2) by simp_all
  have u: "u < 22" using kmid_member [OF km heads_simps(3), of "ThreadList u"] assms(3) by simp
  have ne: "i \<noteq> cp" "u \<noteq> c" "\<And>j. idle_task s = Some j \<Longrightarrow> u \<noteq> j"
    using qi qu kinv_proc [OF assms(1)] kinv_thread [OF assms(1)] kmid_idle [OF km]
    by (auto simp: proc_running_def thread_running_def idle_ok_def)
  have sub: "\<not> queued (heads M) ?Q n" if "\<not> queued (heads M) Q n" "n \<noteq> TaskList i" "n \<noteq> ThreadList u" for n
    using that assms(2,3) by (auto simp: queued_def split: if_splits)
  have "kmid ?s ?Q M c"
  proof (rule kmid_requeue [where N = "{TaskList i, ThreadList u}", OF km])
    show "member_ok ?s ?Q c a n" if a: "a \<in> heads M" and n: "n \<in> set (?Q a)" "n \<in> {TaskList i, ThreadList u}" for a n
    proof -
      have "n \<notin> set (?Q1 a)" using assms(5,6) n(2) queuedI [of a "heads M" n ?Q1, OF a] by auto
      with n have "n = TaskList i \<and> a = Readyqueue \<or> n = ThreadList u \<and> a = ReadyThreads i" by (auto split: if_splits)
      with u i ne stack_slot_addr [OF kmid_layout [OF km], of u k] assms(8) show ?thesis
        by (auto simp: forked_def waits_def saved_ok_def child_thread_def fork_frame_def)
    qed
    show "ThreadList j \<notin> {TaskList i, ThreadList u} \<and> thread_p (threads ?s j) = None"
      if "idle_task s = Some j" "thread_p (threads s j) = None" "\<not> queued (heads M) Q (ThreadList j)" for j
      using that ne(3) [of j] by (auto simp: forked_def)
  qed (use assms(2-4,7) in \<open>auto simp: forked_def split: if_splits\<close>)
  moreover have "proc_running ?s ?Q M cp"
    using kinv_proc [OF assms(1)] sub ne(1) by (simp add: proc_running_def forked_def)
  moreover have "thread_running ?s ?Q M c cp"
    using kinv_thread [OF assms(1)] sub ne(2) by (simp add: thread_running_def forked_def)
  moreover have "on_cpu ?s c cp" using kinv_cpu [OF assms(1)] by (simp add: on_cpu_def forked_def)
  ultimately show ?thesis by (simp add: kinv_def)
qed

text \<open>\<open>sys_fork\<close> up to the frames of the child's data: the new descriptors, and what it does from there.\<close>

definition fork_child :: "kernel \<Rightarrow> nat \<Rightarrow> nat \<Rightarrow> nat \<Rightarrow> lnode lheap \<Rightarrow> kernel" where
  "fork_child s c i u h = s\<lparr>heap := h, threads := (threads s)(u := threads s c),
     tasks := (tasks s)(i := (tasks s i)\<lparr>task_dir := dir_addr (sym s) i\<rparr>)\<rparr>"

definition fork_rest :: "nat \<Rightarrow> nat \<Rightarrow> nat option \<times> kernel \<Rightarrow> (u32 \<times> kernel) option" where
  "fork_rest i u r = (case r of
      (Some pag, s4) \<Rightarrow> do {
        let s5 = for_each 0 pag (\<lambda>j. free_page i (PAG_LOG_INIT_DATA + j)) s4;
        s6 \<leftarrow> k_list_add_tail (TaskList i) Freequeue s5;
        Some (- EAGAIN, s6)
      }
    | (None, s4) \<Rightarrow> do {
        p \<leftarrow> current_p s4;
        parent_PT \<leftarrow> get_PT s4 p;
        s5 \<leftarrow> fork_memory i parent_PT s4;
        p' \<leftarrow> current_p s5;
        let s6 = fork_ids i u (set_cr3 (get_DIR s5 p') s5);
        s7 \<leftarrow> fork_stack u s6;
        let s8 = upd_task i (\<lambda>t. t\<lparr>task_state := ST_READY\<rparr>) s7;
        s9 \<leftarrow> k_list_add_tail (TaskList i) Readyqueue s8;
        s10 \<leftarrow> k_list_add_tail (ThreadList u) (ReadyThreads i) s9;
        Some (PID (tasks s10 i), s10)
      })"

lemma fork_begins:
  assumes "kinv s Q M c cp" and "in_kernel s c"
    and "Q Freequeue = TaskList i # fs" and "Q Free_threadqueue = ThreadList u # us"
  obtains h where "sys_fork s = fork_rest i u (alloc_data i 0 (fork_child s c i u h))"
    and "shape h (heads M) (Q(Freequeue := fs, Free_threadqueue := us))"
    and "\<not> queued (heads M) (Q(Freequeue := fs, Free_threadqueue := us)) (TaskList i)"
    and "\<not> queued (heads M) (Q(Freequeue := fs, Free_threadqueue := us)) (ThreadList u)"
    and "\<And>x. x \<notin> heads M \<Longrightarrow> \<not> queued (heads M) Q x \<Longrightarrow> h x = heap s x"
    and "queued (heads M) Q (TaskList i)" and "queued (heads M) Q (ThreadList u)"
    and "i < 10" and "Q (ReadyThreads i) = []" and "u < 22" and "i \<noteq> cp" and "u \<noteq> c"
proof -
  let ?Q1 = "Q(Freequeue := fs, Free_threadqueue := us)"
  note km = kinv_kmid [OF assms(1)]
  note lay = kmid_layout [OF km] and sh = kmid_shape [OF km]
  obtain h1 h2 where h: "list_first Freequeue (heap s) = Some (TaskList i)"
    "list_first Free_threadqueue (heap s) = Some (ThreadList u)"
    "list_del (TaskList i) (heap s) = Some h1" "list_del (ThreadList u) h1 = Some h2"
    "\<And>x. shape (h2(ThreadList u := x)) (heads M) ?Q1"
    "\<not> queued (heads M) ?Q1 (TaskList i)" "\<not> queued (heads M) ?Q1 (ThreadList u)"
    "\<And>x. x \<notin> heads M \<Longrightarrow> \<not> queued (heads M) Q x \<Longrightarrow> h2 x = heap s x"
    "queued (heads M) Q (TaskList i)" "queued (heads M) Q (ThreadList u)"
    by (rule take_free_pair [OF sh assms(3,4)]) (rule that)
  have i: "i < 10" "Q (ReadyThreads i) = []"
    using kmid_member [OF km heads_simps(1), of "TaskList i"] assms(3) by simp_all
  have u: "u < 22" using kmid_member [OF km heads_simps(3), of "ThreadList u"] assms(4) by simp
  have ne: "i \<noteq> cp" "u \<noteq> c" using h(9,10) kinv_proc [OF assms(1)] kinv_thread [OF assms(1)]
    by (auto simp: proc_running_def thread_running_def)
  let ?h3 = "h2(ThreadList u := h2 (ThreadList c))"
  have ne1: "\<not> list_empty Freequeue (heap s)" "\<not> list_empty Free_threadqueue (heap s)"
    using shape_empty_iff [OF sh heads_simps(1)] shape_empty_iff [OF sh heads_simps(3)] assms(3,4) by simp_all
  have nodes: "task_at (sym (s\<lparr>heap := h2\<rparr>)) (list_head_to_task_struct (sym (s\<lparr>heap := h2\<rparr>)) (TaskList i)) = Some i"
    "thread_at (sym (s\<lparr>heap := h2\<rparr>)) (list_head_to_thread_struct (sym (s\<lparr>heap := h2\<rparr>)) (ThreadList u)) = Some u"
    using lay i u by (simp_all add: task_of_node thread_of_node)
  have dels: "k_list_del (TaskList i) s = Some (s\<lparr>heap := h1\<rparr>)"
    "k_list_del (ThreadList u) (s\<lparr>heap := h1\<rparr>) = Some (s\<lparr>heap := h2\<rparr>)"
    using h(3,4) by (simp_all add: k_list_del_case)
  have cur: "current_t (s\<lparr>heap := h2\<rparr>) = Some c" using kinv_current [OF assms(1,2)] by (simp add: current_t_def)
  have 3: "allocate_DIR i (copy_thread c u (s\<lparr>heap := h2\<rparr>)) = fork_child s c i u ?h3"
    using lay i(1) by (simp add: allocate_DIR_eq copy_thread_def fork_child_def)
  have pt: "get_PT (fork_child s c i u ?h3) i = Some i"
    using get_PT_of_dir_addr [of s i] km i(1) by (simp add: get_PT_def fork_child_def kmid_def)
  have "sys_fork s = fork_rest i u (alloc_data i 0 (fork_child s c i u ?h3))"
    by (simp only: sys_fork_def ne1 if_False h(1,2) dels nodes cur 3 pt Option.bind.simps Let_def fork_rest_def)
  moreover have "?h3 x = heap s x" if "x \<notin> heads M" "\<not> queued (heads M) Q x" for x
    using that h(8) [OF that] h(10) by auto
  ultimately show thesis using h(5-7,9,10) i u ne by (intro that [of ?h3]) simp_all
qed

text \<open>With frames enough, the rest ends with the child behind the other ready processes.\<close>

lemma fork_completes:
  assumes "kinv s Q M c cp" and "in_kernel s c" and "stack_slot (sym s) (ebp s) = Some (c, Suc k)"
    and "take_frames alloc_frame 20 (phys_mem s) = (ds, pm)" and "20 \<le> card (free_frames (phys_mem s))"
    and "data_mapped s cp" and "i < 10" and "u < 22" and "i \<noteq> cp" and "u \<noteq> c"
    and "list_add_tail (TaskList i) Readyqueue h = Some g1" and "list_add_tail (ThreadList u) (ReadyThreads i) g1 = Some g2"
  obtains m where "fork_rest i u (alloc_data i 0 (fork_child s c i u h)) =
      Some (global_PID s + 1, forked s c cp i u k ds pm m g2)"
    and "copied_pages (pagusr_table s cp) ds (ram s) m"
proof -
  let ?T0 = "pagusr_table s i" and ?TP = "pagusr_table s cp"
  note km = kinv_kmid [OF assms(1)] and ne = assms(9,10)
  note lay = kmid_layout [OF km] and fr = fp.take_frames_spec [OF assms(5,4)]
  have cur: "current_t s = Some c" "current_p s = Some cp" using kinv_current [OF assms(1,2)] by simp_all
  have own: "thread_p (threads s c) = Some cp" using kinv_thread [OF assms(1)] by (simp add: thread_running_def)
  have dir: "task_dir (tasks s cp) = dir_addr (sym s) cp" "cr3 s = dir_addr (sym s) cp" and cp: "cp < 10"
    using kinv_proc [OF assms(1)] kinv_cpu [OF assms(1)] by (simp_all add: proc_running_def on_cpu_def)
  have pt: "get_PT_of_dir s (dir_addr (sym s) cp) = Some cp"
    using cp km by (intro get_PT_of_dir_addr) (simp_all add: kmid_def)
  have small: "f \<in> set ds \<Longrightarrow> unat f < 2 ^ 20" for f using free_frame_words [of ds "phys_mem s"] fr by blast
  have data: "pte_present (?TP p) \<and> unat (pbase_addr (?TP p)) \<notin> unat ` set ds" if "264 \<le> p" "p < 284" for p
    using assms(6) that fr by (auto simp: data_mapped_def)
  let ?s4 = "(fork_child s c i u h)\<lparr>phys_mem := pm, pagusr_table := (pagusr_table s)(i := mapped_run user_entry 264 ds ?T0)\<rparr>"
  have 4: "alloc_data i 0 (fork_child s c i u h) = (None, ?s4)"
    using alloc_data_all [of 20 "fork_child s c i u h" ds pm 0 i] assms(4) fr by (simp add: fork_child_def)
  obtain m where m: "fork_memory i cp ?s4 = Some (?s4\<lparr>ram := m,
      pagusr_table := (pagusr_table ?s4)(i := child_table ?T0 ?TP ds, cp := without_window ?TP)\<rparr>)"
    "copied_pages ?TP ds (ram ?s4) m"
  proof (rule fork_memory_eq [of ?s4 cp i ?TP ds ?T0])
    show "get_PT_of_dir ?s4 (cr3 ?s4) = Some cp" using pt dir(2) by (simp add: fork_child_def)
  qed (use ne fr small data in \<open>auto intro!: that simp: fork_child_def\<close>)
  let ?s5 = "?s4\<lparr>ram := m,
      pagusr_table := (pagusr_table ?s4)(i := child_table ?T0 ?TP ds, cp := without_window ?TP)\<rparr>"
  let ?s6 = "fork_ids i u (set_cr3 (get_DIR ?s5 cp) ?s5)"
  note e = fork_ids_def set_cr3_def get_DIR_def fork_child_def
  let ?s7 = "?s6\<lparr>threads := (threads ?s6)(u := fork_frame (sym s) u k (threads ?s6 u))\<rparr>"
  have 6: "current_t ?s6 = Some c" "sym ?s6 = sym s" "ebp ?s6 = ebp s"
    using cur(1) by (simp_all add: e current_t_def)
  have 7: "fork_stack u ?s6 = Some ?s7" using fork_stack_eq [of ?s6 c k u] lay assms(3,8) 6 by simp
  have cur2: "current_p ?s4 = Some cp" "current_p ?s5 = Some cp" "get_PT ?s4 cp = Some cp"
    using cur(1) own ne pt dir(1) by (simp_all add: current_p_def current_t_def get_PT_def fork_child_def)
  let ?s8 = "upd_task i (\<lambda>t. t\<lparr>task_state := ST_READY\<rparr>) ?s7"
  have "heap ?s8 = h" by (simp add: e)
  then have adds: "k_list_add_tail (TaskList i) Readyqueue ?s8 = Some (?s8\<lparr>heap := g1\<rparr>)"
    "k_list_add_tail (ThreadList u) (ReadyThreads i) (?s8\<lparr>heap := g1\<rparr>) = Some (?s8\<lparr>heap := g2\<rparr>)"
    using assms(11,12) by (simp_all add: k_list_add_tail_case)
  have "fork_rest i u (alloc_data i 0 (fork_child s c i u h)) = Some (PID (tasks (?s8\<lparr>heap := g2\<rparr>) i), ?s8\<lparr>heap := g2\<rparr>)"
    by (simp only: fork_rest_def cur2 4 m(1) 7 adds Option.bind.simps prod.case option.case Let_def kernel.simps)
  moreover have "?s8\<lparr>heap := g2\<rparr> = forked s c cp i u k ds pm m g2"
    using ne dir by (intro kernel.equality) (simp_all add: e forked_def child_thread_def fork_frame_def DEFAULT_QUANTUM_P_def)
  ultimately have "fork_rest i u (alloc_data i 0 (fork_child s c i u h)) =
      Some (global_PID s + 1, forked s c cp i u k ds pm m g2)" by (simp only:) (simp add: forked_def)
  then show thesis using m(2) by (intro that) (simp_all add: fork_child_def)
qed

lemma sys_fork_step:
  assumes "kinv s Q M c cp" and "in_kernel s c" and "stack_slot (sym s) (ebp s) = Some (c, Suc k)"
    and "Q Freequeue = TaskList i # fs" and "Q Free_threadqueue = ThreadList u # us"
    and "take_frames alloc_frame 20 (phys_mem s) = (ds, pm)" and "20 \<le> card (free_frames (phys_mem s))"
    and "data_mapped s cp"
  obtains h m where "sys_fork s = Some (global_PID s + 1, forked s c cp i u k ds pm m h)"
    and "copied_pages (pagusr_table s cp) ds (ram s) m"
    and "kinv (forked s c cp i u k ds pm m h) (Q(Freequeue := fs, Free_threadqueue := us,
      Readyqueue := Q Readyqueue @ [TaskList i], ReadyThreads i := [ThreadList u])) M c cp"
    and "in_kernel (forked s c cp i u k ds pm m h) c"
proof -
  let ?Q1 = "Q(Freequeue := fs, Free_threadqueue := us)"
  obtain h where h: "sys_fork s = fork_rest i u (alloc_data i 0 (fork_child s c i u h))" "shape h (heads M) ?Q1"
    "\<not> queued (heads M) ?Q1 (TaskList i)" "\<not> queued (heads M) ?Q1 (ThreadList u)"
    "\<And>x. x \<notin> heads M \<Longrightarrow> \<not> queued (heads M) Q x \<Longrightarrow> h x = heap s x"
    "queued (heads M) Q (TaskList i)" "queued (heads M) Q (ThreadList u)"
    "i < 10" "Q (ReadyThreads i) = []" "u < 22" "i \<noteq> cp" "u \<noteq> c"
    by (rule fork_begins [OF assms(1,2,4,5)]) (rule that)
  have r1: "?Q1 (ReadyThreads i) = []" using h(9) by simp
  obtain g1 g2 where g: "list_add_tail (TaskList i) Readyqueue h = Some g1"
    "list_add_tail (ThreadList u) (ReadyThreads i) g1 = Some g2"
    "shape g2 (heads M) (?Q1(Readyqueue := ?Q1 Readyqueue @ [TaskList i], ReadyThreads i := [ThreadList u]))"
    "\<And>x. x \<notin> heads M \<Longrightarrow> x \<noteq> TaskList i \<Longrightarrow> x \<noteq> ThreadList u \<Longrightarrow> \<not> queued (heads M) ?Q1 x \<Longrightarrow> g2 x = h x"
    by (rule enqueue_child [OF h(2) h(8) r1 h(3,4)]) (rule that)
  obtain m where m: "fork_rest i u (alloc_data i 0 (fork_child s c i u h)) =
      Some (global_PID s + 1, forked s c cp i u k ds pm m g2)" "copied_pages (pagusr_table s cp) ds (ram s) m"
    by (rule fork_completes [OF assms(1-3,6-8) h(8,10-12) g(1,2)])
  have fh: "g2 x = heap s x" if "x \<notin> heads M" "\<not> queued (heads M) Q x" for x
  proof -
    have "\<not> queued (heads M) ?Q1 x" using that(2) assms(4,5) by (auto simp: queued_def split: if_splits)
    with that h(6,7) have "g2 x = h x" by (intro g(4)) auto
    with h(5) [OF that] show ?thesis by simp
  qed
  have q: "?Q1(Readyqueue := ?Q1 Readyqueue @ [TaskList i], ReadyThreads i := [ThreadList u]) =
    Q(Freequeue := fs, Free_threadqueue := us, Readyqueue := Q Readyqueue @ [TaskList i], ReadyThreads i := [ThreadList u])"
    by simp
  let ?s = "forked s c cp i u k ds pm m g2"
  have "kinv ?s (Q(Freequeue := fs, Free_threadqueue := us, Readyqueue := Q Readyqueue @ [TaskList i],
      ReadyThreads i := [ThreadList u])) M c cp"
    using g(3) h(3,4) fh stack_slot_eq(3) [OF kmid_layout [OF kinv_kmid [OF assms(1)]] assms(3)] unfolding q
    by (intro forked_kinv [OF assms(1,4,5)]) simp_all
  moreover have "in_kernel ?s c" using assms(2) in_kernel_cong [of ?s s c] by (simp add: forked_def)
  ultimately show thesis using h(1) m by (intro that [of m g2]) simp_all
qed

section \<open>When the frames run out\<close>

text \<open>Freeing the data pages up to page \<open>n\<close>.\<close>

definition freed_frames :: "page_table \<Rightarrow> nat \<Rightarrow> frame_map \<Rightarrow> frame_map" where
  "freed_frames T n pm = (\<lambda>f. if \<exists>j < n. 256 < f \<and> f < 1024 \<and> unat (pbase_addr (T (264 + j))) = f then FREE_FRAME else pm f)"

lemma free_pages_eq:
  "for_each 0 n (\<lambda>j. free_page i (264 + j)) s = s\<lparr>phys_mem := freed_frames (pagusr_table s i) n (phys_mem s),
     pagusr_table := (pagusr_table s)(i := (\<lambda>p. if 264 \<le> p \<and> p < 264 + n then 0 else pagusr_table s i p))\<rparr>"
proof -
  let ?T = "pagusr_table s i"
  let ?I = "\<lambda>n s'. s' = s\<lparr>phys_mem := freed_frames ?T n (phys_mem s),
     pagusr_table := (pagusr_table s)(i := (\<lambda>p. if 264 \<le> p \<and> p < 264 + n then 0 else ?T p))\<rparr>"
  show ?thesis
  proof (rule for_each_invariant [where I = ?I])
    have "freed_frames ?T 0 (phys_mem s) = phys_mem s" by (simp add: freed_frames_def)
    moreover have "(\<lambda>p. if 264 \<le> p \<and> p < 264 + 0 then 0 else ?T p) = ?T" by (rule ext) auto
    ultimately show "?I 0 s" by (simp only: fun_upd_triv) simp
    show "?I (Suc j) (free_page i (264 + j) s')" if "?I j s'" for j s'
    proof -
      have "free_frame (pbase_addr (?T (264 + j))) (freed_frames ?T j (phys_mem s)) =
          freed_frames ?T (Suc j) (phys_mem s)"
        by (auto simp: free_frame_def freed_frames_def fun_eq_iff less_Suc_eq)
      moreover have "(\<lambda>p. if 264 \<le> p \<and> p < 264 + j then 0 else ?T p)(264 + j := 0) =
          (\<lambda>p. if 264 \<le> p \<and> p < 264 + Suc j then 0 else ?T p)" by (auto simp: fun_eq_iff)
      ultimately show ?thesis
        by (simp add: that free_page_def Let_def get_frame_def upd_table_def del_ss_pag_def)
    qed
  qed simp
qed

text \<open>The state after a fork that ran out of frames.\<close>

definition fork_undone :: "kernel \<Rightarrow> nat \<Rightarrow> nat \<Rightarrow> nat \<Rightarrow> frame_map \<Rightarrow> nat \<Rightarrow> lnode lheap \<Rightarrow> kernel" where
  "fork_undone s c i u pm n h = s\<lparr>heap := h, threads := (threads s)(u := threads s c),
     tasks := (tasks s)(i := (tasks s i)\<lparr>task_dir := dir_addr (sym s) i\<rparr>), phys_mem := pm,
     pagusr_table := (pagusr_table s)(i := (\<lambda>p. if 264 \<le> p \<and> p < 264 + n then 0 else pagusr_table s i p))\<rparr>"

lemma fork_undone_kinv:
  assumes "kinv s Q M c cp" and "Q Freequeue = TaskList i # fs" and "Q Free_threadqueue = ThreadList u # us"
    and "shape h (heads M) (Q(Freequeue := fs @ [TaskList i], Free_threadqueue := us))"
    and "\<not> queued (heads M) (Q(Freequeue := fs, Free_threadqueue := us)) (ThreadList u)"
    and "\<And>x. x \<notin> heads M \<Longrightarrow> \<not> queued (heads M) Q x \<Longrightarrow> h x = heap s x"
  shows "kinv (fork_undone s c i u pm n h) (Q(Freequeue := fs @ [TaskList i], Free_threadqueue := us)) M c cp"
proof -
  let ?Q = "Q(Freequeue := fs @ [TaskList i], Free_threadqueue := us)" and ?s = "fork_undone s c i u pm n h"
  let ?Q1 = "Q(Freequeue := fs, Free_threadqueue := us)"
  note km = kinv_kmid [OF assms(1)]
  have qi: "queued (heads M) Q (TaskList i)" and qu: "queued (heads M) Q (ThreadList u)"
    using assms(2,3) by (auto intro: queuedI [of Freequeue "heads M" _ Q] queuedI [of Free_threadqueue "heads M" _ Q])
  have ne: "i \<noteq> cp" "u \<noteq> c" "\<And>j. idle_task s = Some j \<Longrightarrow> u \<noteq> j"
    using qi qu kinv_proc [OF assms(1)] kinv_thread [OF assms(1)] kmid_idle [OF km]
    by (auto simp: proc_running_def thread_running_def idle_ok_def)
  have ready: "Q (ReadyThreads i) = []" 
    using kmid_member [OF km heads_simps(1), of "TaskList i"] assms(2) by simp
  have sub: "\<not> queued (heads M) ?Q x" if "\<not> queued (heads M) Q x" for x
    using that assms(2,3) by (auto simp: queued_def split: if_splits)
  have nu: "n \<noteq> ThreadList u" if "a \<in> heads M" "n \<in> set (?Q a)" for a n
    using queuedI [of a "heads M" n ?Q1] that assms(5) by (cases "n = TaskList i") (auto split: if_splits)
  have "kmid ?s ?Q M c"
  proof (rule kmid_requeue [where N = "{TaskList i, ThreadList u}", OF km])
    show "member_ok ?s ?Q c a n" if a: "a \<in> heads M" and n: "n \<in> set (?Q a)" "n \<in> {TaskList i, ThreadList u}" for a n
    proof -
      have nq: "n \<in> set (Q a)" using n assms(2,3) by (auto split: if_splits)
      have n1: "n = TaskList i" using n nu [OF a n(1)] by simp
      have "a \<noteq> Readyqueue" using kmid_ready_proc [OF km, of n] nq n1 ready by auto
      with n1 kmid_member [OF km a nq] show ?thesis by (cases a) auto
    qed
    show "ThreadList j \<notin> {TaskList i, ThreadList u} \<and> thread_p (threads ?s j) = None"
      if "idle_task s = Some j" "thread_p (threads s j) = None" "\<not> queued (heads M) Q (ThreadList j)" for j
      using that ne(3) [of j] by (auto simp: fork_undone_def)
  qed (use assms(2-4,6) in \<open>auto simp: fork_undone_def split: if_splits\<close>)
  moreover have "proc_running ?s ?Q M cp"
    using kinv_proc [OF assms(1)] sub ne(1) by (simp add: proc_running_def fork_undone_def)
  moreover have "thread_running ?s ?Q M c cp"
    using kinv_thread [OF assms(1)] sub ne(2) by (simp add: thread_running_def fork_undone_def)
  moreover have "on_cpu ?s c cp" using kinv_cpu [OF assms(1)] by (simp add: on_cpu_def fork_undone_def)
  ultimately show ?thesis by (simp add: kinv_def)
qed

text \<open>Frames taken for the child and given back: all but frame 256.\<close>

lemma frames_given_back:
  assumes "take_frames alloc_frame n m = (ds, pm)" and "n = card (free_frames m)"
    and "\<And>k. k < n \<Longrightarrow> pbase_addr (T (264 + k)) = ds ! k"
  shows "free_frames (freed_frames T n pm) = free_frames m - {256}" and "alloc_frame pm = (-1, pm)"
    and "length ds = n \<and> -1 \<notin> set ds"
proof -
  note fr = fp.take_frames_spec [OF _ assms(1)]
  have l: "length ds = n" "distinct ds" "unat ` set ds \<subseteq> free_frames m" "-1 \<notin> set ds"
    "free_frames pm = free_frames m - unat ` set ds" using fr assms(2) by simp_all
  have "inj_on unat (set ds)" by (rule inj_onI) (simp add: word_unat_eq_iff)
  then have "card (unat ` set ds) = n" using l(1,2) by (simp add: card_image distinct_card)
  then have all: "unat ` set ds = free_frames m" using l(3) assms(2) by (simp add: card_subset_eq)
  then have none: "free_frames pm = {}" using l(5) by simp
  have "f \<in> free_frames (freed_frames T n pm) \<longleftrightarrow> f \<in> free_frames m - {256}" for f
  proof
    assume f: "f \<in> free_frames (freed_frames T n pm)"
    then have "f \<notin> free_frames pm" "pool_frame f" using none by (auto simp: free_frames_def)
    then obtain j where "j < n" "256 < f" "unat (pbase_addr (T (264 + j))) = f"
      using f by (auto simp: free_frames_def freed_frames_def split: if_splits)
    then have "f \<in> unat ` set ds" using assms(3) l(1) by auto
    with all \<open>256 < f\<close> show "f \<in> free_frames m - {256}" by simp
  next
    assume f: "f \<in> free_frames m - {256}"
    then have p: "pool_frame f" "f \<noteq> 256" "f \<in> unat ` set ds" using all by (auto simp: free_frames_def)
    then obtain j where "j < n" "unat (ds ! j) = f" using l(1) by (auto simp: in_set_conv_nth)
    then have "freed_frames T n pm f = FREE_FRAME"
      using p(1,2) assms(3) by (auto simp: freed_frames_def pool_frame_def)
    with p(1) show "f \<in> free_frames (freed_frames T n pm)" by (simp add: free_frames_def)
  qed
  then show "free_frames (freed_frames T n pm) = free_frames m - {256}" by blast
  show "alloc_frame pm = (-1, pm)" by (rule fp.alloc_none [OF none])
  show "length ds = n \<and> -1 \<notin> set ds" using l by simp
qed

lemma fork_gives_up:
  assumes "kinv s Q M c cp" and "card (free_frames (phys_mem s)) < 20"
    and "list_add_tail (TaskList i) Freequeue h = Some g"
  obtains pm where "fork_rest i u (alloc_data i 0 (fork_child s c i u h)) =
      Some (- EAGAIN, fork_undone s c i u pm (card (free_frames (phys_mem s))) g)"
    and "free_frames pm = free_frames (phys_mem s) - {256}"
proof -
  let ?n = "card (free_frames (phys_mem s))"
  obtain ds pm0 where f: "take_frames alloc_frame ?n (phys_mem s) = (ds, pm0)" by fastforce
  let ?T = "mapped_run user_entry 264 ds (pagusr_table s i)"
  have l: "length ds = ?n" "-1 \<notin> set ds" using frames_given_back(3) [OF f refl, of "\<lambda>p. ds ! (p - 264)"]
    fp.take_frames_spec [OF _ f] by simp_all
  have T: "pbase_addr (?T (264 + j)) = ds ! j" if "j < ?n" for j
  proof -
    have "ds ! j \<in> set ds" using that l(1) by simp
    then have "ds ! j AND 0xFFFFF = ds ! j"
      using free_frame_words [of ds "phys_mem s"] fp.take_frames_spec [OF _ f] by (intro and_20_bits) simp
    with that l(1) show ?thesis by (simp add: mapped_run_def)
  qed
  let ?s3 = "fork_child s c i u h"
  let ?s4 = "?s3\<lparr>phys_mem := pm0, pagusr_table := (pagusr_table s)(i := ?T)\<rparr>"
  let ?pm = "freed_frames ?T ?n pm0"
  have clear: "(\<lambda>p. if 264 \<le> p \<and> p < 264 + ?n then 0 else ?T p) =
      (\<lambda>p. if 264 \<le> p \<and> p < 264 + ?n then 0 else pagusr_table s i p)"
    using l(1) by (auto simp: mapped_run_def fun_eq_iff)
  let ?s5 = "?s4\<lparr>phys_mem := ?pm,
      pagusr_table := (pagusr_table s)(i := (\<lambda>p. if 264 \<le> p \<and> p < 264 + ?n then 0 else pagusr_table s i p))\<rparr>"
  have 4: "alloc_data i 0 ?s3 = (Some ?n, ?s4)"
    using alloc_data_fails [of ?n ?s3 ds pm0 0 i] frames_given_back(2) [OF f refl T] f l assms(2) by (simp add: fork_child_def)
  have 5: "for_each 0 ?n (\<lambda>j. free_page i (PAG_LOG_INIT_DATA + j)) ?s4 = ?s5"
    using free_pages_eq [of ?n i ?s4] clear by (simp cong: if_cong)
  have add: "k_list_add_tail (TaskList i) Freequeue ?s5 = Some (?s5\<lparr>heap := g\<rparr>)"
    using assms(3) by (simp add: k_list_add_tail_case fork_child_def)
  have "fork_rest i u (alloc_data i 0 ?s3) = Some (- EAGAIN, ?s5\<lparr>heap := g\<rparr>)"
    by (simp only: fork_rest_def 4 5 add Option.bind.simps prod.case option.case Let_def)
  also have "?s5\<lparr>heap := g\<rparr> = fork_undone s c i u ?pm ?n g"
    by (rule kernel.equality) (simp_all add: fork_undone_def fork_child_def)
  finally show thesis using frames_given_back(1) [OF f refl T] by (intro that)
qed

lemma sys_fork_fails:
  assumes "kinv s Q M c cp" and "in_kernel s c"
    and "Q Freequeue = TaskList i # fs" and "Q Free_threadqueue = ThreadList u # us"
    and "card (free_frames (phys_mem s)) < 20"
  obtains pm h where "sys_fork s = Some (- EAGAIN, fork_undone s c i u pm (card (free_frames (phys_mem s))) h)"
    and "free_frames pm = free_frames (phys_mem s) - {256}"
    and "kinv (fork_undone s c i u pm (card (free_frames (phys_mem s))) h)
      (Q(Freequeue := fs @ [TaskList i], Free_threadqueue := us)) M c cp"
proof -
  let ?Q1 = "Q(Freequeue := fs, Free_threadqueue := us)" and ?n = "card (free_frames (phys_mem s))"
  obtain h where h: "sys_fork s = fork_rest i u (alloc_data i 0 (fork_child s c i u h))" "shape h (heads M) ?Q1"
    "\<not> queued (heads M) ?Q1 (TaskList i)" "\<not> queued (heads M) ?Q1 (ThreadList u)"
    "\<And>x. x \<notin> heads M \<Longrightarrow> \<not> queued (heads M) Q x \<Longrightarrow> h x = heap s x"
    "queued (heads M) Q (TaskList i)" "queued (heads M) Q (ThreadList u)"
    by (rule fork_begins [OF assms(1-4)]) (rule that)
  obtain g where g: "list_add_tail (TaskList i) Freequeue h = Some g"
    "shape g (heads M) (?Q1(Freequeue := ?Q1 Freequeue @ [TaskList i]))"
    "\<And>x. x \<notin> heads M \<Longrightarrow> x \<noteq> TaskList i \<Longrightarrow> \<not> queued (heads M) ?Q1 x \<Longrightarrow> g x = h x"
    using lq.add_tail_law [OF h(2) heads_simps(1) heads_simps(7) h(3)] by blast
  obtain pm where r: "fork_rest i u (alloc_data i 0 (fork_child s c i u h)) = Some (- EAGAIN, fork_undone s c i u pm ?n g)"
    "free_frames pm = free_frames (phys_mem s) - {256}" by (rule fork_gives_up [OF assms(1,5) g(1)])
  have fh: "g x = heap s x" if "x \<notin> heads M" "\<not> queued (heads M) Q x" for x
  proof -
    have "\<not> queued (heads M) ?Q1 x" using that(2) assms(3,4) by (auto simp: queued_def split: if_splits)
    with that h(6) have "g x = h x" by (intro g(3)) auto
    with h(5) [OF that] show ?thesis by simp
  qed
  have q: "?Q1(Freequeue := ?Q1 Freequeue @ [TaskList i]) = Q(Freequeue := fs @ [TaskList i], Free_threadqueue := us)"
    by (simp add: fun_upd_twist)
  have "kinv (fork_undone s c i u pm ?n g) (Q(Freequeue := fs @ [TaskList i], Free_threadqueue := us)) M c cp"
    by (rule fork_undone_kinv [OF assms(1,3,4) g(2) [unfolded q] h(4) fh])
  with h(1) r show thesis by (intro that) simp_all
qed

section \<open>What the two processes see\<close>

lemma child_reads:
  assumes "copied_pages TP ds m m'" and "length ds = 20" and "\<And>f. f \<in> set ds \<Longrightarrow> unat f < 2 ^ 20"
    and "264 * 4096 \<le> unat a" and "unat a < 284 * 4096" and "pte_present (TP (unat a div 4096))"
  shows "vread (child_table T0 TP ds) m' a = vread TP m a"
    and "kaddr (child_table T0 TP ds) a = Some (unat (ds ! (unat a div 4096 - 264)), unat a mod 4096)"
proof -
  let ?p = "unat a div 4096"
  have p: "264 \<le> ?p" "?p < 284" using assms(4,5) by auto
  have "ds ! (?p - 264) \<in> set ds" using p assms(2) by (intro nth_mem) simp
  then have "ds ! (?p - 264) AND 0xFFFFF = ds ! (?p - 264)" using assms(3) by (intro and_20_bits) blast
  then show k: "kaddr (child_table T0 TP ds) a = Some (unat (ds ! (?p - 264)), unat a mod 4096)"
    using p by (simp add: kaddr_def Let_def child_table_def)
  have "kaddr TP a = Some (unat (pbase_addr (TP ?p)), unat a mod 4096)"
    using p assms(6) by (simp add: kaddr_def Let_def)
  moreover have "m' (unat (ds ! (?p - 264))) (unat a mod 4096) = m (unat (pbase_addr (TP ?p))) (unat a mod 4096)"
    using assms(1) p by (auto simp: copied_pages_def)
  ultimately show "vread (child_table T0 TP ds) m' a = vread TP m a" using k by (simp add: vread_def)
qed

lemma parent_reads:
  assumes "copied_pages TP ds m m'" and "264 * 4096 \<le> unat a" and "unat a < 284 * 4096"
    and "pte_present (TP (unat a div 4096))" and "unat (pbase_addr (TP (unat a div 4096))) \<notin> unat ` set ds"
  shows "vread (without_window TP) m' a = vread TP m a"
    and "kaddr (without_window TP) a = Some (unat (pbase_addr (TP (unat a div 4096))), unat a mod 4096)"
proof -
  have p: "264 \<le> unat a div 4096" "unat a div 4096 < 284" using assms(2,3) by auto
  then show k: "kaddr (without_window TP) a = Some (unat (pbase_addr (TP (unat a div 4096))), unat a mod 4096)"
    using assms(4) by (simp add: kaddr_def Let_def without_window_def)
  have "kaddr TP a = Some (unat (pbase_addr (TP (unat a div 4096))), unat a mod 4096)"
    using p assms(4) by (simp add: kaddr_def Let_def)
  with k assms(1,5) show "vread (without_window TP) m' a = vread TP m a"
    by (simp add: vread_def copied_pages_def)
qed

lemma data_mapped_forked:
  assumes "data_mapped s cp" and "i \<noteq> cp" and "length ds = 20" and "\<And>f. f \<in> set ds \<Longrightarrow> unat f < 2 ^ 20"
    and "free_frames pm = free_frames (phys_mem s) - unat ` set ds"
  shows "data_mapped (forked s c cp i u k ds pm m h) cp" and "data_mapped (forked s c cp i u k ds pm m h) i"
proof -
  show "data_mapped (forked s c cp i u k ds pm m h) cp"
    using assms(1,5) by (auto simp: data_mapped_def forked_def without_window_def)
  have "ds ! (p - 264) \<in> set ds \<and> ds ! (p - 264) AND 0xFFFFF = ds ! (p - 264)" if "264 \<le> p" "p < 284" for p
  proof -
    have "ds ! (p - 264) \<in> set ds" using that assms(3) by (intro nth_mem) simp
    with assms(4) show ?thesis using and_20_bits by blast
  qed
  then show "data_mapped (forked s c cp i u k ds pm m h) i"
    using assms(2,5) by (auto simp: data_mapped_def forked_def child_table_def)
qed

section \<open>Correctness\<close>

text \<open>C6: \<open>sys_fork\<close> makes a process. When a process and a thread descriptor are free, 20 frames are
  left and the parent's data is mapped, the call returns the new PID; the child waits behind the
  other ready processes with one ready thread, and the parent runs on. Both read in every byte of
  their data what the parent read before, and no byte of the child's data is one of the parent's.\<close>

theorem fork_copies_process:
  assumes "kinv s Q M c cp" and "in_kernel s c" and "stack_slot (sym s) (ebp s) = Some (c, Suc k)"
    and "Q Freequeue = TaskList i # fs" and "Q Free_threadqueue = ThreadList u # us"
    and "20 \<le> card (free_frames (phys_mem s))" and "data_mapped s cp"
  shows "\<exists>s'. sys_fork s = Some (global_PID s + 1, s') \<and> PID (tasks s' i) = global_PID s + 1
    \<and> kinv s' (Q(Freequeue := fs, Free_threadqueue := us, Readyqueue := Q Readyqueue @ [TaskList i],
        ReadyThreads i := [ThreadList u])) M c cp
    \<and> data_mapped s' cp \<and> data_mapped s' i
    \<and> (\<forall>a. 264 * 4096 \<le> unat a \<and> unat a < 284 * 4096 \<longrightarrow>
        vread (pagusr_table s' i) (ram s') a = vread (pagusr_table s cp) (ram s) a
      \<and> vread (pagusr_table s' cp) (ram s') a = vread (pagusr_table s cp) (ram s) a
      \<and> (\<forall>b. 264 * 4096 \<le> unat b \<and> unat b < 284 * 4096 \<longrightarrow>
          kaddr (pagusr_table s' i) a \<noteq> kaddr (pagusr_table s' cp) b))"
proof -
  let ?TP = "pagusr_table s cp" and ?T0 = "pagusr_table s i"
  obtain ds pm where f: "take_frames alloc_frame 20 (phys_mem s) = (ds, pm)" by fastforce
  note fr = fp.take_frames_spec [OF assms(6) f]
  have small: "f \<in> set ds \<Longrightarrow> unat f < 2 ^ 20" for f using free_frame_words [of ds "phys_mem s"] fr by blast
  obtain h m where s': "sys_fork s = Some (global_PID s + 1, forked s c cp i u k ds pm m h)"
    "copied_pages ?TP ds (ram s) m" "kinv (forked s c cp i u k ds pm m h) (Q(Freequeue := fs,
      Free_threadqueue := us, Readyqueue := Q Readyqueue @ [TaskList i], ReadyThreads i := [ThreadList u])) M c cp"
    by (rule sys_fork_step [OF assms(1-5) f assms(6,7)])
  let ?s = "forked s c cp i u k ds pm m h"
  have "queued (heads M) Q (TaskList i)" using assms(4) by (intro queuedI [of Freequeue]) simp_all
  then have ne: "i \<noteq> cp" using kinv_proc [OF assms(1)] by (auto simp: proc_running_def)
  have t: "pagusr_table ?s i = child_table ?T0 ?TP ds" "pagusr_table ?s cp = without_window ?TP" "ram ?s = m"
    using ne by (simp_all add: forked_def)
  have pg: "pte_present (?TP (unat a div 4096)) \<and> unat (pbase_addr (?TP (unat a div 4096))) \<notin> unat ` set ds"
    if "264 * 4096 \<le> unat a \<and> unat a < 284 * 4096" for a :: u32
  proof -
    have "264 \<le> unat a div 4096" "unat a div 4096 < 284" using that by auto
    with assms(7) fr show ?thesis by (auto simp: data_mapped_def)
  qed
  have l: "length ds = 20" using fr by simp
  have "vread (pagusr_table ?s i) (ram ?s) a = vread ?TP (ram s) a
      \<and> vread (pagusr_table ?s cp) (ram ?s) a = vread ?TP (ram s) a
      \<and> (\<forall>b. 264 * 4096 \<le> unat b \<and> unat b < 284 * 4096 \<longrightarrow> kaddr (pagusr_table ?s i) a \<noteq> kaddr (pagusr_table ?s cp) b)"
    if a: "264 * 4096 \<le> unat a \<and> unat a < 284 * 4096" for a
  proof -
    have "unat a div 4096 - 264 < length ds" using a l by auto
    then have "unat (ds ! (unat a div 4096 - 264)) \<in> unat ` set ds" by simp
    then have "kaddr (pagusr_table ?s i) a \<noteq> kaddr (pagusr_table ?s cp) b"
      if "264 * 4096 \<le> unat b \<and> unat b < 284 * 4096" for b
      using child_reads(2) [OF s'(2) l small, of a ?T0] parent_reads(2) [OF s'(2), of b] a that pg [OF a] pg [OF that]
      unfolding t by auto
    then show ?thesis
      using child_reads(1) [OF s'(2) l small, of a ?T0] parent_reads(1) [OF s'(2), of a] a pg [OF a]
      unfolding t by blast
  qed
  moreover have "PID (tasks ?s i) = global_PID s + 1" by (simp add: forked_def)
  moreover have "data_mapped ?s cp" "data_mapped ?s i"
    using fr small by (auto intro!: data_mapped_forked [OF assms(7) ne l])
  ultimately show ?thesis using s'(1,3) by blast
qed

lemma entered_slot: "stack_slot (sym entered) (ebp entered) = Some (1, Suc 1002)"
proof -
  have "ebp entered = stack_addr (sym booted) 1 1024 - of_nat (4 * 21)"
    using kinv_cpu [OF booted_kinv] by (simp add: entered_def kernel_entry_def on_cpu_def)
  also have "\<dots> = stack_addr (sym booted) 1 (1024 - 21)" by (rule stack_addr_down) simp
  finally show ?thesis
    using kmid_layout [OF kinv_kmid [OF booted_kinv]] by (simp add: stack_slot_addr)
qed

lemma entered_data: "data_mapped entered 1" "card (free_frames (phys_mem entered)) = 356"
proof -
  obtain cs m1 ds where 1: "take_frames alloc_frame 8 (init_frames (\<lambda>_. 0)) = (cs, m1)"
    and 2: "take_frames alloc_frame 20 m1 = (ds, phys_mem booted)"
    and T: "pagusr_table booted 1 = user_pages cs ds (init_table example_layout (\<lambda>_. 0))"
    by (rule booted_facts)
  note fr = boot_frames [OF 1 2]
  show "data_mapped entered 1"
    unfolding data_mapped_def entered_simps T using boot_data_pages(1) [OF 1 2, of _ example_layout "\<lambda>_. 0"] by blast
  show "card (free_frames (phys_mem entered)) = 356" using fr(5) by simp
qed

lemma boot_free: "boot_queues Freequeue = TaskList 2 # map TaskList [3..<10]"
  "boot_queues Free_threadqueue = ThreadList 2 # map ThreadList [3..<10]"
  by (simp_all add: upt_rec)

lemma fork_copies_process_witness:
  "\<exists>s'. sys_fork entered = Some (1001, s') \<and> data_mapped s' 2"
proof -
  have "20 \<le> card (free_frames (phys_mem entered))" using entered_data(2) by simp
  from fork_copies_process [OF entered_kinv entered_slot boot_free this entered_data(1)]
  show ?thesis using booted_facts [of "global_PID entered = 1000"] by auto
qed

text \<open>C31: what else the page tables are after a fork. The kernel's pages and the code pages are
  shared with the parent, but in the child's table they are open to the user, for writing too:
  the child in user mode can write the kernel. The twenty pages behind the parent's data, where
  the stacks of its other threads start, have lost their frames.\<close>

theorem fork_page_tables:
  assumes "kinv s Q M c cp" and "in_kernel s c" and "stack_slot (sym s) (ebp s) = Some (c, Suc k)"
    and "Q Freequeue = TaskList i # fs" and "Q Free_threadqueue = ThreadList u # us"
    and "20 \<le> card (free_frames (phys_mem s))" and "data_mapped s cp"
  shows "\<exists>s'. sys_fork s = Some (global_PID s + 1, s')
    \<and> (\<forall>a w. unat a < 264 * 4096 \<longrightarrow> translate (pagusr_table s' i) w a =
        Some (unat (pbase_addr (pagusr_table s cp (unat a div 4096))), unat a mod 4096))
    \<and> (\<forall>a. 284 * 4096 \<le> unat a \<and> unat a < 304 * 4096 \<longrightarrow> kaddr (pagusr_table s' cp) a = None)"
proof -
  let ?TP = "pagusr_table s cp"
  obtain ds pm where f: "take_frames alloc_frame 20 (phys_mem s) = (ds, pm)" by fastforce
  obtain h m where s': "sys_fork s = Some (global_PID s + 1, forked s c cp i u k ds pm m h)"
    by (rule sys_fork_step [OF assms(1-5) f assms(6,7)])
  let ?s = "forked s c cp i u k ds pm m h"
  have "queued (heads M) Q (TaskList i)" using assms(4) by (intro queuedI [of Freequeue]) simp_all
  then have ne: "i \<noteq> cp" using kinv_proc [OF assms(1)] by (auto simp: proc_running_def)
  have t: "pagusr_table ?s i = child_table (pagusr_table s i) ?TP ds" "pagusr_table ?s cp = without_window ?TP"
    using ne by (simp_all add: forked_def)
  have m: "pbase_addr e AND 0xFFFFF = pbase_addr e" for e :: u32
    by (rule and_20_bits) (simp only: pbase_addr_def drop_page_small)
  have "translate (pagusr_table ?s i) w a = Some (unat (pbase_addr (?TP (unat a div 4096))), unat a mod 4096)"
    if a: "unat a < 264 * 4096" for a w
  proof -
    have "unat a div 4096 < 264" using a by (simp add: less_mult_imp_div_less)
    then show ?thesis by (simp add: t translate_def Let_def child_table_def m)
  qed
  moreover have "kaddr (pagusr_table ?s cp) a = None" if a: "284 * 4096 \<le> unat a \<and> unat a < 304 * 4096" for a
  proof -
    have "284 \<le> unat a div 4096" "unat a div 4096 < 304" using a by auto
    then show ?thesis by (simp add: t kaddr_def Let_def without_window_def)
  qed
  ultimately show ?thesis using s' by blast
qed

lemma fork_page_tables_witness:
  "\<exists>s'. sys_fork entered = Some (global_PID entered + 1, s')
     \<and> (\<forall>w. \<exists>f. translate (pagusr_table s' 2) w 0x10000 = Some f)"
proof -
  have "20 \<le> card (free_frames (phys_mem entered))" using entered_data(2) by simp
  from fork_page_tables [OF entered_kinv entered_slot boot_free this entered_data(1)]
  obtain s' where s': "sys_fork entered = Some (global_PID entered + 1, s')"
    "\<And>a w. unat a < 264 * 4096 \<Longrightarrow> \<exists>f. translate (pagusr_table s' 2) w a = Some f" by blast
  show ?thesis using s'(1) s'(2) [of "0x10000"] by auto
qed

text \<open>C30: with fewer than 20 frames left \<open>sys_fork\<close> returns \<open>EAGAIN\<close>: the frames it had taken are
  free again except frame 256, which \<open>free_frame\<close> refuses, and the process descriptor goes to the
  end of \<open>freequeue\<close>; but the thread descriptor it took is on no queue any more, so every such
  call loses one.\<close>

theorem fork_without_frames:
  assumes "kinv s Q M c cp" and "in_kernel s c"
    and "Q Freequeue = TaskList i # fs" and "Q Free_threadqueue = ThreadList u # us"
    and "card (free_frames (phys_mem s)) < 20"
  shows "\<exists>s'. sys_fork s = Some (- EAGAIN, s')
    \<and> free_frames (phys_mem s') = free_frames (phys_mem s) - {256}
    \<and> kinv s' (Q(Freequeue := fs @ [TaskList i], Free_threadqueue := us)) M c cp
    \<and> \<not> queued (heads M) (Q(Freequeue := fs @ [TaskList i], Free_threadqueue := us)) (ThreadList u)"
proof -
  obtain pm h where s': "sys_fork s = Some (- EAGAIN, fork_undone s c i u pm (card (free_frames (phys_mem s))) h)"
    "free_frames pm = free_frames (phys_mem s) - {256}"
    "kinv (fork_undone s c i u pm (card (free_frames (phys_mem s))) h)
      (Q(Freequeue := fs @ [TaskList i], Free_threadqueue := us)) M c cp"
    by (rule sys_fork_fails [OF assms])
  let ?Q1 = "Q(Free_threadqueue := us)"
  have n: "\<not> queued (heads M) ?Q1 (ThreadList u)"
    by (rule shape_tail_unqueued [OF kmid_shape [OF kinv_kmid [OF assms(1)]] heads_simps(3) assms(4)])
  have "\<not> queued (heads M) (?Q1(Freequeue := fs @ [TaskList i])) (ThreadList u)"
    by (rule not_queued_shrink [OF n]) (auto simp: assms(3))
  then show ?thesis using s' by (auto simp: fork_undone_def fun_upd_twist)
qed

lemma fork_without_frames_witness:
  "\<exists>s'. sys_fork (entered\<lparr>phys_mem := \<lambda>_. 1\<rparr>) = Some (- EAGAIN, s') \<and> free_frames (phys_mem s') = {}"
proof -
  let ?s = "entered\<lparr>phys_mem := \<lambda>_. 1\<rparr>"
  have k: "kinv ?s boot_queues {} 1 1" using entered_kinv(1) kinv_cong [of ?s entered] by simp
  have i: "in_kernel ?s 1" using entered_kinv(2) in_kernel_cong [of ?s entered 1] by simp
  have f: "free_frames (phys_mem ?s) = {}" by (simp add: free_frames_def)
  then have "card (free_frames (phys_mem ?s)) < 20" by simp
  from fork_without_frames [OF k i boot_free this] show ?thesis unfolding f by auto
qed

section \<open>A second process\<close>

lemma second_process:
  obtains s where "sys_fork entered = Some (1001, s)" and "remaining_quantum_p s = 20" "remaining_quantum_t s = 10"
    and "total_quantum (tasks s 1) = 20" and "total_quantum (tasks s 2) = 20"
    and "kinv s (boot_queues(Freequeue := map TaskList [3..<10], Free_threadqueue := map ThreadList [3..<10],
      Readyqueue := [TaskList 2], ReadyThreads 2 := [ThreadList 2])) {} 1 1" and "in_kernel s 1"
proof -
  have c: "20 \<le> card (free_frames (phys_mem entered))" using entered_data(2) by simp
  obtain ds pm where f: "take_frames alloc_frame 20 (phys_mem entered) = (ds, pm)" by fastforce
  have "boot_queues Readyqueue @ [TaskList 2] = [TaskList 2]" by simp
  note q = this
  have g: "global_PID entered = 1000" "remaining_quantum_p entered = 20" "remaining_quantum_t entered = 10"
    "total_quantum (tasks entered 1) = 20"
    using booted_facts [of "global_PID entered = 1000 \<and> remaining_quantum_p entered = 20
      \<and> remaining_quantum_t entered = 10 \<and> total_quantum (tasks entered 1) = 20"] by auto
  obtain h m where s': "sys_fork entered = Some (global_PID entered + 1, forked entered 1 1 2 2 1002 ds pm m h)"
    "kinv (forked entered 1 1 2 2 1002 ds pm m h) (boot_queues(Freequeue := map TaskList [3..<10],
      Free_threadqueue := map ThreadList [3..<10], Readyqueue := boot_queues Readyqueue @ [TaskList 2],
      ReadyThreads 2 := [ThreadList 2])) {} 1 1" "in_kernel (forked entered 1 1 2 2 1002 ds pm m h) 1"
    by (rule sys_fork_step [OF entered_kinv entered_slot boot_free f c entered_data(1)])
  show thesis
    by (rule that [of "forked entered 1 1 2 2 1002 ds pm m h"])
      (use s' g in \<open>simp_all add: forked_def\<close>)
qed

end
