(* ===== verification/Ticks.thy ===== *)
theory Ticks
  imports Dispatch ForkProofs
begin

text \<open>
  The clock interrupt (\<open>clock_handler\<close> of \<open>entry.S\<close>, \<open>clock_routine\<close> of \<open>interrupt.c\<close>): one
  interrupt is one step of the abstract scheduler, and so are many. What the policy means
  over time: the running process keeps the processor for its quantum, every ready process is
  served, but a quantum that ends at the wrong moment is never renewed.
\<close>

section \<open>One interrupt\<close>

lemma clock_handler_step:
  assumes "kinv s Q M c cp" and "extra \<le> 1000"
  obtains s' Q' c' cp' where "clock_handler show extra s = Some s'" and "kinv s' Q' M c' cp'"
    and "sched_view s' Q' c' cp' = rr_tick (get_quantum_p s) (get_quantum_t s) (sched_view s Q c cp)"
    and "same_quanta s s'" and "zeos_ticks s' = zeos_ticks s + 1" and "con s' = show (zeos_ticks s) (con s)"
    and "sym s' = sym s" and "ram s' = ram s" and "phys_mem s' = phys_mem s" and "pagusr_table s' = pagusr_table s"
proof -
  let ?e = "kernel_entry (17 + extra) (17 + extra) s"
  let ?s = "?e\<lparr>con := show (zeos_ticks s) (con s), zeos_ticks := zeos_ticks s + 1\<rparr>"
  have d: "entry_depth (17 + extra) (17 + extra)" using assms(2) by (simp add: entry_depth_def)
  have "kinv ?s Q M c cp = kinv ?e Q M c cp" by (rule kinv_cong) simp_all
  then have k: "kinv ?s Q M c cp" using kernel_entry_in_kernel [OF assms(1) d] by simp
  have "in_kernel ?s c = in_kernel ?e c" by (rule in_kernel_cong) simp_all
  then have i: "in_kernel ?s c" using kernel_entry_in_kernel [OF assms(1) d] by simp
  obtain s' Q' c' cp' where s': "schedule ?s = Some s'" "kinv s' Q' M c' cp'"
    "sched_view s' Q' c' cp' = rr_tick (get_quantum_p ?s) (get_quantum_t ?s) (sched_view ?s Q c cp)"
    "same_rest ?s s'" "same_quanta ?s s'"
    by (rule schedule_step [OF k i])
  have q: "get_quantum_p ?s = get_quantum_p s" "get_quantum_t ?s = get_quantum_t s" "sched_view ?s Q c cp = sched_view s Q c cp"
    by (simp_all add: fun_eq_iff get_quantum_p_def get_quantum_t_def sched_view_def kernel_entry_def)
  have "clock_handler show extra s = Some s'"
    using s'(1) by (simp add: clock_handler_def clock_routine_def Let_def kernel_entry_def)
  then show thesis
    using s'(2-5) q
    by (intro that [of s' Q' c' cp']) (simp_all add: same_rest_def same_quanta_def kernel_entry_def)
qed

text \<open>\<open>n\<close> interrupts in a row.\<close>

fun clock_ticks :: "(u32 \<Rightarrow> console \<Rightarrow> console) \<Rightarrow> nat \<Rightarrow> nat \<Rightarrow> kernel \<Rightarrow> kernel option" where
  "clock_ticks show extra 0 s = Some s"
| "clock_ticks show extra (Suc n) s = clock_handler show extra s \<bind> clock_ticks show extra n"

lemma clock_ticks_step:
  assumes "kinv s Q M c cp" and "extra \<le> 1000"
  obtains s' Q' c' cp' where "clock_ticks show extra n s = Some s'" and "kinv s' Q' M c' cp'"
    and "sched_view s' Q' c' cp' = (rr_tick (get_quantum_p s) (get_quantum_t s) ^^ n) (sched_view s Q c cp)"
    and "same_quanta s s'" and "zeos_ticks s' = zeos_ticks s + of_nat n"
proof -
  have "\<exists>s' Q' c' cp'. clock_ticks show extra n s = Some s' \<and> kinv s' Q' M c' cp'
    \<and> sched_view s' Q' c' cp' = (rr_tick (get_quantum_p s) (get_quantum_t s) ^^ n) (sched_view s Q c cp)
    \<and> same_quanta s s' \<and> zeos_ticks s' = zeos_ticks s + of_nat n"
    using assms(1)
  proof (induction n arbitrary: s Q c cp)
    case 0
    then show ?case by (auto simp: same_quanta_def)
  next
    case (Suc n)
    obtain s1 Q1 c1 cp1 where 1: "clock_handler show extra s = Some s1" "kinv s1 Q1 M c1 cp1"
      "sched_view s1 Q1 c1 cp1 = rr_tick (get_quantum_p s) (get_quantum_t s) (sched_view s Q c cp)"
      "same_quanta s s1" "zeos_ticks s1 = zeos_ticks s + 1"
      by (rule clock_handler_step [OF Suc.prems assms(2)])
    have q: "get_quantum_p s1 = get_quantum_p s" "get_quantum_t s1 = get_quantum_t s"
      using 1(4) by (simp_all add: same_quanta_def)
    obtain s' Q' c' cp' where 2: "clock_ticks show extra n s1 = Some s'" "kinv s' Q' M c' cp'"
      "sched_view s' Q' c' cp' = (rr_tick (get_quantum_p s) (get_quantum_t s) ^^ n) (sched_view s1 Q1 c1 cp1)"
      "same_quanta s1 s'" "zeos_ticks s' = zeos_ticks s1 + of_nat n"
      using Suc.IH [OF 1(2)] q by auto
    show ?case
      using 1(1,3-5) 2 same_quanta_trans [OF 1(4) 2(4)]
      by (intro exI [of _ s'] exI [of _ Q'] exI [of _ c'] exI [of _ cp']) (simp add: funpow_swap1)
  qed
  then show thesis using that by blast
qed

section \<open>What the policy does over time\<close>

text \<open>While the process quantum is not used up, the process and the waiting processes stay.\<close>

lemma rr_tick_stays:
  assumes "rr_qp v \<noteq> 1"
  shows "rr_process (rr_tick PQ TQ v) = rr_process v" and "rr_ready (rr_tick PQ TQ v) = rr_ready v"
    and "rr_qp (rr_tick PQ TQ v) = rr_qp v - 1"
  using assms
  by (auto simp: rr_tick_def rr_next_thread_def rr_requeue_thread_def Let_def)

lemma rr_ticks_stay:
  assumes "\<And>j. j < n \<Longrightarrow> rr_qp v - of_nat j \<noteq> 1"
  shows "rr_process ((rr_tick PQ TQ ^^ n) v) = rr_process v \<and> rr_ready ((rr_tick PQ TQ ^^ n) v) = rr_ready v
    \<and> rr_qp ((rr_tick PQ TQ ^^ n) v) = rr_qp v - of_nat n"
  using assms
proof (induction n)
  case (Suc n)
  then have IH: "rr_process ((rr_tick PQ TQ ^^ n) v) = rr_process v" "rr_ready ((rr_tick PQ TQ ^^ n) v) = rr_ready v"
    "rr_qp ((rr_tick PQ TQ ^^ n) v) = rr_qp v - of_nat n" by simp_all
  then have "rr_qp ((rr_tick PQ TQ ^^ n) v) \<noteq> 1" using Suc.prems [of n] by simp
  from rr_tick_stays [OF this] IH show ?case by simp
qed simp

text \<open>When it is, the first waiting process runs and the old one goes to the end of the line.\<close>

lemma rr_tick_switches:
  assumes "rr_qp v = 1" and "rr_ready v = p # ps"
  shows "rr_process (rr_tick PQ TQ v) = p" and "rr_ready (rr_tick PQ TQ v) = ps @ [rr_process v]"
    and "rr_qp (rr_tick PQ TQ v) = PQ p"
  using assms
  by (auto simp: rr_tick_def rr_next_process_def rr_next_thread_def rr_requeue_process_def rr_requeue_thread_def Let_def)

lemma rr_slice:
  assumes "rr_qp v \<noteq> 0" and "rr_ready v = p # ps"
  shows "rr_process ((rr_tick PQ TQ ^^ unat (rr_qp v)) v) = p"
    and "rr_ready ((rr_tick PQ TQ ^^ unat (rr_qp v)) v) = ps @ [rr_process v]"
    and "rr_qp ((rr_tick PQ TQ ^^ unat (rr_qp v)) v) = PQ p"
    and "j < unat (rr_qp v) \<Longrightarrow> rr_process ((rr_tick PQ TQ ^^ j) v) = rr_process v"
proof -
  obtain k where k: "unat (rr_qp v) = Suc k" using assms(1) by (cases "unat (rr_qp v)") (auto simp: unat_eq_0)
  have q: "rr_qp v = of_nat k + 1" using k by (metis of_nat_Suc add.commute unat_less_eq_of_nat)
  have less: "Suc k < 2 ^ 32" using k unat_less32 [of "rr_qp v"] by simp
  have ne: "rr_qp v - of_nat i \<noteq> 1" if "i < k" for i
  proof
    assume "rr_qp v - of_nat i = 1"
    then have "(of_nat k :: u32) = of_nat i" using q by (simp add: algebra_simps)
    then have "k = i" using that less unat_of_nat32 [of k] unat_of_nat32 [of i] by simp
    with that show False by simp
  qed
  note st = rr_ticks_stay [of k v PQ TQ, OF ne]
  have "rr_qp ((rr_tick PQ TQ ^^ k) v) = 1" "rr_ready ((rr_tick PQ TQ ^^ k) v) = p # ps"
    using st q assms(2) by simp_all
  note sw = rr_tick_switches [OF this]
  show "rr_process ((rr_tick PQ TQ ^^ unat (rr_qp v)) v) = p"
    "rr_ready ((rr_tick PQ TQ ^^ unat (rr_qp v)) v) = ps @ [rr_process v]"
    "rr_qp ((rr_tick PQ TQ ^^ unat (rr_qp v)) v) = PQ p"
    using sw st by (simp_all add: k)
  show "rr_process ((rr_tick PQ TQ ^^ j) v) = rr_process v" if "j < unat (rr_qp v)"
    using rr_ticks_stay [of j v PQ TQ] ne that k by simp
qed

text \<open>Every waiting process gets its turn.\<close>

lemma rr_served:
  assumes "rr_qp v \<noteq> 0" and "p \<in> set (rr_ready v)"
    and "\<And>i. i \<in> insert (rr_process v) (set (rr_ready v)) \<Longrightarrow> PQ i \<noteq> 0"
  shows "\<exists>n. rr_process ((rr_tick PQ TQ ^^ n) v) = p"
  using assms
proof (induction "length (takeWhile (\<lambda>q. q \<noteq> p) (rr_ready v))" arbitrary: v rule: less_induct)
  case less
  then obtain q qs where q: "rr_ready v = q # qs" by (cases "rr_ready v") auto
  note sl = rr_slice [OF less.prems(1) q, where PQ = PQ and TQ = TQ]
  show ?case
  proof (cases "q = p")
    case True
    with sl(1) show ?thesis by blast
  next
    case False
    let ?w = "(rr_tick PQ TQ ^^ unat (rr_qp v)) v"
    have p: "p \<in> set qs" using less.prems(2) q False by simp
    then have "takeWhile (\<lambda>q. q \<noteq> p) (rr_ready ?w) = takeWhile (\<lambda>q. q \<noteq> p) qs" by (simp add: sl(2))
    then have "length (takeWhile (\<lambda>q. q \<noteq> p) (rr_ready ?w)) < length (takeWhile (\<lambda>q. q \<noteq> p) (rr_ready v))"
      using q False by simp
    moreover have "rr_qp ?w \<noteq> 0" using sl(3) less.prems(3) q by simp
    moreover have "p \<in> set (rr_ready ?w)" using p sl(2) by simp
    moreover have "PQ i \<noteq> 0" if "i \<in> insert (rr_process ?w) (set (rr_ready ?w))" for i
      using that less.prems(3) [of i] by (auto simp: sl(1,2) q)
    ultimately obtain n where "rr_process ((rr_tick PQ TQ ^^ n) ?w) = p" using less.hyps by blast
    then have "rr_process ((rr_tick PQ TQ ^^ (n + unat (rr_qp v))) v) = p" by (simp add: funpow_add)
    then show ?thesis by blast
  qed
qed

section \<open>Correctness\<close>

text \<open>C1: \<open>schedule\<close> on the linked lists, the descriptors and the kernel stacks implements the
  two-level round robin \<open>rr_tick\<close>: inside the kernel, in a state that satisfies the invariant, it
  completes, the invariant holds again for the thread and process that run then, and their
  view is the next one of the abstract scheduler; nothing but scheduling data changes.\<close>

theorem schedule_refines:
  assumes "kinv s Q M c cp" and "in_kernel s c"
  shows "\<exists>s' Q' c' cp'. schedule s = Some s' \<and> kinv s' Q' M c' cp'
    \<and> sched_view s' Q' c' cp' = rr_tick (get_quantum_p s) (get_quantum_t s) (sched_view s Q c cp)
    \<and> same_rest s s'"
  by (rule schedule_step [OF assms]) blast

lemma schedule_refines_witness: "\<exists>s'. schedule entered = Some s' \<and> same_rest entered s'"
  using schedule_refines [OF entered_kinv] by blast

text \<open>C7: a process keeps the processor for exactly the rest of its quantum: for that many
  clock interrupts, less one, it stays the running process whatever its threads do; then the
  first process of \<open>readyqueue\<close> runs with a full quantum and the old one is the last in line.\<close>

theorem process_time_slice:
  assumes "kinv s Q M c cp" and "extra \<le> 1000" and "remaining_quantum_p s \<noteq> 0"
    and "Q Readyqueue = TaskList p # r"
  shows "\<exists>s' Q' c'. clock_ticks show extra (unat (remaining_quantum_p s)) s = Some s' \<and> kinv s' Q' M c' p
    \<and> map elem_index (Q' Readyqueue) = map elem_index r @ [cp]
    \<and> remaining_quantum_p s' = total_quantum (tasks s p)
    \<and> (\<forall>j < unat (remaining_quantum_p s). \<exists>s'' Q'' c''. clock_ticks show extra j s = Some s''
        \<and> kinv s'' Q'' M c'' cp)"
proof -
  let ?v = "sched_view s Q c cp"
  have v: "rr_qp ?v \<noteq> 0" "rr_ready ?v = p # map elem_index r" using assms by (simp_all add: sched_view_def)
  have fields: "rr_process (sched_view a b x y) = y" "rr_ready (sched_view a b x y) = map elem_index (b Readyqueue)"
    "rr_qp (sched_view a b x y) = remaining_quantum_p a" for a b x y by (simp_all add: sched_view_def)
  note sl = rr_slice [OF v, where PQ = "get_quantum_p s" and TQ = "get_quantum_t s", folded fields, unfolded fields]
  obtain s' Q' c' cp' where s': "clock_ticks show extra (unat (remaining_quantum_p s)) s = Some s'" "kinv s' Q' M c' cp'"
    "sched_view s' Q' c' cp' =
       (rr_tick (get_quantum_p s) (get_quantum_t s) ^^ unat (remaining_quantum_p s)) ?v"
    by (rule clock_ticks_step [OF assms(1,2)])
  have "cp' = p" "map elem_index (Q' Readyqueue) = map elem_index r @ [cp]"
    "remaining_quantum_p s' = total_quantum (tasks s p)"
    using sl(1-3) fields [of s' Q' c' cp'] unfolding s'(3) [symmetric] by (simp_all add: get_quantum_p_def)
  note last = this
  have before: "\<exists>s'' Q'' c''. clock_ticks show extra j s = Some s'' \<and> kinv s'' Q'' M c'' cp"
    if j: "j < unat (remaining_quantum_p s)" for j
  proof -
    obtain s'' Q'' c'' cp'' where s'': "clock_ticks show extra j s = Some s''" "kinv s'' Q'' M c'' cp''"
      "sched_view s'' Q'' c'' cp'' = (rr_tick (get_quantum_p s) (get_quantum_t s) ^^ j) ?v"
      by (rule clock_ticks_step [OF assms(1,2)])
    have "cp'' = cp"
      using sl(4) [OF j] fields(1) [of s'' Q'' c'' cp''] unfolding s''(3) [symmetric] by simp
    with s''(1,2) show ?thesis by blast
  qed
  show ?thesis using s'(1,2) last before by blast
qed

lemma process_time_slice_witness:
  "\<exists>s s' Q' c'. sys_fork entered = Some (1001, s) \<and> clock_ticks (\<lambda>_. id) 4 20 s = Some s' \<and> kinv s' Q' {} c' 2"
proof -
  obtain s where s: "sys_fork entered = Some (1001, s)" "remaining_quantum_p s = 20"
    "kinv s (boot_queues(Freequeue := map TaskList [3..<10], Free_threadqueue := map ThreadList [3..<10],
      Readyqueue := [TaskList 2], ReadyThreads 2 := [ThreadList 2])) {} 1 1" by (rule second_process)
  have "\<exists>s' Q' c'. clock_ticks (\<lambda>_. id) 4 (unat (remaining_quantum_p s)) s = Some s' \<and> kinv s' Q' {} c' 2"
    using process_time_slice [OF s(3), of 4 2 "[]" "\<lambda>_. id"] s(2) by fastforce
  with s(1,2) show ?thesis by simp
qed

text \<open>C8: under clock interrupts alone every waiting process is served: if the running process
  has some of its quantum left and the processes in line have quanta, then after finitely many
  interrupts the chosen one runs.\<close>

theorem every_process_served:
  assumes "kinv s Q M c cp" and "extra \<le> 1000" and "remaining_quantum_p s \<noteq> 0"
    and "TaskList p \<in> set (Q Readyqueue)" and "total_quantum (tasks s cp) \<noteq> 0"
    and "\<forall>n \<in> set (Q Readyqueue). total_quantum (tasks s (elem_index n)) \<noteq> 0"
  shows "\<exists>n s' Q' c'. clock_ticks show extra n s = Some s' \<and> kinv s' Q' M c' p"
proof -
  let ?v = "sched_view s Q c cp"
  have "p \<in> set (rr_ready ?v)" using imageI [OF assms(4), of elem_index] by (simp add: sched_view_def)
  moreover have "rr_qp ?v \<noteq> 0" using assms(3) by (simp add: sched_view_def)
  moreover have "get_quantum_p s i \<noteq> 0" if "i \<in> insert (rr_process ?v) (set (rr_ready ?v))" for i
    using that assms(5,6) by (auto simp: sched_view_def get_quantum_p_def)
  ultimately obtain n where n: "rr_process ((rr_tick (get_quantum_p s) (get_quantum_t s) ^^ n) ?v) = p"
    using rr_served [of ?v p "get_quantum_p s" "get_quantum_t s"] by blast
  obtain s' Q' c' cp' where s': "clock_ticks show extra n s = Some s'" "kinv s' Q' M c' cp'"
    "sched_view s' Q' c' cp' = (rr_tick (get_quantum_p s) (get_quantum_t s) ^^ n) ?v"
    by (rule clock_ticks_step [OF assms(1,2)])
  have "cp' = rr_process (sched_view s' Q' c' cp')" by (simp add: sched_view_def)
  with n s' show ?thesis by auto
qed

lemma every_process_served_witness:
  "\<exists>s n s' Q' c'. sys_fork entered = Some (1001, s) \<and> clock_ticks (\<lambda>_. id) 4 n s = Some s' \<and> kinv s' Q' {} c' 2"
proof -
  obtain s where s: "sys_fork entered = Some (1001, s)" "remaining_quantum_p s = 20"
    "total_quantum (tasks s 1) = 20" "total_quantum (tasks s 2) = 20"
    "kinv s (boot_queues(Freequeue := map TaskList [3..<10], Free_threadqueue := map ThreadList [3..<10],
      Readyqueue := [TaskList 2], ReadyThreads 2 := [ThreadList 2])) {} 1 1" by (rule second_process)
  have "\<exists>n s' Q' c'. clock_ticks (\<lambda>_. id) 4 n s = Some s' \<and> kinv s' Q' {} c' 2"
    by (rule every_process_served [OF s(5)]) (use s in simp_all)
  with s(1) show ?thesis by blast
qed

text \<open>C2: a quantum can be lost. If the last tick of the process quantum is also the last of the
  thread quantum, no process waits and another thread of the process is ready, then the threads
  are switched and the process quantum is left at 0; from there it counts down from
  \<open>2 ^ 32 - 1\<close>, so for \<open>2 ^ 32 - 1\<close> interrupts the process is never preempted, whichever
  processes are waiting.\<close>

theorem lost_process_quantum:
  assumes "kinv s Q M c cp" and "extra \<le> 1000"
  shows "(remaining_quantum_p s = 1 \<and> remaining_quantum_t s = 1 \<and> Q Readyqueue = [] \<and> Q (ReadyThreads cp) \<noteq> []
      \<longrightarrow> (\<exists>s'. clock_handler show extra s = Some s' \<and> remaining_quantum_p s' = 0))
    \<and> (remaining_quantum_p s = 0 \<and> n < 2 ^ 32
      \<longrightarrow> (\<exists>s' Q' c'. clock_ticks show extra n s = Some s' \<and> kinv s' Q' M c' cp))"
proof (intro conjI impI)
  let ?v = "sched_view s Q c cp"
  assume a: "remaining_quantum_p s = 1 \<and> remaining_quantum_t s = 1 \<and> Q Readyqueue = [] \<and> Q (ReadyThreads cp) \<noteq> []"
  obtain s' Q' c' cp' where s': "clock_handler show extra s = Some s'"
    "sched_view s' Q' c' cp' = rr_tick (get_quantum_p s) (get_quantum_t s) ?v"
    by (rule clock_handler_step [OF assms])
  have "rr_qp (rr_tick (get_quantum_p s) (get_quantum_t s) ?v) = 0"
    using a by (simp add: rr_tick_def sched_view_def rr_next_thread_def rr_requeue_thread_def Let_def)
  then have "remaining_quantum_p s' = 0" using s'(2) [symmetric] by (simp add: sched_view_def)
  with s'(1) show "\<exists>s'. clock_handler show extra s = Some s' \<and> remaining_quantum_p s' = 0" by blast
next
  let ?v = "sched_view s Q c cp"
  assume a: "remaining_quantum_p s = 0 \<and> n < 2 ^ 32"
  obtain s' Q' c' cp' where s': "clock_ticks show extra n s = Some s'" "kinv s' Q' M c' cp'"
    "sched_view s' Q' c' cp' = (rr_tick (get_quantum_p s) (get_quantum_t s) ^^ n) ?v"
    by (rule clock_ticks_step [OF assms])
  have "rr_qp ?v - of_nat j \<noteq> 1" if "j < n" for j
  proof
    assume "rr_qp ?v - of_nat j = 1"
    then have "- of_nat j = (1 :: u32)" using a by (simp add: sched_view_def)
    then have "of_nat j = (-1 :: u32)" by (metis minus_minus)
    then have "j = 4294967295" using that a unat_of_nat32 [of j] by (simp add: unat_minus_one32)
    with that a show False by simp
  qed
  from rr_ticks_stay [where n = n and v = ?v and PQ = "get_quantum_p s" and TQ = "get_quantum_t s", OF this]
  have "cp' = cp" unfolding s'(3) [symmetric] by (simp add: sched_view_def)
  with s' show "\<exists>s' Q' c'. clock_ticks show extra n s = Some s' \<and> kinv s' Q' M c' cp" by blast
qed

lemma lost_process_quantum_witness:
  "\<exists>s' Q' c'. clock_ticks (\<lambda>_. id) 4 100000 (booted\<lparr>remaining_quantum_p := 0\<rparr>) = Some s' \<and> kinv s' Q' {} c' 1"
proof -
  have "kinv (booted\<lparr>remaining_quantum_p := 0\<rparr>) boot_queues {} 1 1"
    using booted_kinv kinv_cong [of "booted\<lparr>remaining_quantum_p := 0\<rparr>" booted] by simp
  from lost_process_quantum [OF this, of 4 "\<lambda>_. id" 100000] show ?thesis by simp
qed

end
