(* ===== verification/Tables.thy ===== *)
theory Tables
  imports Layout
begin

text \<open>
  The tables the processor reads: the interrupt descriptor table (\<open>interrupt.c\<close>), the
  segment descriptor and contents of the TSS (\<open>mm.c\<close>) and the \<open>sysenter\<close> registers. The
  exception handlers that \<open>set_handlers\<close> of \<open>libzeos\<close> installs are an argument.
\<close>

record TSS =
  PreviousTaskLink :: u16
  tss_esp0_field :: u32
  tss_ss0 :: u16
  tss_esp1 :: u32
  tss_ss1 :: u16
  tss_esp2 :: u32
  tss_ss2 :: u16
  tss_cr3 :: u32
  tss_eip :: u32
  tss_eFlags :: u32
  tss_eax :: u32
  tss_ecx :: u32
  tss_edx :: u32
  tss_ebx :: u32
  tss_esp :: u32
  tss_ebp :: u32
  tss_esi :: u32
  tss_edi :: u32
  tss_es :: u16
  tss_cs :: u16
  tss_ss :: u16
  tss_ds :: u16
  tss_fs :: u16
  tss_gs :: u16
  LDTSegmentSelector :: u16
  debugTrap :: u16
  IOMapBaseAddress :: u16

record tables =
  idt :: "nat \<Rightarrow> Gate"
  idtR :: Register
  gdt :: "nat \<Rightarrow> Descriptor"
  gdtR :: Register
  msr :: "u32 \<Rightarrow> u64"
  tss :: TSS
  task_reg :: u16

definition IDT_ENTRIES :: nat where [simp]: "IDT_ENTRIES = 256"
definition GDT_START :: u32 where [const_defs]: "GDT_START = 0x901b3"
definition INITIAL_EFLAGS :: u32 where [const_defs]: "INITIAL_EFLAGS = 0x200"

text \<open>\<open>(Word)(maxAccessibleFromPL << 13) | 0x8E00\<close>.\<close>

definition gate_flags_of :: "u32 \<Rightarrow> u16" where
  "gate_flags_of maxAccessibleFromPL = ucast (push_bit 13 maxAccessibleFromPL) OR 0x8E00"

definition setInterruptHandler :: "nat \<Rightarrow> u32 \<Rightarrow> u32 \<Rightarrow> tables \<Rightarrow> tables" where
  "setInterruptHandler vector handler maxAccessibleFromPL T =
     (let flags = gate_flags_of maxAccessibleFromPL;
          g1 = (idt T vector)\<lparr>lowOffset := lowWord handler\<rparr>;
          g2 = g1\<lparr>segmentSelector := KERNEL_CS\<rparr>;
          g3 = g2\<lparr>gate_flags := flags\<rparr>;
          g4 = g3\<lparr>highOffset := highWord handler\<rparr>
      in T\<lparr>idt := (idt T)(vector := g4)\<rparr>)"

definition setTrapHandler :: "nat \<Rightarrow> u32 \<Rightarrow> u32 \<Rightarrow> tables \<Rightarrow> tables" where
  "setTrapHandler vector handler maxAccessibleFromPL T =
     (let flags = gate_flags_of maxAccessibleFromPL;
          g1 = (idt T vector)\<lparr>lowOffset := lowWord handler\<rparr>;
          g2 = g1\<lparr>segmentSelector := KERNEL_CS\<rparr>;
          g3 = g2\<lparr>gate_flags := flags\<rparr>;
          g4 = g3\<lparr>highOffset := highWord handler\<rparr>
      in T\<lparr>idt := (idt T)(vector := g4)\<rparr>)"

definition setMSR :: "u32 \<Rightarrow> u32 \<Rightarrow> u32 \<Rightarrow> tables \<Rightarrow> tables" where
  "setMSR msr_number high low T =
     T\<lparr>msr := (msr T)(msr_number := push_bit 32 (ucast high) OR ucast low)\<rparr>"

text \<open>The addresses of the handlers in \<open>entry.S\<close>, and of the objects the registers point to.\<close>

record handlers =
  idt_addr :: u32
  tss_addr :: u32
  clock_handler_addr :: u32
  keyboard_handler_addr :: u32
  system_call_handler_addr :: u32
  initial_esp :: u32   \<comment> \<open>\<open>INITIAL_ESP\<close>\<close>

definition setSysenter :: "handlers \<Rightarrow> tables \<Rightarrow> tables" where
  "setSysenter a T =
     (let T1 = setMSR 0x174 0 (ucast KERNEL_CS) T;
          T2 = setMSR 0x175 0 (initial_esp a) T1
      in setMSR 0x176 0 (system_call_handler_addr a) T2)"

definition setIdt :: "((nat \<Rightarrow> Gate) \<Rightarrow> nat \<Rightarrow> Gate) \<Rightarrow> handlers \<Rightarrow> tables \<Rightarrow> tables" where
  "setIdt set_handlers a T =
     (let T1 = T\<lparr>idtR := \<lparr>reg_limit = of_nat (IDT_ENTRIES * 8 - 1), reg_base = idt_addr a\<rparr>\<rparr>;
          T2 = T1\<lparr>idt := set_handlers (idt T1)\<rparr>;
          T3 = setInterruptHandler 32 (clock_handler_addr a) 0 T2;
          T4 = setInterruptHandler 33 (keyboard_handler_addr a) 0 T3
      in setSysenter a T4)"

definition setGdt :: "handlers \<Rightarrow> tables \<Rightarrow> tables" where
  "setGdt a T =
     (let k = unat (drop_bit 3 KERNEL_TSS);
          d1 = (gdt T k)\<lparr>lowBase := lowWord (tss_addr a)\<rparr>;
          d2 = d1\<lparr>midBase := midByte (tss_addr a)\<rparr>;
          d3 = d2\<lparr>highBase := highByte (tss_addr a)\<rparr>
      in T\<lparr>gdt := (gdt T)(k := d3), gdtR := \<lparr>reg_limit = of_nat (256 * 8), reg_base = GDT_START\<rparr>\<rparr>)"

definition setTSS :: "handlers \<Rightarrow> tables \<Rightarrow> tables" where
  "setTSS a T = T\<lparr>tss := \<lparr>
     PreviousTaskLink = 0, tss_esp0_field = initial_esp a, tss_ss0 = KERNEL_DS,
     tss_esp1 = 0, tss_ss1 = 0, tss_esp2 = 0, tss_ss2 = 0, tss_cr3 = 0, tss_eip = 0,
     tss_eFlags = INITIAL_EFLAGS, tss_eax = 0, tss_ecx = 0, tss_edx = 0, tss_ebx = 0,
     tss_esp = USER_ESP, tss_ebp = USER_ESP, tss_esi = 0, tss_edi = 0, tss_es = USER_DS,
     tss_cs = USER_CS, tss_ss = USER_DS, tss_ds = USER_DS, tss_fs = 0, tss_gs = 0,
     LDTSegmentSelector = KERNEL_TSS, debugTrap = 0, IOMapBaseAddress = 0\<rparr>,
     task_reg := KERNEL_TSS\<rparr>"

section \<open>What the processor reads back\<close>

text \<open>Fields of a gate's flags: present in bit 15, privilege in bits 13 and 14, type below.\<close>

definition gate_present :: "Gate \<Rightarrow> bool" where "gate_present g = bit (gate_flags g) 15"
definition gate_dpl :: "Gate \<Rightarrow> nat" where "gate_dpl g = unat (drop_bit 13 (gate_flags g) AND 3)"
definition gate_type :: "Gate \<Rightarrow> u16" where "gate_type g = drop_bit 8 (gate_flags g) AND 31"
definition gate_offset :: "Gate \<Rightarrow> u32" where "gate_offset g = join_words (highOffset g) (lowOffset g)"

definition descriptor_base :: "Descriptor \<Rightarrow> u32" where
  "descriptor_base d = join_base (highBase d) (midBase d) (lowBase d)"

lemma gate_flags_cases:
  assumes "pl < 4"
  shows "gate_flags_of (of_nat pl) = of_nat (pl * 8192 + 0x8E00)"
proof -
  have "pl = 0 \<or> pl = 1 \<or> pl = 2 \<or> pl = 3" using assms by auto
  then show ?thesis by (elim disjE) (simp_all add: gate_flags_of_def)
qed

section \<open>Correctness\<close>

text \<open>What \<open>setInterruptHandler\<close> writes is what the processor reads back: a present
  interrupt gate of the given privilege whose target is the handler in the kernel code segment;
  all other gates stay, and \<open>setTrapHandler\<close> writes the very same gate.\<close>

theorem interrupt_gates:
  assumes "pl < 4"
  shows "gate_present (idt (setInterruptHandler v h (of_nat pl) T) v)
    \<and> gate_dpl (idt (setInterruptHandler v h (of_nat pl) T) v) = pl
    \<and> gate_type (idt (setInterruptHandler v h (of_nat pl) T) v) = 0xE
    \<and> gate_offset (idt (setInterruptHandler v h (of_nat pl) T) v) = h
    \<and> segmentSelector (idt (setInterruptHandler v h (of_nat pl) T) v) = KERNEL_CS
    \<and> (w \<noteq> v \<longrightarrow> idt (setInterruptHandler v h (of_nat pl) T) w = idt T w)
    \<and> setTrapHandler v h (of_nat pl) T = setInterruptHandler v h (of_nat pl) T"
proof -
  let ?g = "idt (setInterruptHandler v h (of_nat pl) T) v"
  have g: "gate_flags ?g = of_nat (pl * 8192 + 0x8E00)" "lowOffset ?g = lowWord h" "highOffset ?g = highWord h"
    "segmentSelector ?g = KERNEL_CS"
    using gate_flags_cases [OF assms] by (simp_all add: setInterruptHandler_def Let_def)
  have "pl = 0 \<or> pl = 1 \<or> pl = 2 \<or> pl = 3" using assms by auto
  then have "gate_present ?g \<and> gate_dpl ?g = pl \<and> gate_type ?g = 0xE"
    unfolding gate_present_def gate_dpl_def gate_type_def g(1) by (elim disjE) simp_all
  moreover have "gate_offset ?g = h" by (simp only: gate_offset_def g join_words_split)
  ultimately show ?thesis using g(4)
    by (auto simp: setInterruptHandler_def setTrapHandler_def Let_def)
qed

text \<open>The descriptor that \<open>setGdt\<close> fills in the TSS entry of the GDT is read back by the
  processor as the address of the TSS, and its limit and flags and all other descriptors are
  left as the boot sector made them.\<close>

theorem gdt_tss_base:
  "descriptor_base (gdt (setGdt a T) 6) = tss_addr a
   \<and> desc_limit (gdt (setGdt a T) 6) = desc_limit (gdt T 6) \<and> flags1 (gdt (setGdt a T) 6) = flags1 (gdt T 6)
   \<and> flags2 (gdt (setGdt a T) 6) = flags2 (gdt T 6) \<and> (\<forall>k. k \<noteq> 6 \<longrightarrow> gdt (setGdt a T) k = gdt T k)"
proof -
  have k: "unat (drop_bit 3 KERNEL_TSS) = 6" by (simp add: KERNEL_TSS_def)
  show ?thesis by (simp add: setGdt_def Let_def k descriptor_base_def join_base_split)
qed

lemma gdt_tss_base_witness:
  "\<forall>a T. gdt (setGdt a T) 0 = gdt T 0 \<and> descriptor_base (gdt (setGdt a T) 6) = tss_addr a"
  by (intro allI) (use gdt_tss_base in simp)

text \<open>After \<open>setIdt\<close> and \<open>setTSS\<close> the clock and the keyboard interrupts enter their
  handlers, reachable from the kernel level only, the other gates are those of the library's
  \<open>set_handlers\<close>, \<open>sysenter\<close> enters \<open>system_call_handler\<close> in the kernel code segment, and both it
  and an interrupt use the stack \<open>INITIAL_ESP\<close>.\<close>

theorem processor_tables:
  "gate_offset (idt (setTSS a (setIdt sh a T)) 32) = clock_handler_addr a
   \<and> gate_offset (idt (setTSS a (setIdt sh a T)) 33) = keyboard_handler_addr a
   \<and> gate_dpl (idt (setTSS a (setIdt sh a T)) 32) = 0 \<and> gate_dpl (idt (setTSS a (setIdt sh a T)) 33) = 0
   \<and> (\<forall>v. v \<noteq> 32 \<and> v \<noteq> 33 \<longrightarrow> idt (setTSS a (setIdt sh a T)) v = sh (idt T) v)
   \<and> msr (setTSS a (setIdt sh a T)) 0x174 = 0x10
   \<and> msr (setTSS a (setIdt sh a T)) 0x175 = ucast (initial_esp a)
   \<and> msr (setTSS a (setIdt sh a T)) 0x176 = ucast (system_call_handler_addr a)
   \<and> tss_esp0_field (tss (setTSS a (setIdt sh a T))) = initial_esp a
   \<and> tss_ss0 (tss (setTSS a (setIdt sh a T))) = KERNEL_DS
   \<and> idtR (setTSS a (setIdt sh a T)) = \<lparr>reg_limit = 2047, reg_base = idt_addr a\<rparr>"
proof -
  have f: "gate_flags_of 0 = 0x8E00" using gate_flags_cases [of 0] by simp
  note d = setTSS_def setIdt_def setSysenter_def setInterruptHandler_def setMSR_def Let_def f
  show ?thesis
    by (simp add: d gate_offset_def gate_dpl_def join_words_split KERNEL_CS_def)
qed

lemma processor_tables_witness:
  "\<forall>a T. msr (setTSS a (setIdt (\<lambda>t. t) a T)) 0x174 = 0x10 \<and> idt (setTSS a (setIdt (\<lambda>t. t) a T)) 0 = idt T 0"
proof (intro allI)
  fix a T
  show "msr (setTSS a (setIdt (\<lambda>t. t) a T)) 0x174 = 0x10 \<and> idt (setTSS a (setIdt (\<lambda>t. t) a T)) 0 = idt T 0"
    using processor_tables [of a "\<lambda>t. t" T] by simp
qed

lemma interrupt_gates_witness: "\<forall>T. gate_dpl (idt (setInterruptHandler 128 0x12345678 3 T) 128) = 3"
proof
  fix T
  show "gate_dpl (idt (setInterruptHandler 128 0x12345678 3 T) 128) = 3"
    using interrupt_gates [of 3 128 "0x12345678" T 0] by simp
qed

end
