(* ===== verification/MutexProofs.thy ===== *)
theory MutexProofs
  imports MutexSys Scenario
begin

text \<open>
  The mutex system calls on states that satisfy the invariant: who waits, who is woken, and what
  becomes of the calls that follow null pointers.
\<close>

section \<open>Making a mutex\<close>

lemma good_mutex: "\<not> bad_mutex n \<Longrightarrow> unat n < 20"
  using sint_nonneg32 [of n] unfolding bad_mutex_def by linarith

lemma heads_insert: "heads (insert m M) = insert (MutexBlocked m) (heads M)"
  by (auto simp: heads_def)

lemma kinv_mutexes:
  "kinv (s\<lparr>mutexes := x\<rparr>) Q M c cp = kinv s Q M c cp" "in_kernel (s\<lparr>mutexes := x\<rparr>) c = in_kernel s c"
  by (rule kinv_cong; simp) (rule in_kernel_cong; simp)

lemma sys_mutex_init_step:
  assumes "kinv s Q M c cp" and "in_kernel s c" and "\<not> bad_mutex n" and "owner (mutexes s (unat n)) = 0"
    and "unat n \<in> M \<longrightarrow> Q (MutexBlocked (unat n)) = []"
  obtains s' where "sys_mutex_init n s = Some (0, s')"
    and "s' = s\<lparr>mutexes := (mutexes s)(unat n := (mutexes s (unat n))\<lparr>owner := TID (threads s c), locked := 0\<rparr>),
      heap := INIT_LIST_HEAD (MutexBlocked (unat n)) (heap s)\<rparr>"
    and "kinv s' (Q(MutexBlocked (unat n) := [])) (insert (unat n) M) c cp" and "in_kernel s' c"
proof -
  let ?m = "unat n"
  let ?s = "s\<lparr>mutexes := (mutexes s)(?m := (mutexes s ?m)\<lparr>owner := TID (threads s c), locked := 0\<rparr>),
      heap := INIT_LIST_HEAD (MutexBlocked ?m) (heap s)\<rparr>"
  let ?Q = "Q(MutexBlocked ?m := [])" and ?M = "insert ?m M"
  note km = kinv_kmid [OF assms(1)]
  have m: "?m < 20" by (rule good_mutex [OF assms(3)])
  have sh: "shape (heap ?s) (heads ?M) ?Q"
    using shape_init [OF kmid_shape [OF km] kmid_mutex_unqueued [OF km]] by (simp add: heads_insert)
  have q: "queued (heads ?M) ?Q x = queued (heads M) Q x" for x
  proof -
    have "?Q a = Q a" if "a \<in> heads M" for a using assms(5) that by auto
    then have "(\<exists>a \<in> heads M. x \<in> set (?Q a)) = (\<exists>a \<in> heads M. x \<in> set (Q a))" by (intro bex_cong) simp_all
    then show ?thesis by (simp only: queued_def heads_insert bex_simps) simp
  qed
  have members: "member_ok ?s ?Q c a x" if a: "a \<in> heads ?M" and x: "x \<in> set (?Q a)" for a x
  proof -
    have "a \<in> heads M" "x \<in> set (Q a)" using a x by (auto simp: heads_insert split: if_splits)
    then show ?thesis by (intro member_ok_transfer [OF kmid_member [OF km]]) auto
  qed
  have "kmid ?s ?Q ?M c"
  proof (rule kmid_update [OF km])
    show "unmade_mutexes (heap ?s) ?M"
      using kmid_unmade [OF km] m by (simp add: unmade_mutexes_def INIT_other)
  qed (use sh q members kmid_c [OF km] in simp_all)
  then have "kinv ?s ?Q ?M c cp"
    using kinv_proc [OF assms(1)] kinv_thread [OF assms(1)] kinv_cpu [OF assms(1)] q
    by (simp add: kinv_def proc_running_def thread_running_def on_cpu_def)
  moreover have "sys_mutex_init n s = Some (0, ?s)"
    using assms(3,4) kinv_current [OF assms(1,2)]
    by (simp add: sys_mutex_init_def Let_def k_INIT_LIST_HEAD_def)
  moreover have "in_kernel ?s c" using assms(2) in_kernel_cong [of ?s s c] by simp
  ultimately show thesis by (intro that [of ?s]) simp_all
qed

section \<open>Locking\<close>

lemma sys_mutex_lock_free:
  assumes "\<not> bad_mutex n" and "\<not> sint (owner (mutexes s (unat n))) < 0" and "locked (mutexes s (unat n)) = 0"
  shows "sys_mutex_lock n s = Some (0, s\<lparr>mutexes := (mutexes s)(unat n := (mutexes s (unat n))\<lparr>locked := 1\<rparr>)\<rparr>)"
  using assms by (simp add: sys_mutex_lock_def Let_def)

text \<open>The running thread joins the waiters of a mutex.\<close>

lemma wait_for_mutex:
  assumes "kinv s Q M c cp" and "m \<in> M"
  obtains h where "k_list_add_tail (ThreadList c) (MutexBlocked m)
      (upd_thread c (\<lambda>t. t\<lparr>thread_state := ST_BLOCKED\<rparr>) s) =
      Some (s\<lparr>threads := (threads s)(c := (threads s c)\<lparr>thread_state := ST_BLOCKED\<rparr>), heap := h\<rparr>)"
    and "kmid (s\<lparr>threads := (threads s)(c := (threads s c)\<lparr>thread_state := ST_BLOCKED\<rparr>), heap := h\<rparr>)
      (Q(MutexBlocked m := Q (MutexBlocked m) @ [ThreadList c])) M c"
    and "proc_running (s\<lparr>threads := (threads s)(c := (threads s c)\<lparr>thread_state := ST_BLOCKED\<rparr>), heap := h\<rparr>)
      (Q(MutexBlocked m := Q (MutexBlocked m) @ [ThreadList c])) M cp"
proof -
  let ?Q = "Q(MutexBlocked m := Q (MutexBlocked m) @ [ThreadList c])"
  note km = kinv_kmid [OF assms(1)]
  have cp: "cp < 10" using kinv_proc [OF assms(1)] by (simp add: proc_running_def)
  have c: "thread_p (threads s c) = Some cp" "\<not> queued (heads M) Q (ThreadList c)"
    using kinv_thread [OF assms(1)] by (simp_all add: thread_running_def)
  have q: "MutexBlocked m \<in> heads M" using assms(2) by simp
  obtain h where h: "list_add_tail (ThreadList c) (MutexBlocked m) (heap s) = Some h" "shape h (heads M) ?Q"
    "\<And>x. x \<notin> heads M \<Longrightarrow> x \<noteq> ThreadList c \<Longrightarrow> \<not> queued (heads M) Q x \<Longrightarrow> h x = heap s x"
    using lq.add_tail_law [OF kmid_shape [OF km] q heads_simps(8) c(2)] by blast
  let ?s = "s\<lparr>threads := (threads s)(c := (threads s c)\<lparr>thread_state := ST_BLOCKED\<rparr>), heap := h\<rparr>"
  have "kmid ?s ?Q M c"
  proof (rule kmid_requeue [where N = "{ThreadList c}", OF km])
    show "member_ok ?s ?Q c a n" if a: "a \<in> heads M" and n: "n \<in> set (?Q a)" "n \<in> {ThreadList c}" for a n
    proof -
      have "a = MutexBlocked m" using n c(2) queuedI [of a "heads M" n Q, OF a] by (auto split: if_splits)
      then show ?thesis using n c(1) cp kmid_c [OF km] by (auto simp: waits_def)
    qed
  qed (use h(2,3) c(1) in \<open>auto split: if_splits\<close>)
  moreover have "proc_running ?s ?Q M cp"
    using kinv_proc [OF assms(1)] by (simp add: proc_running_def not_queued_append)
  ultimately show thesis using h(1) by (intro that [of h]) (simp_all add: k_list_add_tail_case)
qed

lemma sys_mutex_lock_wait:
  assumes "kinv s Q M c cp" and "in_kernel s c" and "\<not> bad_mutex n" and "unat n \<in> M"
    and "\<not> sint (owner (mutexes s (unat n))) < 0" and "locked (mutexes s (unat n)) \<noteq> 0"
    and "Q (ReadyThreads cp) = ThreadList t # ts"
  obtains s' where "sys_mutex_lock n s = Some (0, s')"
    and "kinv s' (Q(MutexBlocked (unat n) := Q (MutexBlocked (unat n)) @ [ThreadList c], ReadyThreads cp := ts)) M t cp"
    and "same_rest s s'" and "thread_state (threads s' c) = ST_BLOCKED" and "thread_state (threads s' t) = ST_RUN"
    and "\<And>x. TID (threads s' x) = TID (threads s x)" and "\<And>x. thread_p (threads s' x) = thread_p (threads s x)"
proof -
  let ?b = "MutexBlocked (unat n)"
  let ?Q = "Q(?b := Q ?b @ [ThreadList c])"
  obtain h where h: "k_list_add_tail (ThreadList c) ?b (upd_thread c (\<lambda>t. t\<lparr>thread_state := ST_BLOCKED\<rparr>) s) =
      Some (s\<lparr>threads := (threads s)(c := (threads s c)\<lparr>thread_state := ST_BLOCKED\<rparr>), heap := h\<rparr>)"
    "kmid (s\<lparr>threads := (threads s)(c := (threads s c)\<lparr>thread_state := ST_BLOCKED\<rparr>), heap := h\<rparr>) ?Q M c"
    "proc_running (s\<lparr>threads := (threads s)(c := (threads s c)\<lparr>thread_state := ST_BLOCKED\<rparr>), heap := h\<rparr>) ?Q M cp"
    by (rule wait_for_mutex [OF assms(1,4)])
  let ?s = "s\<lparr>threads := (threads s)(c := (threads s c)\<lparr>thread_state := ST_BLOCKED\<rparr>), heap := h\<rparr>"
  have ink: "in_kernel ?s c" using assms(2) in_kernel_cong [of ?s s c] by simp
  have own: "thread_p (threads ?s c) = Some cp" using kinv_thread [OF assms(1)] by (simp add: thread_running_def)
  have cp: "cp < 10" using kinv_proc [OF assms(1)] by (simp add: proc_running_def)
  have tc: "t \<noteq> c"
    using kinv_thread [OF assms(1)] assms(7) cp queuedI [of "ReadyThreads cp" "heads M" "ThreadList t" Q]
    by (auto simp: thread_running_def)
  have r: "?Q (ReadyThreads cp) = ThreadList t # ts" using assms(7) by simp
  then have ne: "?Q (ReadyThreads cp) \<noteq> []" by simp
  have other: "hd (?Q (ReadyThreads cp)) = ThreadList c \<Longrightarrow> saved_ok (sym ?s) c (register_esp (threads ?s c))"
    unfolding r using tc by simp
  obtain s' t' ts' where s': "sched_next_thread_rr ?s = Some s'" "?Q (ReadyThreads cp) = ThreadList t' # ts'"
    "kinv s' (?Q(ReadyThreads cp := ts')) M t' cp" "remaining_quantum_p s' = remaining_quantum_p ?s"
    "remaining_quantum_t s' = quantum (threads ?s t')" "same_rest ?s s'" "tasks s' = tasks ?s"
    "threads s' = handed_over c t' (ebp ?s) (threads ?s)" "esp s' = register_esp (threads ?s t')"
    by (rule next_thread_step [OF h(2) ink own h(3) ne other])
  have "sys_mutex_lock n s = Some (0, s')"
    using h(1) s'(1) assms(3,5,6) kinv_current [OF assms(1,2)] by (simp add: sys_mutex_lock_def Let_def)
  moreover have "same_rest s s'" using s'(6) by (simp add: same_rest_def)
  moreover have "t' = t" using s'(2) r by simp
  then have "thread_state (threads s' c) = ST_BLOCKED" "thread_state (threads s' t) = ST_RUN"
    using tc by (simp_all add: s'(8))
  moreover have "TID (threads s' x) = TID (threads s x)" "thread_p (threads s' x) = thread_p (threads s x)" for x
    by (simp_all add: s'(8))
  ultimately show thesis using s'(2,3) r by (intro that [of s']) simp_all
qed

section \<open>Unlocking\<close>

lemma sys_mutex_unlock_step:
  assumes "kinv s Q M c cp" and "in_kernel s c" and "\<not> bad_mutex n" and "unat n \<in> M"
    and "\<not> sint (owner (mutexes s (unat n))) < 0" and "locked (mutexes s (unat n)) \<noteq> 0"
    and "Q (MutexBlocked (unat n)) = ThreadList t # ws"
  obtains s' h where "sys_mutex_unlock n s = Some (0, s')"
    and "s' = s\<lparr>heap := h, threads := (threads s)(t := (threads s t)\<lparr>thread_state := ST_READY\<rparr>),
      mutexes := (mutexes s)(unat n := (mutexes s (unat n))\<lparr>locked := if ws = [] then 0 else locked (mutexes s (unat n))\<rparr>)\<rparr>"
    and "shape h (heads M) (Q(MutexBlocked (unat n) := ws, ReadyThreads cp := Q (ReadyThreads cp) @ [ThreadList t]))"
    and "thread_p (threads s t) = Some cp \<longrightarrow>
      kinv s' (Q(MutexBlocked (unat n) := ws, ReadyThreads cp := Q (ReadyThreads cp) @ [ThreadList t])) M c cp"
proof -
  let ?m = "unat n" and ?b = "MutexBlocked (unat n)" and ?R = "ReadyThreads cp"
  let ?Q = "Q(?b := ws, ?R := Q ?R @ [ThreadList t])"
  note km = kinv_kmid [OF assms(1)] and cur = kinv_current [OF assms(1,2)]
  have cp: "cp < 10" using kinv_proc [OF assms(1)] by (simp add: proc_running_def)
  have H: "?b \<in> heads M" "?R \<in> heads M" using assms(4) cp by simp_all
  have tb: "ThreadList t \<in> set (Q ?b)" using assms(7) by simp
  obtain i where i: "i < 10" "waits s c i t" using kmid_member [OF km H(1) tb] by auto
  then have nr: "thread_state (threads s t) \<noteq> ST_RUN" and t: "t < 22" by (simp_all add: waits_def)
  have cur2: "current_p s = Some cp" using cur by simp
  have q: "(Q(?b := remove1 (ThreadList t) (Q ?b)))
      (?R := (Q(?b := remove1 (ThreadList t) (Q ?b))) ?R @ [ThreadList t]) = ?Q" using assms(7) by simp
  obtain h where h: "update_thread_state_rr t (Some ?R) s = Some (s\<lparr>heap := h,
       threads := (threads s)(t := (threads s t)\<lparr>thread_state := (if ?R \<noteq> ?R then ST_BLOCKED else ST_READY)\<rparr>)\<rparr>)"
    "shape h (heads M) ?Q" "\<And>x. x \<notin> heads M \<Longrightarrow> \<not> queued (heads M) Q x \<Longrightarrow> h x = heap s x"
    by (rule update_thread_state_move [OF nr cur2 kmid_shape [OF km] H tb, unfolded q]) (rule that)
  let ?s1 = "s\<lparr>heap := h, threads := (threads s)(t := (threads s t)\<lparr>thread_state := ST_READY\<rparr>)\<rparr>"
  let ?s = "?s1\<lparr>mutexes := (mutexes s)(?m := (mutexes s ?m)\<lparr>locked := if ws = [] then 0 else locked (mutexes s ?m)\<rparr>)\<rparr>"
  have e: "list_empty ?b h \<longleftrightarrow> ws = []" using shape_empty_iff [OF h(2) H(1)] by simp
  have f: "list_first ?b (heap s) = Some (ThreadList t)"
    using lq.first_law [OF kmid_shape [OF km] H(1)] assms(7) by simp
  have c2: "thread_at (sym s) (list_head_to_thread_struct (sym s) (ThreadList t)) = Some t"
    using kmid_layout [OF km] t by (intro thread_of_node) simp_all
  have same: "(mutexes s)(?m := (mutexes s ?m)\<lparr>locked := locked (mutexes s ?m)\<rparr>) = mutexes s" by simp
  have "sys_mutex_unlock n s = Some (0, ?s)"
    using h(1) e f c2 cur assms(3,5,6) same by (cases "ws = []") (simp_all add: sys_mutex_unlock_def Let_def)
  moreover have "kinv ?s ?Q M c cp" if own: "thread_p (threads s t) = Some cp"
  proof -
    have w: "waits s c cp t" using i own by (simp add: waits_def)
    obtain g where g: "update_thread_state_rr t (Some ?R) s = Some (s\<lparr>heap := g,
         threads := (threads s)(t := (threads s t)\<lparr>thread_state := ST_READY\<rparr>)\<rparr>)"
      "kmid (s\<lparr>heap := g, threads := (threads s)(t := (threads s t)\<lparr>thread_state := ST_READY\<rparr>)\<rparr>) ?Q M c"
      "proc_running (s\<lparr>heap := g, threads := (threads s)(t := (threads s t)\<lparr>thread_state := ST_READY\<rparr>)\<rparr>) ?Q M cp"
      by (rule wake_queued [OF km kinv_proc [OF assms(1)] cur2 _ H(1) assms(7) w]) simp_all
    have "queued (heads M) Q (ThreadList t)" by (rule queuedI [of ?b "heads M" _ Q, OF H(1) tb])
    then have "t \<noteq> c" using kinv_thread [OF assms(1)] by (auto simp: thread_running_def)
    moreover have "\<not> queued (heads M) ?Q (ThreadList c)"
      using kinv_thread [OF assms(1)] calculation assms(7)
      by (auto simp: thread_running_def queued_def split: if_splits)
    ultimately have "thread_running ?s ?Q M c cp"
      using kinv_thread [OF assms(1)] by (simp add: thread_running_def)
    moreover have "on_cpu ?s c cp" using kinv_cpu [OF assms(1)] by (simp add: on_cpu_def)
    moreover have "kmid ?s ?Q M c" "proc_running ?s ?Q M cp"
      using g(2,3) g(1) h(1) kmid_cong [of ?s ?s1 ?Q M c] proc_running_cong [of ?s ?s1] by simp_all
    ultimately show ?thesis by (simp add: kinv_def)
  qed
  ultimately show thesis using h(2) by (intro that [of ?s h]) simp_all
qed

section \<open>Destroying\<close>

text \<open>The first waiter's node, unlinked and then deleted again with null pointers.\<close>

lemma first_waiter:
  assumes "kmid s Q M c" and "m \<in> M" and "Q (MutexBlocked m) = ThreadList t # ws" and "waits s c i t"
  obtains h where "list_del (ThreadList t) (heap s) = Some h" and "h (ThreadList t) = null_node"
    and "wake_all m s = update_thread_state_rr t (Some (ReadyThreads i)) (s\<lparr>heap := h\<rparr>) \<bind> wake_all m"
proof -
  let ?b = "MutexBlocked m"
  have H: "?b \<in> heads M" using assms(2) by simp
  have q: "ThreadList t \<in> set (Q ?b)" using assms(3) by simp
  obtain h where h: "list_del (ThreadList t) (heap s) = Some h" "h (ThreadList t) = null_node"
    by (rule list_del_twice [OF kmid_shape [OF assms(1)] H q])
  have first: "list_first ?b (heap s) = Some (ThreadList t)"
    using lq.first_law [OF kmid_shape [OF assms(1)] H] assms(3) by simp
  have ne: "\<not> list_empty ?b (heap s)" using shape_empty_iff [OF kmid_shape [OF assms(1)] H] assms(3) by simp
  have t: "thread_at (sym s) (list_head_to_thread_struct (sym s) (ThreadList t)) = Some t"
    using kmid_layout [OF assms(1)] assms(4) by (intro thread_of_node) (simp_all add: waits_def)
  have "wake_all m s = update_thread_state_rr t (Some (ReadyThreads i)) (s\<lparr>heap := h\<rparr>) \<bind> wake_all m"
    using first ne t assms(4) k_list_eqs(1) [OF h(1)] by (subst wake_all.simps) (simp add: waits_def)
  with h show thesis by (rule that)
qed

lemma wake_all_faults:
  assumes "kmid s Q M c" and "m \<in> M" and "Q (MutexBlocked m) \<noteq> []" and "\<not> null_mapped s"
  shows "wake_all m s = None"
proof -
  obtain x ws where x: "Q (MutexBlocked m) = x # ws" using assms(3) by (cases "Q (MutexBlocked m)") auto
  have "member_ok s Q c (MutexBlocked m) x" using x assms(2) by (intro kmid_member [OF assms(1)]) simp_all
  then obtain t i where t: "x = ThreadList t" "waits s c i t" by (cases x) auto
  have q: "Q (MutexBlocked m) = ThreadList t # ws" using x t by simp
  obtain h where h: "h (ThreadList t) = null_node"
    "wake_all m s = update_thread_state_rr t (Some (ReadyThreads i)) (s\<lparr>heap := h\<rparr>) \<bind> wake_all m"
    by (rule first_waiter [OF assms(1,2) q t(2)])
  have "k_list_del (ThreadList t) (s\<lparr>heap := h\<rparr>) = None"
    using assms(4) h(1) by (intro null_faults) (simp_all add: null_node_def)
  then show ?thesis using h(2) t(2) by (simp add: update_thread_state_rr_def waits_def)
qed

text \<open>Where page 0 is present the second deletion is harmless, and the waiter becomes ready.\<close>

lemma wake_destroyed:
  assumes "kmid s Q M c" and "proc_running s Q M p" and "current_p s = Some p" and "m \<in> M"
    and "Q (MutexBlocked m) = ThreadList t # ws" and "waits s c p t" and "null_mapped s"
  obtains r h where "wake_all m s =
      wake_all m (s\<lparr>ram := r, heap := h, threads := (threads s)(t := (threads s t)\<lparr>thread_state := ST_READY\<rparr>)\<rparr>)"
    and "kmid (s\<lparr>ram := r, heap := h, threads := (threads s)(t := (threads s t)\<lparr>thread_state := ST_READY\<rparr>)\<rparr>)
      (Q(MutexBlocked m := ws, ReadyThreads p := Q (ReadyThreads p) @ [ThreadList t])) M c"
    and "proc_running (s\<lparr>ram := r, heap := h, threads := (threads s)(t := (threads s t)\<lparr>thread_state := ST_READY\<rparr>)\<rparr>)
      (Q(MutexBlocked m := ws, ReadyThreads p := Q (ReadyThreads p) @ [ThreadList t])) M p"
proof -
  let ?b = "MutexBlocked m" and ?n = "ThreadList t" and ?R = "ReadyThreads p"
  let ?T = "(threads s)(t := (threads s t)\<lparr>thread_state := ST_READY\<rparr>)"
  let ?Q = "Q(?b := ws, ?R := Q ?R @ [?n])"
  have p: "p < 10" and H: "?b \<in> heads M" "?R \<in> heads M" using assms(2,4) by (simp_all add: proc_running_def)
  have q: "?n \<in> set (Q ?b)" using assms(5) by simp
  obtain h1 where h1: "list_del ?n (heap s) = Some h1" "h1 ?n = null_node"
    "wake_all m s = update_thread_state_rr t (Some ?R) (s\<lparr>heap := h1\<rparr>) \<bind> wake_all m"
    by (rule first_waiter [OF assms(1,4-6)])
  obtain h2 where h2: "list_add_tail ?n ?R h1 = Some h2"
    using lq.move [OF kmid_shape [OF assms(1)] H q] h1(1) by auto
  obtain h where h: "update_thread_state_rr t (Some ?R) s = Some (s\<lparr>heap := h, threads := ?T\<rparr>)"
    "kmid (s\<lparr>heap := h, threads := ?T\<rparr>) ?Q M c" "proc_running (s\<lparr>heap := h, threads := ?T\<rparr>) ?Q M p"
    by (rule wake_queued [OF assms(1-3) disjI2 H(1) assms(5,6)]) blast
  have st: "thread_state (threads s t) \<noteq> ST_RUN" using assms(6) by (simp add: waits_def)
  have cp: "current_p (s\<lparr>heap := h2, ram := r\<rparr>) = Some p" for r using assms(3) current_frame(2) [of "s\<lparr>heap := h2, ram := r\<rparr>" s] by simp
  have cp': "current_p (s\<lparr>heap := h2\<rparr>) = Some p" using cp [of "ram s"] by simp
  have "h2 = h"
    using h(1) st cp' k_list_eqs(1) [OF h1(1)] k_list_eqs(2) [of ?n ?R "s\<lparr>heap := h1\<rparr>" h2] h2
    by (auto simp: update_thread_state_rr_def dest: arg_cong [where f = heap])
  obtain r where r: "k_list_del ?n (s\<lparr>heap := h1\<rparr>) = Some (s\<lparr>heap := h1, ram := r\<rparr>)"
    by (rule null_del [of "s\<lparr>heap := h1\<rparr>" ?n]) (use assms(7) h1(2) in simp_all)
  have "k_list_add_tail ?n ?R (s\<lparr>heap := h1, ram := r\<rparr>) = Some (s\<lparr>heap := h2, ram := r\<rparr>)"
    using k_list_eqs(2) [of ?n ?R "s\<lparr>heap := h1, ram := r\<rparr>" h2] h2 by simp
  then have "update_thread_state_rr t (Some ?R) (s\<lparr>heap := h1\<rparr>) = Some (s\<lparr>ram := r, heap := h, threads := ?T\<rparr>)"
    using st r cp [of r] \<open>h2 = h\<close> by (simp add: update_thread_state_rr_def)
  then have "wake_all m s = wake_all m (s\<lparr>ram := r, heap := h, threads := ?T\<rparr>)" using h1(3) by simp
  moreover have "kmid (s\<lparr>ram := r, heap := h, threads := ?T\<rparr>) ?Q M c"
    using h(2) kmid_cong [of "s\<lparr>ram := r, heap := h, threads := ?T\<rparr>" "s\<lparr>heap := h, threads := ?T\<rparr>"] by simp
  moreover have "proc_running (s\<lparr>ram := r, heap := h, threads := ?T\<rparr>) ?Q M p"
    using h(3) proc_running_cong [of "s\<lparr>ram := r, heap := h, threads := ?T\<rparr>" "s\<lparr>heap := h, threads := ?T\<rparr>"] by simp
  ultimately show thesis by (rule that)
qed

definition readied :: "nat set \<Rightarrow> (nat \<Rightarrow> thread_struct) \<Rightarrow> nat \<Rightarrow> thread_struct" where
  "readied A ths x = (if x \<in> A then (ths x)\<lparr>thread_state := ST_READY\<rparr> else ths x)"

lemma wake_all_wakes:
  assumes "kmid s Q M c" and "proc_running s Q M p" and "current_p s = Some p" and "m \<in> M"
    and "Q (MutexBlocked m) = map ThreadList ts" and "\<And>t. t \<in> set ts \<Longrightarrow> waits s c p t" and "null_mapped s"
  shows "\<exists>r h. wake_all m s = Some (s\<lparr>ram := r, heap := h, threads := readied (set ts) (threads s)\<rparr>)
    \<and> kmid (s\<lparr>ram := r, heap := h, threads := readied (set ts) (threads s)\<rparr>)
        (Q(MutexBlocked m := [], ReadyThreads p := Q (ReadyThreads p) @ map ThreadList ts)) M c
    \<and> proc_running (s\<lparr>ram := r, heap := h, threads := readied (set ts) (threads s)\<rparr>)
        (Q(MutexBlocked m := [], ReadyThreads p := Q (ReadyThreads p) @ map ThreadList ts)) M p"
  using assms
proof (induction ts arbitrary: s Q)
  case Nil
  have "wake_all m s = Some s"
    using shape_empty_iff [OF kmid_shape [OF Nil.prems(1)], of "MutexBlocked m"] Nil.prems(4,5) by (simp add: wake_all.simps [of m s])
  moreover have q: "Q(MutexBlocked m := [], ReadyThreads p := Q (ReadyThreads p) @ map ThreadList []) = Q"
    using Nil.prems(5) by (simp add: fun_eq_iff)
  have r: "readied (set []) (threads s) = threads s" by (simp add: readied_def fun_eq_iff)
  ultimately show ?case unfolding q r using Nil.prems(1,2) by (intro exI [of _ "ram s"] exI [of _ "heap s"]) simp
next
  case (Cons t ts)
  let ?T = "(threads s)(t := (threads s t)\<lparr>thread_state := ST_READY\<rparr>)"
  let ?Q = "Q(MutexBlocked m := map ThreadList ts, ReadyThreads p := Q (ReadyThreads p) @ [ThreadList t])"
  have q: "Q (MutexBlocked m) = ThreadList t # map ThreadList ts" and w: "waits s c p t" using Cons.prems(5,6) by simp_all
  obtain r h where 1: "wake_all m s = wake_all m (s\<lparr>ram := r, heap := h, threads := ?T\<rparr>)"
    "kmid (s\<lparr>ram := r, heap := h, threads := ?T\<rparr>) ?Q M c" "proc_running (s\<lparr>ram := r, heap := h, threads := ?T\<rparr>) ?Q M p"
    by (rule wake_destroyed [OF Cons.prems(1-4) q w Cons.prems(7)])
  let ?s = "s\<lparr>ram := r, heap := h, threads := ?T\<rparr>"
  have cp: "current_p ?s = Some p" using Cons.prems(3) current_frame(2) [of ?s s] by simp
  have w': "waits ?s c p u" if "u \<in> set ts" for u using Cons.prems(6) [of u] that by (auto simp: waits_def)
  have "?Q (MutexBlocked m) = map ThreadList ts" "null_mapped ?s" using Cons.prems(7) by simp_all
  from Cons.IH [OF 1(2,3) cp Cons.prems(4) this(1) w' this(2)] obtain r' h' where
    2: "wake_all m ?s = Some (?s\<lparr>ram := r', heap := h', threads := readied (set ts) (threads ?s)\<rparr>)"
    "kmid (?s\<lparr>ram := r', heap := h', threads := readied (set ts) (threads ?s)\<rparr>)
        (?Q(MutexBlocked m := [], ReadyThreads p := ?Q (ReadyThreads p) @ map ThreadList ts)) M c"
    "proc_running (?s\<lparr>ram := r', heap := h', threads := readied (set ts) (threads ?s)\<rparr>)
        (?Q(MutexBlocked m := [], ReadyThreads p := ?Q (ReadyThreads p) @ map ThreadList ts)) M p" by blast
  have "?Q(MutexBlocked m := [], ReadyThreads p := ?Q (ReadyThreads p) @ map ThreadList ts) =
      Q(MutexBlocked m := [], ReadyThreads p := Q (ReadyThreads p) @ map ThreadList (t # ts))" by (simp add: fun_eq_iff)
  moreover have "?s\<lparr>ram := r', heap := h', threads := readied (set ts) (threads ?s)\<rparr> =
      s\<lparr>ram := r', heap := h', threads := readied (set (t # ts)) (threads s)\<rparr>" by (simp add: readied_def fun_eq_iff)
  ultimately show ?case using 1(1) 2 by (intro exI [of _ r'] exI [of _ h']) (simp only:)
qed

lemma sys_mutex_destroy_eq:
  assumes "kinv s Q M c cp" and "in_kernel s c" and "\<not> bad_mutex n"
    and "0 < sint (owner (mutexes s (unat n)))" and "TID (threads s c) = owner (mutexes s (unat n))"
  shows "sys_mutex_destroy n s = wake_all (unat n) s \<bind>
    (\<lambda>s1. Some (0, s1\<lparr>mutexes := (mutexes s1)(unat n := \<lparr>locked = 0, owner = 0\<rparr>)\<rparr>))"
proof -
  have rec: "x\<lparr>locked := 0, owner := 0\<rparr> = \<lparr>locked = 0, owner = 0\<rparr>" for x :: mutex_t by simp
  show ?thesis using kinv_current [OF assms(1,2)] assms(3-5) by (simp add: sys_mutex_destroy_def Let_def rec not_le)
qed

lemma sys_mutex_destroy_wakes:
  assumes "kinv s Q M c cp" and "in_kernel s c" and "\<not> bad_mutex n" and "unat n \<in> M"
    and "0 < sint (owner (mutexes s (unat n)))" and "TID (threads s c) = owner (mutexes s (unat n))"
    and "null_mapped s" and "\<And>t. ThreadList t \<in> set (Q (MutexBlocked (unat n))) \<Longrightarrow> thread_p (threads s t) = Some cp"
  obtains s' where "sys_mutex_destroy n s = Some (0, s')" and "mutexes s' (unat n) = \<lparr>locked = 0, owner = 0\<rparr>"
    and "kinv s' (Q(MutexBlocked (unat n) := [], ReadyThreads cp := Q (ReadyThreads cp) @ Q (MutexBlocked (unat n)))) M c cp"
    and "pagusr_table s' = pagusr_table s" and "phys_mem s' = phys_mem s"
proof -
  let ?m = "unat n" and ?b = "MutexBlocked (unat n)"
  note km = kinv_kmid [OF assms(1)] and cur = kinv_current [OF assms(1,2)]
  have "\<exists>t. x = ThreadList t \<and> waits s c cp t" if "x \<in> set (Q ?b)" for x
    using kmid_member [OF km, of ?b x] assms(4,8) that by (cases x) (auto simp: waits_def)
  moreover have "\<exists>ts. xs = map ThreadList ts \<and> (\<forall>t \<in> set ts. waits s c cp t)"
    if "\<forall>x \<in> set xs. \<exists>t. x = ThreadList t \<and> waits s c cp t" for xs
    using that
  proof (induction xs)
    case (Cons x xs)
    then obtain t ts where "x = ThreadList t" "waits s c cp t" "xs = map ThreadList ts" "\<forall>t \<in> set ts. waits s c cp t" by auto
    then show ?case by (intro exI [of _ "t # ts"]) simp
  qed simp
  ultimately have "\<exists>ts. Q ?b = map ThreadList ts \<and> (\<forall>t \<in> set ts. waits s c cp t)" by blast
  then obtain ts where ts: "Q ?b = map ThreadList ts" "\<And>t. t \<in> set ts \<Longrightarrow> waits s c cp t" by blast
  let ?Q = "Q(?b := [], ReadyThreads cp := Q (ReadyThreads cp) @ map ThreadList ts)"
  obtain r h where w: "wake_all ?m s = Some (s\<lparr>ram := r, heap := h, threads := readied (set ts) (threads s)\<rparr>)"
    "kmid (s\<lparr>ram := r, heap := h, threads := readied (set ts) (threads s)\<rparr>) ?Q M c"
    "proc_running (s\<lparr>ram := r, heap := h, threads := readied (set ts) (threads s)\<rparr>) ?Q M cp"
    using wake_all_wakes [OF km kinv_proc [OF assms(1)] conjunct2 [OF cur] assms(4) ts assms(7)] by blast
  let ?s1 = "s\<lparr>ram := r, heap := h, threads := readied (set ts) (threads s)\<rparr>"
  let ?s = "?s1\<lparr>mutexes := (mutexes s)(?m := \<lparr>locked = 0, owner = 0\<rparr>)\<rparr>"
  have run: "thread_running s Q M c cp" by (rule kinv_thread [OF assms(1)])
  have "queued (heads M) Q (ThreadList t)" if "t \<in> set ts" for t
    using that ts(1) assms(4) by (intro queuedI [of ?b]) simp_all
  then have "c \<notin> set ts" using run by (auto simp: thread_running_def)
  moreover have "\<not> queued (heads M) ?Q (ThreadList c)"
    using run calculation ts(1) by (auto simp: thread_running_def queued_def split: if_splits)
  ultimately have "thread_running ?s1 ?Q M c cp" using run by (simp add: thread_running_def readied_def)
  moreover have "on_cpu ?s1 c cp" using kinv_cpu [OF assms(1)] by (simp add: on_cpu_def)
  ultimately have "kinv ?s1 ?Q M c cp" using w(2,3) by (simp add: kinv_def)
  then have "kinv ?s ?Q M c cp" by (simp only: kinv_mutexes)
  moreover have "sys_mutex_destroy n s = Some (0, ?s)" using sys_mutex_destroy_eq [OF assms(1-3,5,6)] w(1) by simp
  ultimately show thesis using ts(1) by (intro that [of ?s]) simp_all
qed

lemma sys_mutex_destroy_step:
  assumes "kinv s Q M c cp" and "in_kernel s c" and "\<not> bad_mutex n" and "unat n \<in> M"
    and "0 < sint (owner (mutexes s (unat n)))" and "TID (threads s c) = owner (mutexes s (unat n))"
    and "Q (MutexBlocked (unat n)) = []"
  shows "sys_mutex_destroy n s = Some (0, s\<lparr>mutexes := (mutexes s)(unat n := \<lparr>locked = 0, owner = 0\<rparr>)\<rparr>)"
proof -
  have "wake_all (unat n) s = Some s"
    using shape_empty_iff [OF kmid_shape [OF kinv_kmid [OF assms(1)]], of "MutexBlocked (unat n)"] assms(4,7)
    by (simp add: wake_all.simps [of "unat n" s])
  then show ?thesis using sys_mutex_destroy_eq [OF assms(1-3,5,6)] by simp
qed

section \<open>No other thread ready\<close>

text \<open>\<open>sched_next_thread_rr\<close> takes the head of an empty list for the node of a thread.\<close>

lemma sched_next_thread_empty:
  assumes "kmid s Q M c" and "current_p s = Some p" and "p < 10" and "Q (ReadyThreads p) = []"
  shows "sched_next_thread_rr s = None"
proof -
  have "list_first (ReadyThreads p) (heap s) = Some (ReadyThreads p)"
    using shape_first_empty [OF kmid_shape [OF assms(1)], of "ReadyThreads p"] assms(3,4) by simp
  with assms(2,3) thread_of_ready_head [OF kmid_layout [OF assms(1)], of p] show ?thesis
    by (simp add: sched_next_thread_rr_def)
qed

section \<open>Scenarios\<close>

lemma first_thread_id: "TID (threads entered 1) = 1" "mutexes entered = (\<lambda>_. \<lparr>locked = 0, owner = 0\<rparr>)"
  using booted_facts [of "TID (threads booted 1) = 1 \<and> mutexes booted = (\<lambda>_. \<lparr>locked = 0, owner = 0\<rparr>)"] by auto

lemma mutex_3: "\<not> bad_mutex 3" "unat (3 :: u32) = 3"
  by (simp_all add: bad_mutex_def)

text \<open>Thread 1 has made and locked mutex 3, thread 2 is ready.\<close>

lemma locked_mutex:
  obtains s where "kinv s (boot_queues(Free_threadqueue := map ThreadList [3..<10], ReadyThreads 1 := [ThreadList 2],
      MutexBlocked 3 := [])) {3} 1 1"
    and "in_kernel s 1" and "mutexes s 3 = \<lparr>locked = 1, owner = 1\<rparr>" and "TID (threads s 1) = 1" and "\<not> null_mapped s"
proof -
  obtain s0 where s0: "kinv s0 (boot_queues(Free_threadqueue := map ThreadList [3..<10], ReadyThreads 1 := [ThreadList 2])) {} 1 1"
    "in_kernel s0 1" "mutexes s0 = mutexes booted" "TID (threads s0 1) = TID (threads booted 1)" "\<not> null_mapped s0"
    by (rule second_thread)
  note id = first_thread_id [simplified entered_simps] mutex_3
  have own: "owner (mutexes s0 (unat (3 :: u32))) = 0" using s0(3) id by simp
  have fresh: "unat (3 :: u32) \<in> {} \<longrightarrow> (boot_queues(Free_threadqueue := map ThreadList [3..<10],
      ReadyThreads 1 := [ThreadList 2])) (MutexBlocked (unat (3 :: u32))) = []" by simp
  obtain s1 where s1: "s1 = s0\<lparr>mutexes := (mutexes s0)(unat (3 :: u32) := (mutexes s0 (unat (3 :: u32)))\<lparr>owner := TID (threads s0 1), locked := 0\<rparr>),
      heap := INIT_LIST_HEAD (MutexBlocked (unat (3 :: u32))) (heap s0)\<rparr>"
    "kinv s1 ((boot_queues(Free_threadqueue := map ThreadList [3..<10],
      ReadyThreads 1 := [ThreadList 2]))(MutexBlocked (unat (3 :: u32)) := [])) (insert (unat (3 :: u32)) {}) 1 1" "in_kernel s1 1"
    by (rule sys_mutex_init_step [OF s0(1,2) mutex_3(1) own fresh])
  show thesis
    by (rule that [of "s1\<lparr>mutexes := (mutexes s1)(3 := (mutexes s1 3)\<lparr>locked := 1\<rparr>)\<rparr>"])
      (use s1 s0(4,5) id in \<open>simp_all only: kinv_mutexes mutex_3(2)\<close>, simp_all)
qed

lemma null_mapped_entry: "null_mapped (kernel_entry j k s) = null_mapped s"
  by (simp add: null_mapped_def mmu_table_def kernel_entry_def get_PT_of_dir_def)

text \<open>Then thread 1 waits for it and thread 2 enters the kernel.\<close>

lemma mutex_waiter:
  obtains s where "kinv s (boot_queues(Free_threadqueue := map ThreadList [3..<10], ReadyThreads 1 := [],
      MutexBlocked 3 := [ThreadList 1])) {3} 2 1"
    and "in_kernel s 2" and "mutexes s 3 = \<lparr>locked = 1, owner = 1\<rparr>" and "TID (threads s 1) = 1" and "\<not> null_mapped s"
    and "thread_p (threads s 1) = Some 1"
proof -
  let ?Q = "boot_queues(Free_threadqueue := map ThreadList [3..<10], ReadyThreads 1 := [ThreadList 2], MutexBlocked 3 := [])"
  obtain s0 where s0: "kinv s0 ?Q {3} 1 1" "in_kernel s0 1" "mutexes s0 3 = \<lparr>locked = 1, owner = 1\<rparr>"
    "TID (threads s0 1) = 1" "\<not> null_mapped s0" by (rule locked_mutex)
  have r: "?Q (ReadyThreads 1) = ThreadList 2 # []" by simp
  have m: "unat (3 :: u32) \<in> {3}" "\<not> sint (owner (mutexes s0 (unat (3 :: u32)))) < 0"
    "locked (mutexes s0 (unat (3 :: u32))) \<noteq> 0" using s0(3) mutex_3(2) by simp_all
  obtain s1 where s1: "kinv s1 (?Q(MutexBlocked (unat (3 :: u32)) := ?Q (MutexBlocked (unat (3 :: u32))) @ [ThreadList 1],
      ReadyThreads 1 := [])) {3} 2 1" "same_rest s0 s1" "\<And>x. TID (threads s1 x) = TID (threads s0 x)"
    "\<And>x. thread_p (threads s1 x) = thread_p (threads s0 x)" by (rule sys_mutex_lock_wait [OF s0(1,2) mutex_3(1) m r]) (rule that)
  have q: "?Q(MutexBlocked (unat (3 :: u32)) := ?Q (MutexBlocked (unat (3 :: u32))) @ [ThreadList 1], ReadyThreads 1 := []) =
      boot_queues(Free_threadqueue := map ThreadList [3..<10], ReadyThreads 1 := [], MutexBlocked 3 := [ThreadList 1])"
    by (simp add: mutex_3 fun_upd_twist)
  have "in_kernel (kernel_entry 21 21 s1) 2 \<and> kinv (kernel_entry 21 21 s1) (?Q(MutexBlocked (unat (3 :: u32)) :=
      ?Q (MutexBlocked (unat (3 :: u32))) @ [ThreadList 1], ReadyThreads 1 := [])) {3} 2 1"
    by (rule kernel_entry_in_kernel [OF s1(1)]) (simp add: entry_depth_def)
  moreover have "mutexes (kernel_entry 21 21 s1) 3 = \<lparr>locked = 1, owner = 1\<rparr>"
    using s0(3) s1(2) by (simp add: same_rest_def kernel_entry_def)
  moreover have "TID (threads (kernel_entry 21 21 s1) 1) = 1" using s0(4) s1(3) by (simp add: kernel_entry_def)
  moreover have "thread_p (threads (kernel_entry 21 21 s1) 1) = Some 1"
    using kinv_thread [OF s0(1)] s1(4) by (simp add: kernel_entry_def thread_running_def)
  moreover have "\<not> null_mapped (kernel_entry 21 21 s1)"
    using s0(5) null_mapped_kinv [OF s0(1)] null_mapped_kinv [OF s1(1)] s1(2) by (simp add: same_rest_def null_mapped_entry)
  ultimately show thesis unfolding q by (intro that) simp_all
qed

text \<open>Thread 2 unlocks it, takes it and locks it again: it waits and thread 1, the owner, runs.\<close>

lemma owner_and_waiter:
  obtains s where "kinv s (boot_queues(Free_threadqueue := map ThreadList [3..<10], ReadyThreads 1 := [],
      MutexBlocked 3 := [ThreadList 2])) {3} 1 1"
    and "in_kernel s 1" and "mutexes s 3 = \<lparr>locked = 1, owner = 1\<rparr>" and "TID (threads s 1) = 1" and "\<not> null_mapped s"
proof -
  let ?n = "unat (3 :: u32)"
  let ?Q = "boot_queues(Free_threadqueue := map ThreadList [3..<10], ReadyThreads 1 := [], MutexBlocked 3 := [ThreadList 1])"
  obtain s where s: "kinv s ?Q {3} 2 1" "in_kernel s 2" "mutexes s 3 = \<lparr>locked = 1, owner = 1\<rparr>"
    "TID (threads s 1) = 1" "\<not> null_mapped s" "thread_p (threads s 1) = Some 1" by (rule mutex_waiter)
  have m: "?n \<in> {3}" "\<not> sint (owner (mutexes s ?n)) < 0" "locked (mutexes s ?n) \<noteq> 0" using s(3) mutex_3(2) by simp_all
  have q: "?Q (MutexBlocked ?n) = ThreadList 1 # []" by simp
  obtain s1 h where s1: "sys_mutex_unlock 3 s = Some (0, s1)"
    "s1 = s\<lparr>heap := h, threads := (threads s)(1 := (threads s 1)\<lparr>thread_state := ST_READY\<rparr>),
      mutexes := (mutexes s)(?n := (mutexes s ?n)\<lparr>locked := if ([] :: lnode list) = [] then 0 else locked (mutexes s ?n)\<rparr>)\<rparr>"
    "thread_p (threads s 1) = Some 1 \<longrightarrow>
      kinv s1 (?Q(MutexBlocked ?n := [], ReadyThreads 1 := ?Q (ReadyThreads 1) @ [ThreadList 1])) {3} 2 1"
    by (rule sys_mutex_unlock_step [OF s(1,2) mutex_3(1) m q])
  let ?Q1 = "?Q(MutexBlocked ?n := [], ReadyThreads 1 := ?Q (ReadyThreads 1) @ [ThreadList 1])"
  let ?s2 = "s1\<lparr>mutexes := (mutexes s1)(?n := (mutexes s1 ?n)\<lparr>locked := 1\<rparr>)\<rparr>"
  have k: "kinv ?s2 ?Q1 {3} 2 1" using s1(3) s(6) by (simp only: kinv_mutexes simp_thms)
  have i: "in_kernel ?s2 2" using s(2) in_kernel_cong [of ?s2 s 2] s1(2) by simp
  have r: "?Q1 (ReadyThreads 1) = ThreadList 1 # []" by simp
  have m2: "?n \<in> {3}" "\<not> sint (owner (mutexes ?s2 ?n)) < 0" "locked (mutexes ?s2 ?n) \<noteq> 0" using m s1(2) by simp_all
  obtain s3 where s3: "kinv s3 (?Q1(MutexBlocked ?n := ?Q1 (MutexBlocked ?n) @ [ThreadList 2], ReadyThreads 1 := [])) {3} 1 1"
    "same_rest ?s2 s3" "\<And>x. TID (threads s3 x) = TID (threads ?s2 x)"
    by (rule sys_mutex_lock_wait [OF k i mutex_3(1) m2 r]) (rule that)
  have q3: "?Q1(MutexBlocked ?n := ?Q1 (MutexBlocked ?n) @ [ThreadList 2], ReadyThreads 1 := []) =
      boot_queues(Free_threadqueue := map ThreadList [3..<10], ReadyThreads 1 := [], MutexBlocked 3 := [ThreadList 2])"
    by (simp add: mutex_3 fun_upd_twist)
  have "in_kernel (kernel_entry 21 21 s3) 1 \<and> kinv (kernel_entry 21 21 s3)
      (?Q1(MutexBlocked ?n := ?Q1 (MutexBlocked ?n) @ [ThreadList 2], ReadyThreads 1 := [])) {3} 1 1"
    by (rule kernel_entry_in_kernel [OF s3(1)]) (simp add: entry_depth_def)
  moreover have "mutexes (kernel_entry 21 21 s3) 3 = \<lparr>locked = 1, owner = 1\<rparr>"
    using s(3) s1(2) s3(2) by (simp add: same_rest_def kernel_entry_def mutex_3)
  moreover have "TID (threads (kernel_entry 21 21 s3) 1) = 1" using s(4) s1(2) s3(3) by (simp add: kernel_entry_def)
  moreover have "\<not> null_mapped (kernel_entry 21 21 s3)"
    using s(5) null_mapped_kinv [OF s(1)] null_mapped_kinv [OF s3(1)] s1(2) s3(2) by (simp add: same_rest_def null_mapped_entry)
  ultimately show thesis unfolding q3 by (intro that) simp_all
qed

section \<open>Correctness\<close>

text \<open>C29: The life of a mutex that nobody waits for: \<open>sys_mutex_init\<close> makes it, unlocked and owned by
  the caller, and gives it an empty waiting list; \<open>sys_mutex_lock\<close> takes it without blocking;
  \<open>sys_mutex_destroy\<close> by the owner brings back the owner 0 with which it may be made again.\<close>

theorem mutex_life:
  assumes "kinv s Q M c cp" and "in_kernel s c" and "\<not> bad_mutex n" and "owner (mutexes s (unat n)) = 0"
    and "unat n \<in> M \<longrightarrow> Q (MutexBlocked (unat n)) = []" and "0 < sint (TID (threads s c))"
  shows "\<exists>s1 s2 s3. sys_mutex_init n s = Some (0, s1) \<and> sys_mutex_lock n s1 = Some (0, s2)
    \<and> sys_mutex_destroy n s2 = Some (0, s3)
    \<and> mutexes s1 (unat n) = \<lparr>locked = 0, owner = TID (threads s c)\<rparr>
    \<and> mutexes s2 (unat n) = \<lparr>locked = 1, owner = TID (threads s c)\<rparr>
    \<and> mutexes s3 (unat n) = \<lparr>locked = 0, owner = 0\<rparr>
    \<and> sys_mutex_init n s1 = Some (- EBUSY, s1)
    \<and> kinv s3 (Q(MutexBlocked (unat n) := [])) (insert (unat n) M) c cp"
proof -
  let ?m = "unat n" and ?t = "TID (threads s c)"
  let ?Q = "Q(MutexBlocked ?m := [])" and ?M = "insert ?m M"
  obtain s1 where s1: "sys_mutex_init n s = Some (0, s1)"
    "s1 = s\<lparr>mutexes := (mutexes s)(?m := (mutexes s ?m)\<lparr>owner := ?t, locked := 0\<rparr>),
      heap := INIT_LIST_HEAD (MutexBlocked ?m) (heap s)\<rparr>" "kinv s1 ?Q ?M c cp" "in_kernel s1 c"
    by (rule sys_mutex_init_step [OF assms(1-5)])
  have rec: "mutexes s1 ?m = \<lparr>locked = 0, owner = ?t\<rparr>" using s1(2) by simp
  let ?s2 = "s1\<lparr>mutexes := (mutexes s1)(?m := (mutexes s1 ?m)\<lparr>locked := 1\<rparr>)\<rparr>"
  have 2: "sys_mutex_lock n s1 = Some (0, ?s2)"
    using assms(3,6) rec by (intro sys_mutex_lock_free) simp_all
  let ?s3 = "?s2\<lparr>mutexes := (mutexes ?s2)(?m := \<lparr>locked = 0, owner = 0\<rparr>)\<rparr>"
  have k2: "kinv ?s2 ?Q ?M c cp" "in_kernel ?s2 c" using s1(3,4) by (simp_all only: kinv_mutexes)
  have tid: "TID (threads ?s2 c) = ?t" using s1(2) by simp
  have 3: "sys_mutex_destroy n ?s2 = Some (0, ?s3)"
    by (rule sys_mutex_destroy_step [OF k2 assms(3)]) (use rec tid assms(6) in simp_all)
  have "?t \<noteq> 0" using assms(6) by auto
  then have "sys_mutex_init n s1 = Some (- EBUSY, s1)" using assms(3) rec by (simp add: sys_mutex_init_def)
  moreover have "kinv ?s3 ?Q ?M c cp" using k2(1) by (simp only: kinv_mutexes)
  ultimately show ?thesis using s1(1) 2 3 rec by (intro exI [of _ s1] exI [of _ ?s2] exI [of _ ?s3]) simp
qed

lemma mutex_life_witness:
  "\<exists>s1 s2 s3. sys_mutex_init 3 entered = Some (0, s1) \<and> sys_mutex_lock 3 s1 = Some (0, s2)
     \<and> sys_mutex_destroy 3 s2 = Some (0, s3)"
  using mutex_life [OF entered_kinv mutex_3(1)] first_thread_id by auto

text \<open>C23: \<open>sys_mutex_lock\<close> on a locked mutex blocks: the running thread becomes the last waiter of
  the mutex, marked blocked, and the first ready thread of its process runs; the lock stays taken.\<close>

theorem mutex_lock_blocks:
  assumes "kinv s Q M c cp" and "in_kernel s c" and "\<not> bad_mutex n" and "unat n \<in> M"
    and "\<not> sint (owner (mutexes s (unat n))) < 0" and "locked (mutexes s (unat n)) \<noteq> 0"
    and "Q (ReadyThreads cp) = ThreadList t # ts"
  shows "\<exists>s'. sys_mutex_lock n s = Some (0, s') \<and> mutexes s' = mutexes s
    \<and> thread_state (threads s' c) = ST_BLOCKED \<and> thread_state (threads s' t) = ST_RUN
    \<and> kinv s' (Q(MutexBlocked (unat n) := Q (MutexBlocked (unat n)) @ [ThreadList c], ReadyThreads cp := ts)) M t cp"
proof -
  obtain s' where s': "sys_mutex_lock n s = Some (0, s')"
    "kinv s' (Q(MutexBlocked (unat n) := Q (MutexBlocked (unat n)) @ [ThreadList c], ReadyThreads cp := ts)) M t cp"
    "same_rest s s'" "thread_state (threads s' c) = ST_BLOCKED" "thread_state (threads s' t) = ST_RUN"
    by (rule sys_mutex_lock_wait [OF assms])
  from s'(3) have "mutexes s' = mutexes s" by (simp add: same_rest_def)
  with s' show ?thesis by blast
qed

lemma mutex_lock_blocks_witness:
  "\<exists>s s' Q. mutexes s 3 = \<lparr>locked = 1, owner = 1\<rparr> \<and> sys_mutex_lock 3 s = Some (0, s') \<and> kinv s' Q {3} 2 1"
proof -
  let ?Q = "boot_queues(Free_threadqueue := map ThreadList [3..<10], ReadyThreads 1 := [ThreadList 2], MutexBlocked 3 := [])"
  obtain s where s: "kinv s ?Q {3} 1 1" "in_kernel s 1" "mutexes s 3 = \<lparr>locked = 1, owner = 1\<rparr>"
    by (rule locked_mutex)
  have r: "?Q (ReadyThreads 1) = ThreadList 2 # []" by simp
  have m: "unat (3 :: u32) \<in> {3}" "\<not> sint (owner (mutexes s (unat (3 :: u32)))) < 0"
    "locked (mutexes s (unat (3 :: u32))) \<noteq> 0" using s(3) mutex_3(2) by simp_all
  from mutex_lock_blocks [OF s(1,2) mutex_3(1) m r] s(3) show ?thesis by blast
qed

text \<open>C24: \<open>sys_mutex_unlock\<close> makes the first waiter ready, in the list of the process that calls it
  whichever process the waiter is of. While others wait the mutex stays locked, handed over. But
  when the waiter was the only one it is unlocked although that thread returns from its own
  \<open>sys_mutex_lock\<close>: the caller can lock it again at once, and two threads hold the mutex.\<close>

theorem mutex_unlock_hands_over:
  assumes "kinv s Q M c cp" and "in_kernel s c" and "\<not> bad_mutex n" and "unat n \<in> M"
    and "\<not> sint (owner (mutexes s (unat n))) < 0" and "locked (mutexes s (unat n)) \<noteq> 0"
    and "Q (MutexBlocked (unat n)) = ThreadList t # ws"
  shows "\<exists>s'. sys_mutex_unlock n s = Some (0, s') \<and> thread_state (threads s' t) = ST_READY
    \<and> thread_p (threads s' t) = thread_p (threads s t)
    \<and> shape (heap s') (heads M) (Q(MutexBlocked (unat n) := ws, ReadyThreads cp := Q (ReadyThreads cp) @ [ThreadList t]))
    \<and> (locked (mutexes s' (unat n)) = 0 \<longleftrightarrow> ws = [])
    \<and> (thread_p (threads s t) = Some cp \<longrightarrow>
        kinv s' (Q(MutexBlocked (unat n) := ws, ReadyThreads cp := Q (ReadyThreads cp) @ [ThreadList t])) M c cp)
    \<and> (ws = [] \<longrightarrow> (\<exists>s''. sys_mutex_lock n s' = Some (0, s'') \<and> threads s'' = threads s' \<and> heap s'' = heap s'))"
proof -
  obtain s' h where s': "sys_mutex_unlock n s = Some (0, s')"
    "s' = s\<lparr>heap := h, threads := (threads s)(t := (threads s t)\<lparr>thread_state := ST_READY\<rparr>),
      mutexes := (mutexes s)(unat n := (mutexes s (unat n))\<lparr>locked := if ws = [] then 0 else locked (mutexes s (unat n))\<rparr>)\<rparr>"
    "shape h (heads M) (Q(MutexBlocked (unat n) := ws, ReadyThreads cp := Q (ReadyThreads cp) @ [ThreadList t]))"
    "thread_p (threads s t) = Some cp \<longrightarrow>
      kinv s' (Q(MutexBlocked (unat n) := ws, ReadyThreads cp := Q (ReadyThreads cp) @ [ThreadList t])) M c cp"
    by (rule sys_mutex_unlock_step [OF assms])
  have "\<exists>s''. sys_mutex_lock n s' = Some (0, s'') \<and> threads s'' = threads s' \<and> heap s'' = heap s'" if "ws = []"
    using sys_mutex_lock_free [OF assms(3), of s'] that assms(5) s'(2) by simp
  moreover have "locked (mutexes s' (unat n)) = 0 \<longleftrightarrow> ws = []" using s'(2) assms(6) by simp
  moreover have "thread_state (threads s' t) = ST_READY" "thread_p (threads s' t) = thread_p (threads s t)"
    "heap s' = h" using s'(2) by simp_all
  ultimately show ?thesis using s'(1,3,4) by blast
qed

lemma mutex_unlock_hands_over_witness:
  "\<exists>s s'. mutexes s 3 = \<lparr>locked = 1, owner = 1\<rparr> \<and> sys_mutex_unlock 3 s = Some (0, s') \<and> locked (mutexes s' 3) = 0"
proof -
  let ?Q = "boot_queues(Free_threadqueue := map ThreadList [3..<10], ReadyThreads 1 := [], MutexBlocked 3 := [ThreadList 1])"
  obtain s where s: "kinv s ?Q {3} 2 1" "in_kernel s 2" "mutexes s 3 = \<lparr>locked = 1, owner = 1\<rparr>"
    by (rule mutex_waiter)
  have r: "?Q (MutexBlocked (unat (3 :: u32))) = ThreadList 1 # []" unfolding mutex_3(2) by simp
  have m: "unat (3 :: u32) \<in> {3}" "\<not> sint (owner (mutexes s (unat (3 :: u32)))) < 0"
    "locked (mutexes s (unat (3 :: u32))) \<noteq> 0" using s(3) mutex_3(2) by simp_all
  from mutex_unlock_hands_over [OF s(1,2) mutex_3(1) m r] obtain s' where
    "sys_mutex_unlock 3 s = Some (0, s')" "locked (mutexes s' (unat (3 :: u32))) = 0" by blast
  with s(3) mutex_3(2) show ?thesis by auto
qed

section \<open>Faults\<close>

text \<open>The list head of a mutex that was never initialised is null.\<close>

lemma unmade_head:
  assumes "kmid s Q M c" and "m \<notin> M" and "m < 20"
  shows "heap s (MutexBlocked m) = \<lparr>lh_next = None, lh_prev = None\<rparr>"
  using kmid_unmade [OF assms(1)] assms(2,3) by (simp add: unmade_mutexes_def)

lemma lock_unmade:
  assumes "kinv s Q M c cp" and "in_kernel s c" and "\<not> bad_mutex n" and "0 \<le> sint (owner (mutexes s (unat n)))"
    and "unat n \<notin> M" and "locked (mutexes s (unat n)) \<noteq> 0" and "\<not> null_mapped s"
  shows "sys_mutex_lock n s = None"
proof -
  let ?s = "s\<lparr>threads := (threads s)(c := (threads s c)\<lparr>thread_state := ST_BLOCKED\<rparr>)\<rparr>"
  have "lh_prev (heap ?s (MutexBlocked (unat n))) = None"
    using unmade_head [OF kinv_kmid [OF assms(1)] assms(5) good_mutex [OF assms(3)]] by simp
  then have "k_list_add_tail (ThreadList c) (MutexBlocked (unat n)) ?s = None"
    using assms(7) by (intro null_faults) simp_all
  then show ?thesis
    using assms(3,4,6) kinv_current [OF assms(1,2)] by (simp add: sys_mutex_lock_def Let_def)
qed

lemma lock_alone:
  assumes "kinv s Q M c cp" and "in_kernel s c" and "\<not> bad_mutex n" and "0 \<le> sint (owner (mutexes s (unat n)))"
    and "unat n \<in> M" and "Q (ReadyThreads cp) = []" and "locked (mutexes s (unat n)) \<noteq> 0"
  shows "sys_mutex_lock n s = None"
proof -
  let ?b = "MutexBlocked (unat n)"
  let ?Q = "Q(?b := Q ?b @ [ThreadList c])"
  have cp: "cp < 10" using kinv_proc [OF assms(1)] by (simp add: proc_running_def)
  note cur = kinv_current [OF assms(1,2)]
  obtain h where h: "k_list_add_tail (ThreadList c) ?b (upd_thread c (\<lambda>t. t\<lparr>thread_state := ST_BLOCKED\<rparr>) s) =
    Some (s\<lparr>threads := (threads s)(c := (threads s c)\<lparr>thread_state := ST_BLOCKED\<rparr>), heap := h\<rparr>)"
    "kmid (s\<lparr>threads := (threads s)(c := (threads s c)\<lparr>thread_state := ST_BLOCKED\<rparr>), heap := h\<rparr>) ?Q M c"
    by (rule wait_for_mutex [OF assms(1,5)])
  let ?s = "s\<lparr>threads := (threads s)(c := (threads s c)\<lparr>thread_state := ST_BLOCKED\<rparr>), heap := h\<rparr>"
  have cur2: "current_p ?s = Some cp" using current_frame(2) [of ?s s] cur by simp
  have "?Q (ReadyThreads cp) = []" using assms(6) by simp
  then have "sched_next_thread_rr ?s = None" by (rule sched_next_thread_empty [OF h(2) cur2 cp])
  then show ?thesis using assms(3,4,7) h(1) cur by (simp add: sys_mutex_lock_def Let_def)
qed

lemma unlock_without_waiters:
  assumes "kinv s Q M c cp" and "\<not> bad_mutex n" and "0 \<le> sint (owner (mutexes s (unat n)))"
    and "unat n \<in> M \<longrightarrow> Q (MutexBlocked (unat n)) = []" and "locked (mutexes s (unat n)) \<noteq> 0"
  shows "sys_mutex_unlock n s = None"
proof -
  let ?b = "MutexBlocked (unat n)"
  note km = kinv_kmid [OF assms(1)] and m = good_mutex [OF assms(2)]
  have "list_first ?b (heap s) = Some ?b \<or> list_first ?b (heap s) = None"
    using shape_first_empty [OF kmid_shape [OF km], of ?b] assms(4) unmade_head [OF km _ m]
    by (cases "unat n \<in> M") (simp_all add: list_first_def)
  then show ?thesis
    using assms(2,3,5) thread_of_mutex_head [OF kmid_layout [OF km], of "unat n"] m
    by (auto simp: sys_mutex_unlock_def Let_def)
qed

lemma destroy_unmade:
  assumes "kinv s Q M c cp" and "in_kernel s c" and "\<not> bad_mutex n" and "unat n \<notin> M"
    and "0 < sint (owner (mutexes s (unat n)))" and "TID (threads s c) = owner (mutexes s (unat n))"
  shows "sys_mutex_destroy n s = None"
proof -
  have "heap s (MutexBlocked (unat n)) = \<lparr>lh_next = None, lh_prev = None\<rparr>"
    by (rule unmade_head [OF kinv_kmid [OF assms(1)] assms(4) good_mutex [OF assms(3)]])
  then have "wake_all (unat n) s = None"
    by (simp add: wake_all.simps [of "unat n" s] list_empty_def list_first_def)
  then show ?thesis
    using kinv_current [OF assms(1,2)] assms(3,5,6) by (simp add: sys_mutex_destroy_def Let_def not_le)
qed

text \<open>C25: the null pointers of the mutex calls. \<open>sys_mutex_destroy\<close> unlinks each waiter twice, the
  second time through the null pointers the first one left, and \<open>sys_mutex_lock\<close> follows the null
  list head of a locked mutex that was never initialised. In a process whose page 0 is not
  present, as in the first one, both fault. In a forked child, whose page 0 is mapped, the second
  unlinking only writes there: the destroyed mutex is free again and all its waiters, if they are
  threads of the caller's process, become ready in their order.\<close>

theorem mutex_null_pointers:
  assumes "kinv s Q M c cp" and "in_kernel s c" and "\<not> bad_mutex n" and "0 \<le> sint (owner (mutexes s (unat n)))"
  shows "(unat n \<notin> M \<and> locked (mutexes s (unat n)) \<noteq> 0 \<and> \<not> null_mapped s \<longrightarrow> sys_mutex_lock n s = None)
    \<and> (unat n \<in> M \<and> owner (mutexes s (unat n)) \<noteq> 0 \<and> owner (mutexes s (unat n)) = TID (threads s c)
        \<and> Q (MutexBlocked (unat n)) \<noteq> [] \<longrightarrow>
      (\<not> null_mapped s \<longrightarrow> sys_mutex_destroy n s = None)
      \<and> (null_mapped s \<and> (\<forall>t. ThreadList t \<in> set (Q (MutexBlocked (unat n))) \<longrightarrow> thread_p (threads s t) = Some cp) \<longrightarrow>
          (\<exists>s'. sys_mutex_destroy n s = Some (0, s') \<and> mutexes s' (unat n) = \<lparr>locked = 0, owner = 0\<rparr>
            \<and> kinv s' (Q(MutexBlocked (unat n) := [],
                ReadyThreads cp := Q (ReadyThreads cp) @ Q (MutexBlocked (unat n)))) M c cp)))"
proof (intro conjI impI)
  assume "unat n \<notin> M \<and> locked (mutexes s (unat n)) \<noteq> 0 \<and> \<not> null_mapped s"
  then show "sys_mutex_lock n s = None" by (elim conjE) (rule lock_unmade [OF assms])
next
  let ?m = "unat n"
  assume a: "?m \<in> M \<and> owner (mutexes s ?m) \<noteq> 0 \<and> owner (mutexes s ?m) = TID (threads s c) \<and> Q (MutexBlocked ?m) \<noteq> []"
  have own: "0 < sint (owner (mutexes s ?m))" "TID (threads s c) = owner (mutexes s ?m)"
    using a assms(4) by (auto simp: order.order_iff_strict signed_eq_0_iff)
  show "sys_mutex_destroy n s = None" if "\<not> null_mapped s"
    using sys_mutex_destroy_eq [OF assms(1-3) own] wake_all_faults [OF kinv_kmid [OF assms(1)], of ?m] a that by simp
  show "\<exists>s'. sys_mutex_destroy n s = Some (0, s') \<and> mutexes s' ?m = \<lparr>locked = 0, owner = 0\<rparr>
      \<and> kinv s' (Q(MutexBlocked ?m := [], ReadyThreads cp := Q (ReadyThreads cp) @ Q (MutexBlocked ?m))) M c cp"
    if "null_mapped s \<and> (\<forall>t. ThreadList t \<in> set (Q (MutexBlocked ?m)) \<longrightarrow> thread_p (threads s t) = Some cp)"
    using sys_mutex_destroy_wakes [OF assms(1-3) _ own] a that by blast
qed

lemma mutex_null_pointers_witness:
  "(\<exists>s. sys_mutex_lock 3 entered = Some (0, s) \<and> sys_mutex_lock 3 s = None)
   \<and> (\<exists>s. mutexes s 3 = \<lparr>locked = 1, owner = 1\<rparr> \<and> TID (threads s 1) = 1 \<and> current_t s = Some 1 \<and> sys_mutex_destroy 3 s = None)"
proof -
  let ?s = "entered\<lparr>mutexes := (mutexes entered)(unat (3 :: u32) := (mutexes entered (unat (3 :: u32)))\<lparr>locked := 1\<rparr>)\<rparr>"
  have k: "kinv ?s boot_queues {} 1 1" "in_kernel ?s 1" using entered_kinv by (simp_all only: kinv_mutexes)
  have "sys_mutex_lock 3 entered = Some (0, ?s)"
    by (rule sys_mutex_lock_free [OF mutex_3(1)]) (use first_thread_id in simp_all)
  moreover have "sys_mutex_lock 3 ?s = None"
    using mutex_null_pointers [OF k mutex_3(1)] entered_null first_thread_id mutex_3(2) by simp
  moreover obtain s where s: "kinv s (boot_queues(Free_threadqueue := map ThreadList [3..<10], ReadyThreads 1 := [],
      MutexBlocked 3 := [ThreadList 2])) {3} 1 1" "in_kernel s 1" "mutexes s 3 = \<lparr>locked = 1, owner = 1\<rparr>"
    "TID (threads s 1) = 1" "\<not> null_mapped s" by (rule owner_and_waiter)
  moreover have "sys_mutex_destroy 3 s = None"
    using mutex_null_pointers [OF s(1,2) mutex_3(1)] s(3-5) mutex_3(2) by simp
  ultimately show ?thesis by (auto simp: in_kernel_def)
qed

end
