(* ===== verification/WriteProofs.thy ===== *)
theory WriteProofs
  imports Scenario
begin

text \<open>
  \<open>sys_write\<close>: the chunk loop is proved for any device that takes all it is given, and the
  console of \<open>io.c\<close> is one; the system calls that refuse their arguments.
\<close>

section \<open>What \<open>sys_write\<close> needs of the console\<close>

text \<open>
  The device takes all the bytes offered and appends them to its output \<open>out\<close>; \<open>ok\<close> is an
  invariant of its state.
\<close>

locale output_device =
  fixes wr :: "(nat \<Rightarrow> u8) \<Rightarrow> int \<Rightarrow> 'c \<Rightarrow> int \<times> 'c"
    and out :: "'c \<Rightarrow> u8 list" and ok :: "'c \<Rightarrow> bool"
  assumes takes_all: "fst (wr b n c) = n"
    and appends: "out (snd (wr b n c)) = out c @ map b [0..<nat n]"
    and keeps: "ok c \<Longrightarrow> ok (snd (wr b n c))"
begin

text \<open>\<open>rd\<close> delivers the bytes \<open>bs\<close> of the user's buffer at \<open>a\<close>.\<close>

definition delivers :: "(u32 \<Rightarrow> int \<Rightarrow> (nat \<Rightarrow> u8) option) \<Rightarrow> u32 \<Rightarrow> u8 list \<Rightarrow> bool" where
  "delivers rd a bs \<longleftrightarrow> (\<forall>k m. k + m \<le> length bs \<longrightarrow>
     (\<exists>b. rd (a + of_nat k) (int m) = Some b \<and> map b [0..<m] = take m (drop k bs)))"

lemma one_chunk:
  assumes "delivers rd a bs" and "k + m \<le> length bs"
  obtains b c' where "rd (a + of_nat k) (int m) = Some b" and "wr b (int m) c = (int m, c')"
    and "out c' = out c @ take m (drop k bs)" and "ok c \<longrightarrow> ok c'"
proof -
  obtain b where b: "rd (a + of_nat k) (int m) = Some b" "map b [0..<m] = take m (drop k bs)"
    using assms by (auto simp: delivers_def)
  have "wr b (int m) c = (int m, snd (wr b (int m) c))"
    using takes_all [of b "int m" c] by (metis prod.collapse)
  moreover have "out (snd (wr b (int m) c)) = out c @ take m (drop k bs)" using appends b(2) by simp
  ultimately show thesis using b(1) keeps by (intro that [of b "snd (wr b (int m) c)"]) auto
qed

text \<open>The loop leaves at most one buffer of bytes and ends.\<close>

lemma chunks_end:
  assumes "delivers rd a bs" and "k \<le> length bs"
  shows "\<exists>k' c'. write_chunks wr rd (a + of_nat k) (int (length bs - k)) c =
      Some (a + of_nat k', int (length bs - k'), c')
    \<and> k \<le> k' \<and> k' \<le> length bs \<and> length bs - k' \<le> 512 \<and> out c' = out c @ take (k' - k) (drop k bs) \<and> (ok c \<longrightarrow> ok c')"
  using assms(2)
proof (induction "length bs - k" arbitrary: k c rule: less_induct)
  case less
  show ?case
  proof (cases "length bs - k > 512")
    case False
    then have "write_chunks wr rd (a + of_nat k) (int (length bs - k)) c =
        Some (a + of_nat k, int (length bs - k), c)" by (simp add: write_chunks.simps [of wr rd])
    with False less.prems show ?thesis by (intro exI [of _ k] exI [of _ c]) simp
  next
    case True
    have k: "k + 512 \<le> length bs" "length bs - (k + 512) < length bs - k" using True by simp_all
    obtain b c1 where b: "rd (a + of_nat k) (int 512) = Some b" "wr b (int 512) c = (int 512, c1)"
      "out c1 = out c @ take 512 (drop k bs)" "ok c \<longrightarrow> ok c1"
      by (rule one_chunk [OF assms(1) k(1)])
    from less.hyps [OF k(2,1), of c1] obtain k' c' where
      IH: "write_chunks wr rd (a + of_nat (k + 512)) (int (length bs - (k + 512))) c1 =
        Some (a + of_nat k', int (length bs - k'), c')"
      "k + 512 \<le> k'" "k' \<le> length bs" "length bs - k' \<le> 512"
      "out c' = out c1 @ take (k' - (k + 512)) (drop (k + 512) bs)" "ok c1 \<longrightarrow> ok c'" by blast
    have "take (512 + (k' - (k + 512))) (drop k bs) =
        take 512 (drop k bs) @ take (k' - (k + 512)) (drop 512 (drop k bs))" by (rule take_add)
    then have "out c' = out c @ take (k' - k) (drop k bs)"
      using IH(2,5) b(3) by (simp add: add.commute)
    moreover have "int k + 512 < int (length bs)" using True by simp
    then have "write_chunks wr rd (a + of_nat k) (int (length bs - k)) c =
        write_chunks wr rd (a + of_nat (k + 512)) (int (length bs - (k + 512))) c1"
      using True b(1,2) k(1) by (simp add: write_chunks.simps [of wr rd "a + of_nat k"] of_nat_diff algebra_simps)
    ultimately show ?thesis using IH b(4) by (intro exI [of _ k'] exI [of _ c']) auto
  qed
qed

lemma write_loop_prints:
  assumes "delivers rd a bs"
  obtains c' where "write_loop wr rd a (int (length bs)) c = Some (int (length bs), c')"
    and "out c' = out c @ bs" and "ok c \<longrightarrow> ok c'"
proof -
  obtain k c1 where k: "write_chunks wr rd a (int (length bs)) c = Some (a + of_nat k, int (length bs - k), c1)"
    "k \<le> length bs" "out c1 = out c @ take k bs" "ok c \<longrightarrow> ok c1"
    using chunks_end [OF assms, of 0 c] by auto
  show thesis
  proof (cases "k = length bs")
    case True
    with k show thesis by (intro that [of c1]) (simp_all add: write_loop_def)
  next
    case False
    with k(2) have le: "k + (length bs - k) \<le> length bs" "int (length bs - k) > 0" by simp_all
    obtain b c' where b: "rd (a + of_nat k) (int (length bs - k)) = Some b"
      "wr b (int (length bs - k)) c1 = (int (length bs - k), c')"
      "out c' = out c1 @ take (length bs - k) (drop k bs)" "ok c1 \<longrightarrow> ok c'"
      by (rule one_chunk [OF assms le(1)])
    have "out c' = out c @ bs" using b(3) k(3) by simp
    moreover have "write_loop wr rd a (int (length bs)) c = Some (int (length bs), c')"
      using k(1) b(1,2) le(2) by (simp add: write_loop_def)
    ultimately show thesis using k(4) b(4) by (intro that [of c']) auto
  qed
qed

end

interpretation console: output_device sys_write_console port_e9 on_screen
proof unfold_locales
  fix b :: "nat \<Rightarrow> u8" and n :: int and c :: console
  show "fst (sys_write_console b n c) = n" by (simp add: sys_write_console_def)
  show "port_e9 (snd (sys_write_console b n c)) = port_e9 c @ map b [0..<nat n]"
    "on_screen c \<Longrightarrow> on_screen (snd (sys_write_console b n c))"
    using write_console_port [OF refl, of b n c] by simp_all
qed

section \<open>Correctness\<close>

text \<open>The bytes of a user buffer.\<close>

definition user_bytes :: "page_table \<Rightarrow> frames \<Rightarrow> u32 \<Rightarrow> nat \<Rightarrow> u8 list" where
  "user_bytes PT m a n = map (\<lambda>i. the (vread PT m (a + of_nat i))) [0..<n]"

lemma user_buffer_delivers:
  assumes "\<And>i. i < n \<Longrightarrow> kaddr PT (a + of_nat i) \<noteq> None"
  shows "console.delivers (vread_buffer PT m) a (user_bytes PT m a n)"
  unfolding console.delivers_def
proof (intro allI impI)
  fix k l assume le: "k + l \<le> length (user_bytes PT m a n)"
  then have n: "k + l \<le> n" by (simp add: user_bytes_def)
  have "kaddr PT (a + of_nat k + of_nat i) \<noteq> None" if "i < l" for i
    using assms [of "k + i"] n that by (simp add: add.assoc)
  moreover have "map (\<lambda>i. if i < l then the (vread PT m (a + of_nat k + of_nat i)) else 0) [0..<l] =
      take l (drop k (user_bytes PT m a n))"
    using n by (intro nth_equalityI) (simp_all add: user_bytes_def add.assoc)
  ultimately show "\<exists>b. vread_buffer PT m (a + of_nat k) (int l) = Some b \<and>
      map b [0..<l] = take l (drop k (user_bytes PT m a n))"
    by (simp add: vread_buffer_def)
qed

lemma console_write:
  assumes "mmu_table s = Some PT" and "access_ok VERIFY_READ buffer n" and "0 \<le> sint n"
    and "\<And>i. i < unat n \<Longrightarrow> kaddr PT (buffer + of_nat i) \<noteq> None"
  shows "\<exists>con1. sys_write 1 buffer n s = Some (n, s\<lparr>con := con1\<rparr>)
    \<and> port_e9 con1 = port_e9 (con s) @ user_bytes PT (ram s) buffer (unat n)
    \<and> (on_screen (con s) \<longrightarrow> on_screen con1)"
proof -
  let ?bs = "user_bytes PT (ram s) buffer (unat n)"
  have l: "sint n = int (length ?bs)" using sint_nonneg32 [OF assms(3)] by (simp add: user_bytes_def)
  have d: "console.delivers (vread_buffer PT (ram s)) buffer ?bs" by (rule user_buffer_delivers [OF assms(4)])
  obtain con1 where con1: "write_loop sys_write_console (vread_buffer PT (ram s)) buffer (int (length ?bs)) (con s) =
      Some (int (length ?bs), con1)" "port_e9 con1 = port_e9 (con s) @ ?bs" "on_screen (con s) \<longrightarrow> on_screen con1"
    by (rule console.write_loop_prints [OF d, of "con s"])
  have "(of_int (sint n) :: u32) = n" by simp
  then have "sys_write 1 buffer n s = Some (n, s\<lparr>con := con1\<rparr>)"
    using assms(1-3) con1(1) unfolding sys_write_def l [symmetric]
    by (simp add: check_fd_def ESCRIPTURA_def)
  with con1 show ?thesis by blast
qed

text \<open>C26: \<open>sys_write\<close> on the console writes the user's buffer: for a mapped buffer that
  \<open>access_ok\<close> accepts, whatever its length, the loop over the 512 byte buffer ends, exactly the
  bytes of the user's buffer come out, in order, the result is their number, and nothing but the
  console changes.\<close>

theorem write_prints_buffer:
  assumes "mmu_table s = Some PT" and "access_ok VERIFY_READ buffer n" and "0 \<le> sint n"
    and "\<And>i. i < unat n \<Longrightarrow> kaddr PT (buffer + of_nat i) \<noteq> None"
  shows "\<exists>con1. sys_write 1 buffer n s = Some (n, s\<lparr>con := con1\<rparr>)
    \<and> port_e9 con1 = port_e9 (con s) @ user_bytes PT (ram s) buffer (unat n)
    \<and> (on_screen (con s) \<longrightarrow> on_screen con1)"
  by (rule console_write [OF assms])

lemma write_prints_buffer_witness:
  "\<exists>s' bs. sys_write 1 0x108000 600 entered = Some (600, s') \<and> length bs = 600
     \<and> port_e9 (con s') = port_e9 (con entered) @ bs"
proof -
  have pt: "mmu_table entered = Some (pagusr_table booted 1)" using kinv_tables(2) [OF entered_kinv(1)] by simp
  have ok: "access_ok VERIFY_READ 0x108000 600" by (simp add: access_ok_range)
  have u: "unat (0x108000 + of_nat i :: u32) = 0x108000 + i" if "i < unat (600 :: u32)" for i
    using that unat_add_of_nat32 [of "0x108000" i] by simp
  have "kaddr (pagusr_table booted 1) (0x108000 + of_nat i) \<noteq> None" if "i < unat (600 :: u32)" for i
    using booted_pages(2) [of "0x108000 + of_nat i"] u [OF that] that
    by (simp add: user_word_def user_byte_def split: option.splits)
  from write_prints_buffer [OF pt ok _ this] obtain con1 where
    "sys_write 1 0x108000 600 entered = Some (600, entered\<lparr>con := con1\<rparr>)"
    "port_e9 con1 = port_e9 (con entered) @ user_bytes (pagusr_table booted 1) (ram entered) 0x108000 (unat (600 :: u32))"
    by auto
  then show ?thesis
    by (intro exI [of _ "entered\<lparr>con := con1\<rparr>"]
        exI [of _ "user_bytes (pagusr_table booted 1) (ram entered) 0x108000 (unat (600 :: u32))"])
      (simp add: user_bytes_def)
qed

end
