(* ===== verification/Refused.thy ===== *)
theory Refused
  imports MutexProofs WriteProofs Dispatch
begin

text \<open>
  The calls that are refused, with the code each returns, and the calls that fail because the
  kernel does not look for the last ready thread of a process.
\<close>

section \<open>Refused calls\<close>

lemma kinv_empty:
  assumes "kinv s Q M c cp"
  shows "list_empty Freequeue (heap s) \<longleftrightarrow> Q Freequeue = []"
    and "list_empty Free_threadqueue (heap s) \<longleftrightarrow> Q Free_threadqueue = []"
  using shape_empty_iff [OF kmid_shape [OF kinv_kmid [OF assms]]] by simp_all

lemma table_length: "length sys_call_table = 35"
  by (simp add: sys_call_table_def)

text \<open>C27: refusals that leave the state as it was. \<open>sys_write\<close> refuses a descriptor other than 1, a
  negative count and a buffer outside the user's pages; \<open>sys_fork\<close> the lack of a process or thread
  descriptor; \<open>sys_pthread_create\<close> a start routine outside the user's pages and the lack of a thread
  descriptor; \<open>sys_pthread_join\<close> a process that never made a thread; the four mutex calls a number
  that is not one of the vector; \<open>sys_mutex_lock\<close> and \<open>sys_mutex_unlock\<close> a mutex with a negative owner;
  \<open>sys_mutex_init\<close> a mutex that has an owner; \<open>sys_mutex_destroy\<close> a mutex without owner or with another
  one; the dispatcher a number outside the table and the numbers for which the table holds
  \<open>sys_ni_syscall\<close>. Not among them is \<open>sys_fork\<close> without frames: its \<open>-EAGAIN\<close> leaves traces
  (\<open>fork_without_frames\<close>).\<close>

theorem calls_refused:
  assumes "kinv s Q M c cp" and "in_kernel s c"
  shows "(fd \<noteq> 1 \<longrightarrow> sys_write fd b n s = Some (- EBADF, s))
    \<and> (sint n < 0 \<longrightarrow> sys_write 1 b n s = Some (- EINVAL, s))
    \<and> (0 \<le> sint n \<and> \<not> access_ok VERIFY_READ b n \<longrightarrow> sys_write 1 b n s = Some (- EFAULT, s))
    \<and> (Q Freequeue = [] \<or> Q Free_threadqueue = [] \<longrightarrow> sys_fork s = Some (- ENOMEM, s))
    \<and> (\<not> access_ok VERIFY_READ start 4 \<longrightarrow> sys_pthread_create b start n s = Some (- EFAULT, s))
    \<and> (access_ok VERIFY_READ start 4 \<and> Q Free_threadqueue = [] \<longrightarrow> sys_pthread_create b start n s = Some (- ENOMEM, s))
    \<and> (nthread (tasks s cp) < 2 \<longrightarrow> sys_pthread_join b n s = Some (- EFAULT, s))
    \<and> (bad_mutex n \<longrightarrow> (\<forall>call \<in> {sys_mutex_init, sys_mutex_lock, sys_mutex_unlock, sys_mutex_destroy}.
        call n s = Some (- EINVAL, s)))
    \<and> (\<not> bad_mutex n \<and> sint (owner (mutexes s (unat n))) < 0 \<longrightarrow>
        sys_mutex_lock n s = Some (- EINVAL, s) \<and> sys_mutex_unlock n s = Some (- EINVAL, s))
    \<and> (\<not> bad_mutex n \<and> owner (mutexes s (unat n)) \<noteq> 0 \<longrightarrow> sys_mutex_init n s = Some (- EBUSY, s))
    \<and> (\<not> bad_mutex n \<and> sint (owner (mutexes s (unat n))) \<le> 0 \<longrightarrow> sys_mutex_destroy n s = Some (- EINVAL, s))
    \<and> (\<not> bad_mutex n \<and> 0 < sint (owner (mutexes s (unat n))) \<and> owner (mutexes s (unat n)) \<noteq> TID (threads s c)
        \<longrightarrow> sys_mutex_destroy n s = Some (- EPERM, s))
    \<and> (sint eax < 0 \<or> 35 < sint eax \<longrightarrow> dispatch eax b n start s = Some (- ENOSYS, s))
    \<and> (0 \<le> sint eax \<and> unat eax < 35 \<and> sys_call_table ! unat eax = Sys_ni \<longrightarrow>
        dispatch eax b n start s = Some (- ENOSYS, s))"
proof (intro conjI impI)
  note e = kinv_empty [OF assms(1)] and cur = kinv_current [OF assms]
  show "sys_write fd b n s = Some (- EBADF, s)" if "fd \<noteq> 1"
    using that by (simp add: sys_write_def check_fd_def EBADF_def)
  show "sys_write 1 b n s = Some (- EINVAL, s)" if "sint n < 0"
    using that by (simp add: sys_write_def check_fd_def)
  show "sys_write 1 b n s = Some (- EFAULT, s)" if "0 \<le> sint n \<and> \<not> access_ok VERIFY_READ b n"
    using that by (simp add: sys_write_def check_fd_def)
  show "sys_fork s = Some (- ENOMEM, s)" if "Q Freequeue = [] \<or> Q Free_threadqueue = []"
    using that e by (auto simp: sys_fork_def)
  show "sys_pthread_create b start n s = Some (- EFAULT, s)" if "\<not> access_ok VERIFY_READ start 4"
    using that by (simp add: sys_pthread_create_def)
  show "sys_pthread_create b start n s = Some (- ENOMEM, s)"
    if "access_ok VERIFY_READ start 4 \<and> Q Free_threadqueue = []"
    using that e by (simp add: sys_pthread_create_def)
  show "sys_pthread_join b n s = Some (- EFAULT, s)" if "nthread (tasks s cp) < 2"
    using that cur by (simp add: sys_pthread_join_def)
  show "\<forall>call \<in> {sys_mutex_init, sys_mutex_lock, sys_mutex_unlock, sys_mutex_destroy}. call n s = Some (- EINVAL, s)"
    if "bad_mutex n"
    using that by (simp add: sys_mutex_init_def sys_mutex_lock_def sys_mutex_unlock_def sys_mutex_destroy_def)
  show "sys_mutex_lock n s = Some (- EINVAL, s)" "sys_mutex_unlock n s = Some (- EINVAL, s)"
    if "\<not> bad_mutex n \<and> sint (owner (mutexes s (unat n))) < 0"
    using that by (simp_all add: sys_mutex_lock_def sys_mutex_unlock_def Let_def)
  show "sys_mutex_init n s = Some (- EBUSY, s)" if "\<not> bad_mutex n \<and> owner (mutexes s (unat n)) \<noteq> 0"
    using that by (simp add: sys_mutex_init_def Let_def)
  show "sys_mutex_destroy n s = Some (- EINVAL, s)"
    if "\<not> bad_mutex n \<and> sint (owner (mutexes s (unat n))) \<le> 0"
    using that by (simp add: sys_mutex_destroy_def Let_def)
  show "sys_mutex_destroy n s = Some (- EPERM, s)"
    if "\<not> bad_mutex n \<and> 0 < sint (owner (mutexes s (unat n))) \<and> owner (mutexes s (unat n)) \<noteq> TID (threads s c)"
    using that cur by (auto simp: sys_mutex_destroy_def Let_def)
  show "dispatch eax b n start s = Some (- ENOSYS, s)" if "sint eax < 0 \<or> 35 < sint eax"
    using that by (auto simp: dispatch_def MAX_SYSCALL_def)
  show "dispatch eax b n start s = Some (- ENOSYS, s)"
    if "0 \<le> sint eax \<and> unat eax < 35 \<and> sys_call_table ! unat eax = Sys_ni"
    using that sint_nonneg32 [of eax] table_length by (simp add: dispatch_def MAX_SYSCALL_def sys_ni_syscall_def)
qed

lemma calls_refused_witness:
  "sys_write 7 0x108000 5 entered = Some (- EBADF, entered) \<and> sys_mutex_lock 20 entered = Some (- EINVAL, entered)
   \<and> dispatch 99 0 0 0 entered = Some (- ENOSYS, entered)"
proof -
  have "bad_mutex 20" by (simp add: bad_mutex_def)
  then show ?thesis
    using calls_refused [OF entered_kinv, where fd = 7 and b = "0x108000" and n = 5]
      calls_refused [OF entered_kinv, where n = 20]
      calls_refused [OF entered_kinv, where eax = 99 and b = 0 and n = 0 and start = 0] by simp
qed

section \<open>The last ready thread\<close>

lemma join_alone:
  assumes "kinv s Q M c cp" and "in_kernel s c" and "Q (ReadyThreads cp) = []" and n: "\<not> nthread (tasks s cp) < 2"
  shows "sys_pthread_join idp vp s = None"
proof (cases "load_user idp s")
  case None
  with kinv_current [OF assms(1,2)] n show ?thesis by (simp add: sys_pthread_join_def)
next
  case (Some v)
  have cp: "cp < 10" using kinv_proc [OF assms(1)] by (simp add: proc_running_def)
  note cur = kinv_current [OF assms(1,2)]
  let ?s1 = "upd_thread c (\<lambda>t. t\<lparr>blocked_by := v\<rparr>) s" and ?b = "BlockedThreads cp"
  let ?Q = "Q(?b := Q ?b @ [ThreadList c])"
  have k1: "kinv ?s1 Q M c cp" using assms(1) kinv_view_cong [of ?s1 s] by simp
  have i1: "in_kernel ?s1 c" using assms(2) in_kernel_cong [of ?s1 s c] by simp
  obtain h s2 where u: "update_thread_state_rr c (Some ?b) ?s1 = Some s2"
    and s2: "s2 = ?s1\<lparr>heap := h, threads := (threads ?s1)(c := (threads ?s1 c)\<lparr>thread_state :=
       (if ?b \<noteq> ReadyThreads cp then ST_BLOCKED else ST_READY)\<rparr>)\<rparr>"
    and km: "kmid s2 ?Q M c" by (rule requeue_thread [OF k1 i1 disjI2 [OF refl]])
  have cur2: "current_p s2 = Some cp" using current_frame(2) [of s2 s] cur s2 by simp
  have "?Q (ReadyThreads cp) = []" using assms(3) by simp
  then have "sched_next_thread_rr s2 = None" by (rule sched_next_thread_empty [OF km cur2 cp])
  with cur n Some u show ?thesis by (simp add: sys_pthread_join_def)
qed

lemma exit_alone:
  assumes "kinv s Q M c cp" and "in_kernel s c" and "Q (ReadyThreads cp) @ first_joined s Q c cp = []"
  shows "sys_pthread_exit vp s = None"
proof -
  have cp: "cp < 10" using kinv_proc [OF assms(1)] by (simp add: proc_running_def)
  note cur = kinv_current [OF assms(1,2)]
  let ?Q = "Q(Free_threadqueue := Q Free_threadqueue @ [ThreadList c])"
  obtain h where h: "k_list_add_tail (ThreadList c) Free_threadqueue s = Some (s\<lparr>heap := h\<rparr>)"
    "kmid (s\<lparr>heap := h\<rparr>) ?Q M c" "proc_running (s\<lparr>heap := h\<rparr>) ?Q M cp" by (rule free_running_thread [OF assms(1)])
  have cur2: "current_p (s\<lparr>heap := h\<rparr>) = Some cp" using current_frame(2) [of "s\<lparr>heap := h\<rparr>" s] cur by simp
  let ?Q2 = "?Q(BlockedThreads cp := drop (length (first_joined (s\<lparr>heap := h\<rparr>) ?Q c cp)) (?Q (BlockedThreads cp)),
    ReadyThreads cp := ?Q (ReadyThreads cp) @ first_joined (s\<lparr>heap := h\<rparr>) ?Q c cp)"
  obtain s2 h' th where w: "wake_waiters c cp (s\<lparr>heap := h\<rparr>) = Some s2" "s2 = (s\<lparr>heap := h\<rparr>)\<lparr>heap := h', threads := th\<rparr>"
    "\<And>x. thread_p (th x) = thread_p (threads (s\<lparr>heap := h\<rparr>) x)" "kmid s2 ?Q2 M c"
    by (rule wake_waiters_step [OF h(2,3) cur2]) (rule that)
  have cur3: "current_p s2 = Some cp" using current_p_threads [of s2 s] w(2,3) cur by simp
  have "first_joined (s\<lparr>heap := h\<rparr>) ?Q c cp = first_joined s Q c cp"
    by (simp add: first_joined_def split: list.split lnode.split)
  then have "?Q2 (ReadyThreads cp) = []" using assms(3) by simp
  then have "sched_next_thread_rr s2 = None" by (rule sched_next_thread_empty [OF w(4) cur3 cp])
  with cur h(1) w(1) show ?thesis by (simp add: sys_pthread_exit_def)
qed



end
