(* ===== verification/ExitProofs.thy ===== *)
theory ExitProofs
  imports ForkProofs
begin

text \<open>
  \<open>sys_exit\<close> computed on states that satisfy the invariant: the two loops that free the
  threads of the process end, and the next process runs.
\<close>

section \<open>Freeing the threads of a process\<close>

definition ended :: "nat set \<Rightarrow> (nat \<Rightarrow> thread_struct) \<Rightarrow> nat \<Rightarrow> thread_struct" where
  "ended A th x = (if x \<in> A then (th x)\<lparr>TID := -1\<rparr> else th x)"

lemma ended_fields [simp]:
  "thread_p (ended A th x) = thread_p (th x)" "thread_state (ended A th x) = thread_state (th x)"
  "register_esp (ended A th x) = register_esp (th x)" "quantum (ended A th x) = quantum (th x)"
  "TID (ended A th x) = (if x \<in> A then -1 else TID (th x))"
  by (simp_all add: ended_def)

lemma ended_Un: "ended B (ended A th) = ended (A \<union> B) th"
  by (rule ext) (simp add: ended_def)

lemma ended_empty [simp]: "ended {} th = th"
  by (rule ext) (simp add: ended_def)

lemma free_threads_spec:
  assumes "shape (heap s) H Q" and "q \<in> H" and "Free_threadqueue \<in> H" and "q \<noteq> Free_threadqueue"
    and "layout_ok (sym s)" and "Q q = map ThreadList ts" and "\<And>t. t \<in> set ts \<Longrightarrow> t < 22"
  shows "\<exists>h. free_threads q s = Some (s\<lparr>heap := h, threads := ended (set ts) (threads s)\<rparr>)
    \<and> shape h H (Q(q := [], Free_threadqueue := Q Free_threadqueue @ map ThreadList ts))
    \<and> (\<forall>x. x \<notin> H \<longrightarrow> \<not> queued H Q x \<longrightarrow> h x = heap s x)"
  using assms(1,5-7)
proof (induction ts arbitrary: s Q)
  case Nil
  have "free_threads q s = Some s"
    using shape_empty_iff [OF Nil.prems(1) assms(2)] Nil.prems(3) by (simp add: free_threads.simps [of q s])
  moreover have "Q(q := [], Free_threadqueue := Q Free_threadqueue @ map ThreadList []) = Q"
    using Nil.prems(3) by (simp add: fun_eq_iff)
  ultimately show ?case using Nil.prems(1) by (intro exI [of _ "heap s"]) (simp only: list.set, simp)
next
  case (Cons t ts)
  have Q: "Q q = ThreadList t # map ThreadList ts" using Cons.prems(3) by simp
  obtain h1 h2 where h: "list_first q (heap s) = Some (ThreadList t)" "list_del (ThreadList t) (heap s) = Some h1"
    "list_add_tail (ThreadList t) Free_threadqueue h1 = Some h2"
    "shape h2 H (Q(q := map ThreadList ts, Free_threadqueue := Q Free_threadqueue @ [ThreadList t]))"
    "\<And>x. x \<notin> H \<Longrightarrow> \<not> queued H Q x \<Longrightarrow> h2 x = heap s x"
    using lq.transfer_first [OF Cons.prems(1) assms(2-4) Q] by blast
  let ?Q = "Q(q := map ThreadList ts, Free_threadqueue := Q Free_threadqueue @ [ThreadList t])"
  let ?s = "s\<lparr>heap := h2, threads := (threads s)(t := (threads s t)\<lparr>TID := -1\<rparr>)\<rparr>"
  have sh: "shape (heap ?s) H ?Q" "layout_ok (sym ?s)" "?Q q = map ThreadList ts"
    using h(4) Cons.prems(2) assms(4) by simp_all
  have small: "t < 22" if "t \<in> set ts" for t using that Cons.prems(4) by simp
  obtain h3 where h3: "free_threads q ?s = Some (?s\<lparr>heap := h3, threads := ended (set ts) (threads ?s)\<rparr>)"
    "shape h3 H (?Q(q := [], Free_threadqueue := ?Q Free_threadqueue @ map ThreadList ts))"
    "\<And>x. x \<notin> H \<Longrightarrow> \<not> queued H ?Q x \<Longrightarrow> h3 x = heap ?s x"
    using Cons.IH [OF sh small] by blast
  have ne: "\<not> list_empty q (heap s)" using shape_empty_iff [OF Cons.prems(1) assms(2)] Q by simp
  have node: "thread_at (sym s) (list_head_to_thread_struct (sym s) (ThreadList t)) = Some t"
    using Cons.prems(2,4) by (intro thread_of_node) simp_all
  have one: "(threads s)(t := (threads s t)\<lparr>TID := -1\<rparr>) = ended {t} (threads s)"
    by (rule ext) (simp add: ended_def)
  have "free_threads q s = free_threads q ?s"
    using h(1-3) ne node by (simp add: free_threads.simps [of q s] k_list_del_case k_list_add_tail_case)
  also have "\<dots> = Some (s\<lparr>heap := h3, threads := ended (set (t # ts)) (threads s)\<rparr>)"
    unfolding h3(1) by (simp add: one ended_Un)
  finally have "free_threads q s = Some (s\<lparr>heap := h3, threads := ended (set (t # ts)) (threads s)\<rparr>)" .
  moreover have "?Q(q := [], Free_threadqueue := ?Q Free_threadqueue @ map ThreadList ts) =
      Q(q := [], Free_threadqueue := Q Free_threadqueue @ map ThreadList (t # ts))"
    using assms(4) by (simp add: fun_eq_iff)
  moreover have "h3 x = heap s x" if x: "x \<notin> H" "\<not> queued H Q x" for x
  proof -
    have "\<not> queued H ?Q x" using x(2) Q assms(2) by (auto simp: queued_def split: if_splits)
    with x h(5) h3(3) show ?thesis by simp
  qed
  ultimately show ?case using h3(2) by (intro exI [of _ h3]) (simp only:, blast)
qed

section \<open>\<open>sys_exit\<close>\<close>

definition exit_queues :: "(lnode \<Rightarrow> lnode list) \<Rightarrow> nat \<Rightarrow> lnode \<Rightarrow> lnode list" where
  "exit_queues Q cp = Q(Freequeue := Q Freequeue @ [TaskList cp], ReadyThreads cp := [], BlockedThreads cp := [],
     Free_threadqueue := Q Free_threadqueue @ Q (ReadyThreads cp) @ Q (BlockedThreads cp))"

text \<open>The state in which \<open>sys_exit\<close> calls the scheduler.\<close>

definition exited :: "kernel \<Rightarrow> nat \<Rightarrow> nat set \<Rightarrow> lnode lheap \<Rightarrow> kernel" where
  "exited s cp A h = s\<lparr>phys_mem := freed_frames (pagusr_table s cp) 20 (phys_mem s),
     pagusr_table := (pagusr_table s)(cp := (\<lambda>p. if 264 \<le> p \<and> p < 284 then 0 else pagusr_table s cp p)),
     tasks := (tasks s)(cp := (tasks s cp)\<lparr>PID := -1\<rparr>), heap := h, threads := ended A (threads s)\<rparr>"

lemma ready_nodes:
  assumes "kmid s Q M c" and "p < 10"
  obtains ts where "Q (ReadyThreads p) = map ThreadList ts" and "\<And>t. t \<in> set ts \<Longrightarrow> waits s c p t"
proof -
  have w: "\<exists>t. n = ThreadList t \<and> waits s c p t" if "n \<in> set (Q (ReadyThreads p))" for n
    using kmid_ready_node [OF assms that] by blast
  then obtain ts where "Q (ReadyThreads p) = map ThreadList ts" using thread_nodes by metis
  with w show thesis by (intro that) auto
qed

lemma exited_kmid:
  assumes "kinv s Q M c cp" and "shape h (heads M) (exit_queues Q cp)"
    and "\<And>x. x \<notin> heads M \<Longrightarrow> x \<noteq> TaskList cp \<Longrightarrow> \<not> queued (heads M) Q x \<Longrightarrow> h x = heap s x"
  shows "kmid (exited s cp A h) (exit_queues Q cp) M c"
proof -
  let ?s = "exited s cp A h" and ?Q = "exit_queues Q cp"
  note km = kinv_kmid [OF assms(1)]
  have cp: "cp < 10" "\<not> queued (heads M) Q (TaskList cp)"
    using kinv_proc [OF assms(1)] by (simp_all add: proc_running_def)
  obtain rs where rs: "Q (ReadyThreads cp) = map ThreadList rs" "\<And>t. t \<in> set rs \<Longrightarrow> waits s c cp t"
    by (rule ready_nodes [OF km cp(1)]) (rule that)
  obtain bs where bs: "Q (BlockedThreads cp) = map ThreadList bs" "\<And>t. t \<in> set bs \<Longrightarrow> waits s c cp t"
    by (rule kmid_blocked [OF km cp(1)]) (rule that)
  show ?thesis
  proof (rule kmid_requeue [where N = "insert (TaskList cp) (ThreadList ` (set rs \<union> set bs))", OF km])
    show "member_ok ?s ?Q c a n"
      if a: "a \<in> heads M" and n: "n \<in> set (?Q a)" "n \<in> insert (TaskList cp) (ThreadList ` (set rs \<union> set bs))" for a n
    proof (cases "n = TaskList cp")
      case True
      then have "a = Freequeue" using n cp(2) rs bs queuedI [of a "heads M" n Q, OF a]
        by (auto simp: exit_queues_def split: if_splits)
      with True cp(1) show ?thesis by (simp add: exit_queues_def)
    next
      case False
      then obtain t where t: "n = ThreadList t" "waits s c cp t" using n(2) rs(2) bs(2) by auto
      obtain b where b: "b \<in> heads M" "b = ReadyThreads cp \<or> b = BlockedThreads cp" "n \<in> set (Q b)"
        using that [of "ReadyThreads cp"] that [of "BlockedThreads cp"] n(2) False rs(1) bs(1) cp(1) by auto
      have "n \<in> set (Q a) \<Longrightarrow> a = b" by (rule lq.disjoint_law [OF kmid_shape [OF km] a b(1) _ b(3)])
      with b n False have "a = Free_threadqueue" by (auto simp: exit_queues_def split: if_splits)
      with t show ?thesis by (simp add: waits_def)
    qed
  qed (use assms(2,3) cp rs bs in \<open>auto simp: exited_def exit_queues_def waits_def split: if_splits\<close>)
qed

text \<open>The two calls of \<open>free_threads\<close> in \<open>sys_exit\<close>.\<close>

lemma free_both:
  assumes "shape (heap s) (heads M) Q" and "p < 10" and "layout_ok (sym s)"
    and "Q (ReadyThreads p) = map ThreadList rs" and "Q (BlockedThreads p) = map ThreadList bs"
    and "\<And>t. t \<in> set rs \<union> set bs \<Longrightarrow> t < 22"
  obtains s1 h where "free_threads (ReadyThreads p) s = Some s1"
    and "free_threads (BlockedThreads p) s1 = Some (s\<lparr>heap := h, threads := ended (set rs \<union> set bs) (threads s)\<rparr>)"
    and "shape h (heads M) (Q(ReadyThreads p := [], BlockedThreads p := [],
      Free_threadqueue := Q Free_threadqueue @ Q (ReadyThreads p) @ Q (BlockedThreads p)))"
    and "\<And>x. x \<notin> heads M \<Longrightarrow> \<not> queued (heads M) Q x \<Longrightarrow> h x = heap s x"
proof -
  let ?R = "ReadyThreads p" and ?B = "BlockedThreads p" and ?F = "Free_threadqueue"
  have H: "?R \<in> heads M" "?B \<in> heads M" "?F \<in> heads M" using assms(2) by simp_all
  let ?Q1 = "Q(?R := [], ?F := Q ?F @ map ThreadList rs)"
  have "\<exists>h. free_threads ?R s = Some (s\<lparr>heap := h, threads := ended (set rs) (threads s)\<rparr>) \<and> shape h (heads M) ?Q1
    \<and> (\<forall>x. x \<notin> heads M \<longrightarrow> \<not> queued (heads M) Q x \<longrightarrow> h x = heap s x)"
    by (rule free_threads_spec [OF assms(1) H(1,3) _ assms(3,4)]) (use assms(6) in auto)
  then obtain h1 where 1: "free_threads ?R s = Some (s\<lparr>heap := h1, threads := ended (set rs) (threads s)\<rparr>)"
    "shape h1 (heads M) ?Q1" "\<And>x. x \<notin> heads M \<Longrightarrow> \<not> queued (heads M) Q x \<Longrightarrow> h1 x = heap s x" by blast
  let ?s1 = "s\<lparr>heap := h1, threads := ended (set rs) (threads s)\<rparr>"
  have "\<exists>h. free_threads ?B ?s1 = Some (?s1\<lparr>heap := h, threads := ended (set bs) (threads ?s1)\<rparr>)
    \<and> shape h (heads M) (?Q1(?B := [], ?F := ?Q1 ?F @ map ThreadList bs))
    \<and> (\<forall>x. x \<notin> heads M \<longrightarrow> \<not> queued (heads M) ?Q1 x \<longrightarrow> h x = heap ?s1 x)"
    by (rule free_threads_spec [OF _ H(2,3)]) (use 1(2) assms(3,5,6) in auto)
  then obtain h2 where 2: "free_threads ?B ?s1 = Some (s\<lparr>heap := h2, threads := ended (set rs \<union> set bs) (threads s)\<rparr>)"
    "shape h2 (heads M) (?Q1(?B := [], ?F := ?Q1 ?F @ map ThreadList bs))"
    "\<And>x. x \<notin> heads M \<Longrightarrow> \<not> queued (heads M) ?Q1 x \<Longrightarrow> h2 x = h1 x"
    by (auto simp: ended_Un)
  have q: "?Q1(?B := [], ?F := ?Q1 ?F @ map ThreadList bs) = Q(?R := [], ?B := [], ?F := Q ?F @ Q ?R @ Q ?B)"
    using assms(4,5) by (simp add: fun_eq_iff)
  have fr: "h2 x = heap s x" if "x \<notin> heads M" "\<not> queued (heads M) Q x" for x
  proof -
    have "x \<notin> set (Q ?R)" using that(2) H(1) by (auto simp: queued_def)
    then have "\<not> queued (heads M) ?Q1 x" using that(2) assms(4) by (auto simp: queued_def split: if_splits)
    then show ?thesis using that 1(3) 2(3) by simp
  qed
  show thesis by (rule that [OF 1(1) 2(1) 2(2) [unfolded q] fr])
qed

lemma sys_exit_prepares:
  assumes "kinv s Q M c cp" and "in_kernel s c"
  obtains A h where "sys_exit s = sched_next_process_rr (exited s cp A h) \<bind> (\<lambda>s'. Some (0, s'))"
    and "kmid (exited s cp A h) (exit_queues Q cp) M c" and "in_kernel (exited s cp A h) c"
proof -
  let ?R = "ReadyThreads cp" and ?B = "BlockedThreads cp" and ?F = "Free_threadqueue"
  let ?Q1 = "Q(Freequeue := Q Freequeue @ [TaskList cp])"
  note km = kinv_kmid [OF assms(1)] and cur = kinv_current [OF assms]
  have cp: "cp < 10" "\<not> queued (heads M) Q (TaskList cp)"
    using kinv_proc [OF assms(1)] by (simp_all add: proc_running_def)
  obtain rs where rs: "Q ?R = map ThreadList rs" "\<And>t. t \<in> set rs \<Longrightarrow> waits s c cp t"
    by (rule ready_nodes [OF km cp(1)]) (rule that)
  obtain bs where bs: "Q ?B = map ThreadList bs" "\<And>t. t \<in> set bs \<Longrightarrow> waits s c cp t"
    by (rule kmid_blocked [OF km cp(1)]) (rule that)
  obtain h1 where h1: "list_add_tail (TaskList cp) Freequeue (heap s) = Some h1" "shape h1 (heads M) ?Q1"
    "\<And>x. x \<notin> heads M \<Longrightarrow> x \<noteq> TaskList cp \<Longrightarrow> \<not> queued (heads M) Q x \<Longrightarrow> h1 x = heap s x"
    using lq.add_tail_law [OF kmid_shape [OF km] heads_simps(1) heads_simps(7) cp(2)] by blast
  let ?PT = "(pagusr_table s)(cp := (\<lambda>p. if 264 \<le> p \<and> p < 284 then 0 else pagusr_table s cp p))"
  let ?s1 = "s\<lparr>phys_mem := freed_frames (pagusr_table s cp) 20 (phys_mem s), pagusr_table := ?PT\<rparr>"
  let ?s3 = "?s1\<lparr>heap := h1, tasks := (tasks s)(cp := (tasks s cp)\<lparr>PID := -1\<rparr>)\<rparr>"
  have 1: "for_each 0 NUM_PAG_DATA (\<lambda>j. free_page cp (PAG_LOG_INIT_DATA + j)) s = ?s1"
    using free_pages_eq [of 20 cp s] by simp
  have lay: "layout_ok (sym ?s3)" using kmid_layout [OF km] by simp
  have Q1: "?Q1 ?R = map ThreadList rs" "?Q1 ?B = map ThreadList bs" using rs(1) bs(1) by simp_all
  obtain s4 h3 where h3: "free_threads ?R ?s3 = Some s4"
    "free_threads ?B s4 = Some (?s3\<lparr>heap := h3, threads := ended (set rs \<union> set bs) (threads ?s3)\<rparr>)"
    "shape h3 (heads M) (?Q1(?R := [], ?B := [], ?F := ?Q1 ?F @ ?Q1 ?R @ ?Q1 ?B))"
    "\<And>x. x \<notin> heads M \<Longrightarrow> \<not> queued (heads M) ?Q1 x \<Longrightarrow> h3 x = heap ?s3 x"
  proof (rule free_both [OF _ cp(1) lay Q1])
    show "shape (heap ?s3) (heads M) ?Q1" using h1(2) by simp
    show "t < 22" if "t \<in> set rs \<union> set bs" for t using that rs(2) bs(2) by (auto simp: waits_def)
  qed (rule that)
  have q: "?Q1(?R := [], ?B := [], ?F := ?Q1 ?F @ ?Q1 ?R @ ?Q1 ?B) = exit_queues Q cp"
    by (simp add: exit_queues_def fun_eq_iff)
  let ?A = "set rs \<union> set bs"
  have last: "?s3\<lparr>heap := h3, threads := ended ?A (threads ?s3)\<rparr> = exited s cp ?A h3"
    by (rule kernel.equality) (simp_all add: exited_def)
  have pt: "get_PT s cp = Some cp" by (rule kinv_tables [OF assms(1)])
  have add: "k_list_add_tail (TaskList cp) Freequeue ?s1 = Some (?s1\<lparr>heap := h1\<rparr>)"
    using h1(1) by (simp add: k_list_add_tail_case)
  have task: "upd_task cp (\<lambda>t. t\<lparr>PID := -1\<rparr>) (?s1\<lparr>heap := h1\<rparr>) = ?s3" by simp
  have "sys_exit s = sched_next_process_rr (exited s cp ?A h3) \<bind> (\<lambda>s'. Some (0, s'))"
    by (simp only: sys_exit_def cur pt 1 Let_def add task h3(1,2) last Option.bind.simps)
  moreover have fr: "h3 x = heap s x" if x: "x \<notin> heads M" "x \<noteq> TaskList cp" "\<not> queued (heads M) Q x" for x
  proof -
    have "\<not> queued (heads M) ?Q1 x" using not_queued_append [OF x(3,2)] .
    with x h1(3) h3(4) show ?thesis by simp
  qed
  have "kmid (exited s cp ?A h3) (exit_queues Q cp) M c"
    by (rule exited_kmid [OF assms(1) h3(3) [unfolded q] fr])
  moreover have "in_kernel (exited s cp ?A h3) c"
    using assms(2) in_kernel_cong [of "exited s cp ?A h3" s c] by (simp add: exited_def)
  ultimately show thesis by (rule that)
qed

section \<open>Correctness\<close>

lemma sched_next_process_idle:
  assumes "kmid s Q M c" and "Q Readyqueue = []"
  shows "sched_next_process_rr s = None"
proof -
  obtain i where i: "idle_task s = Some i" "thread_p (threads s i) = None"
    using kmid_idle [OF assms(1)] by (auto simp: idle_ok_def)
  have "list_empty Readyqueue (heap s)"
    using shape_empty_iff [OF kmid_shape [OF assms(1)] heads_simps(2)] assms(2) by simp
  with i show ?thesis by (simp add: sched_next_process_rr_def task_switch_def inner_task_switch_def)
qed

text \<open>The next process takes over.\<close>

lemma sys_exit_step:
  assumes "kinv s Q M c cp" and "in_kernel s c" and "Q Readyqueue = TaskList p # ps" and "Q (ReadyThreads p) = ThreadList t # ts"
  obtains s' where "sys_exit s = Some (0, s')"
    and "kinv s' ((exit_queues Q cp)(Readyqueue := ps, ReadyThreads p := ts)) M t p"
    and "\<not> queued (heads M) ((exit_queues Q cp)(Readyqueue := ps, ReadyThreads p := ts)) (ThreadList c)"
    and "PID (tasks s' cp) = -1" and "remaining_quantum_p s' = total_quantum (tasks s p)" and "p \<noteq> cp"
    and "pagusr_table s' = (pagusr_table s)(cp := (\<lambda>p. if 264 \<le> p \<and> p < 284 then 0 else pagusr_table s cp p))"
    and "phys_mem s' = freed_frames (pagusr_table s cp) 20 (phys_mem s)"
proof -
  obtain A h where e: "sys_exit s = sched_next_process_rr (exited s cp A h) \<bind> (\<lambda>s'. Some (0, s'))"
    "kmid (exited s cp A h) (exit_queues Q cp) M c" "in_kernel (exited s cp A h) c"
    by (rule sys_exit_prepares [OF assms(1,2)])
  let ?Q = "exit_queues Q cp"
  let ?Q' = "?Q(Readyqueue := ps, ReadyThreads p := ts)"
  have "queued (heads M) Q (TaskList p)" using assms(3) by (intro queuedI [of Readyqueue]) simp_all
  then have pcp: "p \<noteq> cp" using kinv_proc [OF assms(1)] by (auto simp: proc_running_def)
  have r: "?Q Readyqueue = TaskList p # ps" "?Q (ReadyThreads p) = ThreadList t # ts"
    using assms(3,4) pcp by (simp_all add: exit_queues_def)
  have cq: "\<not> queued (heads M) Q (ThreadList c)" using kinv_thread [OF assms(1)] by (simp add: thread_running_def)
  have cp: "cp < 10" using kinv_proc [OF assms(1)] by (simp add: proc_running_def)
  have p: "p < 10" using kmid_ready_proc [OF e(2), of "TaskList p"] r by auto
  have cq2: "\<not> queued (heads M) ?Q (ThreadList c)"
    using cq cp by (auto simp: exit_queues_def queued_def split: if_splits)
  have ne: "?Q Readyqueue \<noteq> []" using r by simp
  have other: "hd (?Q (ReadyThreads j)) \<noteq> ThreadList c" if "hd (?Q Readyqueue) = TaskList j" for j
  proof -
    have "j = p" using that r by simp
    moreover have "queued (heads M) ?Q (ThreadList t)" using r p by (intro queuedI [of "ReadyThreads p"]) simp_all
    ultimately show ?thesis using r cq2 by auto
  qed
  obtain s' p' ps' t' ts' where s': "sched_next_process_rr (exited s cp A h) = Some s'"
    "?Q Readyqueue = TaskList p' # ps'" "?Q (ReadyThreads p') = ThreadList t' # ts'" "p' < 10"
    "kinv s' (?Q(Readyqueue := ps', ReadyThreads p' := ts')) M t' p'"
    "remaining_quantum_p s' = total_quantum (tasks (exited s cp A h) p')"
    "remaining_quantum_t s' = quantum (threads (exited s cp A h) t')" "same_rest (exited s cp A h) s'"
    "tasks s' = (tasks (exited s cp A h))(p' := (tasks (exited s cp A h) p')\<lparr>task_state := ST_RUN\<rparr>)"
    "threads s' = handed_over c t' (ebp (exited s cp A h)) (threads (exited s cp A h))"
    by (rule next_process_step [OF e(2,3) ne other])
  have same: "p' = p" "ps' = ps" "t' = t" "ts' = ts" using s'(2,3) r by auto
  have k: "kinv s' ?Q' M t p" using s'(5) unfolding same .
  have nq: "\<not> queued (heads M) ?Q' (ThreadList c)" using cq2 r by (auto simp: queued_def split: if_splits)
  show thesis
    using e(1) s'(1,6,8,9) same pcp by (intro that [OF _ k nq]) (simp_all add: exited_def same_rest_def)
qed

lemma sys_exit_alone:
  assumes "kinv s Q M c cp" and "in_kernel s c" and "Q Readyqueue = []"
  shows "sys_exit s = None"
proof -
  obtain A h where e: "sys_exit s = sched_next_process_rr (exited s cp A h) \<bind> (\<lambda>s'. Some (0, s'))"
    "kmid (exited s cp A h) (exit_queues Q cp) M c" by (rule sys_exit_prepares [OF assms(1,2)])
  have "exit_queues Q cp Readyqueue = []" using assms(3) by (simp add: exit_queues_def)
  then have "sched_next_process_rr (exited s cp A h) = None" by (rule sched_next_process_idle [OF e(2)])
  with e(1) show ?thesis by simp
qed

lemma freed_again:
  assumes "264 \<le> k" and "k < 284" and "pool_frame (unat (pbase_addr (T k)))" and "unat (pbase_addr (T k)) \<noteq> 256"
  shows "unat (pbase_addr (T k)) \<in> free_frames (freed_frames T 20 pm)"
proof -
  obtain j where "k = 264 + j" "j < 20" using assms(1,2) by (intro that [of "k - 264"]) auto
  with assms(3,4) show ?thesis by (auto simp: free_frames_def freed_frames_def pool_frame_def)
qed



end
