(* ===== verification/Entry.thy ===== *)
theory Entry
  imports Refused ExitProofs
begin

text \<open>
  The way into the kernel and back: the frame \<open>system_call_handler\<close> builds on the kernel stack of
  the running thread, and what it makes of a new thread or a forked child when they run first.
\<close>

section \<open>The frame\<close>

text \<open>Pushing words from the top \<open>k\<close> of a stack downwards.\<close>

definition push_words :: "(nat \<Rightarrow> u32) \<Rightarrow> u32 list \<Rightarrow> nat \<Rightarrow> nat \<Rightarrow> u32" where
  "push_words K vs k j = (if k - length vs \<le> j \<and> j < k then vs ! (k - 1 - j) else K j)"

lemma push_words_Cons:
  "k \<noteq> 0 \<Longrightarrow> length vs < k \<Longrightarrow> push_words (K(k - 1 := v)) vs (k - 1) = push_words K (v # vs) k"
proof
  fix j assume k: "k \<noteq> 0" "length vs < k"
  have "k - 1 - j = Suc (k - 1 - 1 - j)" if "j < k - 1" using that by simp
  then show "push_words (K(k - 1 := v)) vs (k - 1) j = push_words K (v # vs) k j"
    using k by (cases "j = k - 1") (auto simp: push_words_def)
qed

lemma push_all_eq:
  assumes "layout_ok (sym s)" and "c < 22" and "esp s = stack_addr (sym s) c k" and "length vs \<le> k" and "k \<le> 1024"
  shows "push_all vs s = Some (s\<lparr>esp := stack_addr (sym s) c (k - length vs),
     threads := (threads s)(c := (threads s c)\<lparr>kstack := push_words (kstack (threads s c)) vs k\<rparr>)\<rparr>)"
  using assms
proof (induction vs arbitrary: s k)
  case Nil
  have "push_words (kstack (threads s c)) [] k = kstack (threads s c)" by (rule ext) (auto simp: push_words_def)
  with Nil.prems show ?case by simp
next
  case (Cons v vs)
  have k: "k \<noteq> 0" "length vs < k" "length vs \<le> k - 1" "k - 1 \<le> 1024" using Cons.prems(4,5) by auto
  obtain k' where k': "k = Suc k'" using k(1) by (cases k) auto
  have esp: "esp s - 4 = stack_addr (sym s) c (k - 1)"
    using Cons.prems(3) k' by (simp add: stack_addr_Suc)
  have slot: "stack_slot (sym s) (stack_addr (sym s) c (k - 1)) = Some (c, k - 1)"
    using Cons.prems k by (intro stack_slot_addr) simp_all
  let ?s = "s\<lparr>esp := stack_addr (sym s) c (k - 1),
      threads := (threads s)(c := (threads s c)\<lparr>kstack := (kstack (threads s c))(k - 1 := v)\<rparr>)\<rparr>"
  have "pushl v s = Some ?s" using slot by (simp add: pushl_def esp store_stack_def)
  then have "push_all (v # vs) s = push_all vs ?s" by simp
  also have "\<dots> = Some (?s\<lparr>esp := stack_addr (sym ?s) c (k - 1 - length vs),
     threads := (threads ?s)(c := (threads ?s c)\<lparr>kstack := push_words (kstack (threads ?s c)) vs (k - 1)\<rparr>)\<rparr>)"
    using Cons.prems k by (intro Cons.IH) simp_all
  also have "\<dots> = Some (s\<lparr>esp := stack_addr (sym s) c (k - length (v # vs)),
     threads := (threads s)(c := (threads s c)\<lparr>kstack := push_words (kstack (threads s c)) (v # vs) k\<rparr>)\<rparr>)"
    using push_words_Cons [OF k(1,2), of "kstack (threads s c)" v] by simp
  finally show ?case .
qed

definition call_frame :: "symbols \<Rightarrow> user_regs \<Rightarrow> u32 list" where
  "call_frame \<sigma> r = return_context r @ SAVE_ALL r @ [sysenter_fin_addr \<sigma>, r_ebp r]"

text \<open>The state in which the C function of a system call starts.\<close>

definition in_call :: "user_regs \<Rightarrow> nat \<Rightarrow> kernel \<Rightarrow> kernel" where
  "in_call r c s = s\<lparr>esp := stack_addr (sym s) c 1006,
     threads := (threads s)(c := (threads s c)\<lparr>kstack := push_words (kstack (threads s c)) (call_frame (sym s) r) 1024\<rparr>),
     ebp := stack_addr (sym s) c 1006\<rparr>"

lemma frame_words:
  "length (call_frame \<sigma> r) = 18"
  "push_words K (call_frame \<sigma> r) 1024 1006 = r_ebp r"
  "push_words K (call_frame \<sigma> r) 1024 1007 = sysenter_fin_addr \<sigma>"
  "push_words K (call_frame \<sigma> r) 1024 1019 = ret_addr r"
  "push_words K (call_frame \<sigma> r) 1024 1022 = r_ebp r"
  by (simp_all add: call_frame_def push_words_def return_context_def SAVE_ALL_def nth_append)

lemma push_words_append:
  assumes "length us + length vs \<le> k"
  shows "push_words (push_words K us k) vs (k - length us) = push_words K (us @ vs) k"
proof
  fix j
  have "k - 1 - j - length us = k - length us - 1 - j" by simp
  moreover have "k - 1 - j < length us \<longleftrightarrow> k - length us \<le> j" if "j < k" using that assms by auto
  ultimately show "push_words (push_words K us k) vs (k - length us) j = push_words K (us @ vs) k j"
    using assms by (auto simp: push_words_def nth_append)
qed

lemma system_call_handler_eq:
  assumes "kinv s Q M c cp"
  shows "system_call_handler r s = dispatch (r_eax r) (r_ebx r) (r_ecx r) (r_edx r) (in_call r c s)"
    and "kinv (in_call r c s) Q M c cp" and "in_kernel (in_call r c s) c"
    and "stack_slot (sym (in_call r c s)) (ebp (in_call r c s)) = Some (c, Suc 1005)"
proof -
  note km = kinv_kmid [OF assms]
  have lay: "layout_ok (sym s)" and c: "c < 22" using kmid_layout [OF km] kmid_c [OF km] by simp_all
  have top: "msr_esp s = stack_addr (sym s) c 1024" using kinv_cpu [OF assms] by (simp add: on_cpu_def)
  let ?us = "return_context r @ SAVE_ALL r" and ?vs = "[sysenter_fin_addr (sym s), r_ebp r]"
  let ?K = "kstack (threads s c)"
  let ?s1 = "s\<lparr>esp := stack_addr (sym s) c 1008, threads := (threads s)(c := (threads s c)\<lparr>kstack := push_words ?K ?us 1024\<rparr>)\<rparr>"
  have l: "length ?us = 16" by (simp add: return_context_def SAVE_ALL_def)
  have 1: "push_all ?us (s\<lparr>esp := msr_esp s\<rparr>) = Some ?s1"
    using push_all_eq [of "s\<lparr>esp := msr_esp s\<rparr>" c 1024 ?us] lay c top l by simp
  have "push_words (push_words ?K ?us 1024) ?vs 1008 = push_words ?K (call_frame (sym s) r) 1024"
    using push_words_append [of ?us ?vs 1024 ?K] l by (simp add: call_frame_def)
  then have 2: "push_all ?vs ?s1 = Some (s\<lparr>esp := stack_addr (sym s) c 1006, threads := (threads s)
      (c := (threads s c)\<lparr>kstack := push_words ?K (call_frame (sym s) r) 1024\<rparr>)\<rparr>)"
    using push_all_eq [of ?s1 c 1008 ?vs] lay c by simp
  have sy: "sym ?s1 = sym s" by simp
  show "system_call_handler r s = dispatch (r_eax r) (r_ebx r) (r_ecx r) (r_edx r) (in_call r c s)"
    by (simp only: system_call_handler_def 1 sy 2 Option.bind.simps) (simp add: in_call_def)
  show "kinv (in_call r c s) Q M c cp"
    using assms kinv_view_cong [of "in_call r c s" s Q M c cp] by (simp add: in_call_def)
  have slot: "stack_slot (sym s) (stack_addr (sym s) c 1006) = Some (c, 1006)"
    using lay c by (simp add: stack_slot_addr)
  then show "in_kernel (in_call r c s) c"
    using stack_slot_thread [OF slot] by (simp add: in_kernel_def current_t_def saved_ok_def in_call_def)
  show "stack_slot (sym (in_call r c s)) (ebp (in_call r c s)) = Some (c, Suc 1005)"
    using slot by (simp add: in_call_def)
qed

section \<open>Reading the frame\<close>

lemma stack_addr_steps [simp]:
  "stack_addr \<sigma> u k + 4 = stack_addr \<sigma> u (k + 1)" "stack_addr \<sigma> u k + 8 = stack_addr \<sigma> u (k + 2)"
  "stack_addr \<sigma> u k + 12 = stack_addr \<sigma> u (k + 3)"
  by (simp_all add: stack_addr_def algebra_simps)

lemma load_stack_at:
  "layout_ok (sym s) \<Longrightarrow> u < 22 \<Longrightarrow> k < 1024 \<Longrightarrow> load_stack (stack_addr (sym s) u k) s = Some (kstack (threads s u) k)"
  by (simp add: load_stack_def stack_slot_addr)

lemma sysexit_at:
  assumes "layout_ok (sym s)" and "u < 22" and "k + 14 < 1024"
  shows "sysexit_context (stack_addr (sym s) u k) s = Some (kstack (threads s u) (k + 11), kstack (threads s u) (k + 14))"
proof -
  have "stack_addr (sym s) u k + 44 = stack_addr (sym s) u (k + 11)" "stack_addr (sym s) u k + 44 + 12 = stack_addr (sym s) u (k + 14)"
    by (simp_all add: stack_addr_def algebra_simps)
  then show ?thesis using assms by (simp add: sysexit_context_def load_stack_at)
qed

lemma frame_read:
  assumes "layout_ok (sym s)" and "u < 22" and "kstack (threads s u) = push_words K (call_frame (sym s) r) 1024"
  shows "load_stack (stack_addr (sym s) u 1006) s = Some (r_ebp r)"
    and "load_stack (stack_addr (sym s) u 1007) s = Some (sysenter_fin_addr (sym s))"
    and "sysexit_context (stack_addr (sym s) u 1008) s = Some (ret_addr r, r_ebp r)"
  using assms by (simp_all add: load_stack_at sysexit_at frame_words)

section \<open>Correctness\<close>

text \<open>C22: entering by \<open>sysenter\<close>: whatever the user's registers are, the handler builds its frame of
  18 words on the kernel stack of the running thread and starts the call \<open>%eax\<close> selects in a state
  that satisfies the invariant; the frame leads back through \<open>sysenter_fin\<close> to the user's return
  address, with the user's stack pointer. Nothing but that stack has changed.\<close>

theorem call_frame_leads_back:
  assumes "kinv s Q M c cp"
  shows "\<exists>s2. system_call_handler r s = dispatch (r_eax r) (r_ebx r) (r_ecx r) (r_edx r) s2
    \<and> kinv s2 Q M c cp \<and> in_kernel s2 c \<and> same_rest s s2 \<and> tasks s2 = tasks s \<and> heap s2 = heap s
    \<and> (\<forall>x. x \<noteq> c \<longrightarrow> threads s2 x = threads s x)
    \<and> load_stack (ebp s2) s2 = Some (r_ebp r) \<and> load_stack (ebp s2 + 4) s2 = Some (sysenter_fin_addr (sym s))
    \<and> sysexit_context (ebp s2 + 8) s2 = Some (ret_addr r, r_ebp r)"
proof -
  note km = kinv_kmid [OF assms] and e = system_call_handler_eq [OF assms, of r]
  let ?s = "in_call r c s"
  have lay: "layout_ok (sym ?s)" and c: "c < 22" using kmid_layout [OF km] kmid_c [OF km] by (simp_all add: in_call_def)
  have K: "kstack (threads ?s c) = push_words (kstack (threads s c)) (call_frame (sym ?s) r) 1024"
    by (simp add: in_call_def)
  have b: "ebp ?s = stack_addr (sym ?s) c 1006" "sym ?s = sym s" by (simp_all add: in_call_def)
  have "same_rest s ?s \<and> tasks ?s = tasks s \<and> heap ?s = heap s \<and> (\<forall>x. x \<noteq> c \<longrightarrow> threads ?s x = threads s x)"
    by (simp add: in_call_def same_rest_def)
  with e(1-3) frame_read [OF lay c K] show ?thesis
    by (intro exI [of _ ?s]) (simp add: b)
qed

lemma call_frame_leads_back_witness:
  "\<exists>s2. kinv s2 boot_queues {} 1 1 \<and> sysexit_context (ebp s2 + 8) s2 = Some (0x100040, 0x11bf00)"
proof -
  let ?r = "\<lparr>r_eax = 20, r_ebx = 0, r_ecx = 0, r_edx = 0, r_esi = 0, r_edi = 0, r_ebp = 0x11bf00, r_ds = 0x2b, r_es = 0x2b,
    r_fs = 0x2b, r_gs = 0x2b, r_eflags = 0x202, ret_addr = 0x100040\<rparr>"
  from call_frame_leads_back [OF booted_kinv, of ?r] show ?thesis by auto
qed

text \<open>How a created thread leaves the kernel.\<close>

lemma created_context:
  assumes "layout_ok (sym s)" and "u < 22"
    and "s' = created (in_call r c s) c cp u start page f pm m h"
  shows "load_stack (register_esp (threads s' u)) s' = Some 0"
    and "load_stack (register_esp (threads s' u) + 4) s' = Some (sysenter_fin_addr (sym s))"
    and "sysexit_context (register_esp (threads s' u) + 8) s' = Some (start, 4096 + 4096 * of_nat page)"
proof -
  have lay: "layout_ok (sym s')" and sy: "sym s' = sym s" using assms(1,3) by (simp_all add: created_def in_call_def)
  have K: "kstack (threads s' u) 1006 = 0" "kstack (threads s' u) 1007 = sysenter_fin_addr (sym s)"
    "kstack (threads s' u) 1019 = start" "kstack (threads s' u) 1022 = 4096 + 4096 * of_nat page"
    using frame_words(3) [of "kstack (threads s c)" "sym s" r]
    by (simp_all add: assms(3) created_def created_thread_def in_call_def)
  have E: "register_esp (threads s' u) = stack_addr (sym s') u 1006" by (simp add: assms(3) created_def in_call_def)
  from K show "load_stack (register_esp (threads s' u)) s' = Some 0"
    "load_stack (register_esp (threads s' u) + 4) s' = Some (sysenter_fin_addr (sym s))"
    "sysexit_context (register_esp (threads s' u) + 8) s' = Some (start, 4096 + 4096 * of_nat page)"
    by (simp_all add: E load_stack_at [OF lay assms(2)] sysexit_at [OF lay assms(2)])
qed

text \<open>C21: a thread made by the system call \<open>sys_pthread_create\<close> starts at its routine: when it is
  switched to, it takes 0 as frame pointer, goes through \<open>sysenter_fin\<close> and leaves the kernel for
  the routine with its stack pointer at the end of a page that is mapped, writable, to a frame that
  was free if there was one.\<close>

theorem thread_starts_at_routine:
  assumes "kinv s Q M c cp" and "r_eax r = 12" and "access_ok VERIFY_READ (r_ecx r) 4"
    and "Q Free_threadqueue = ThreadList u # us" and "find_free_page (pagusr_table s cp) 284 = Some page"
    and "user_word (pagusr_table s cp) (r_ebx r)"
  shows "\<exists>s'. system_call_handler r s = Some (0, s')
    \<and> load_stack (register_esp (threads s' u)) s' = Some 0
    \<and> load_stack (register_esp (threads s' u) + 4) s' = Some (sysenter_fin_addr (sym s))
    \<and> sysexit_context (register_esp (threads s' u) + 8) s' = Some (r_ecx r, 4096 + 4096 * of_nat page)
    \<and> (free_frames (phys_mem s) \<noteq> {} \<longrightarrow> (\<exists>f \<in> free_frames (phys_mem s).
        translate (pagusr_table s' cp) True (4096 * of_nat page) = Some (f, 0)))"
proof -
  note km = kinv_kmid [OF assms(1)] and e = system_call_handler_eq [OF assms(1), of r]
  let ?s = "in_call r c s"
  obtain f pm where a: "alloc_frame (phys_mem ?s) = (f, pm)" by fastforce
  have page: "find_free_page (pagusr_table ?s cp) 284 = Some page" "user_word (pagusr_table ?s cp) (r_ebx r)"
    using assms(5,6) by (simp_all add: in_call_def)
  obtain h m where s': "sys_pthread_create (r_ebx r) (r_ecx r) (r_edx r) ?s =
      Some (0, created ?s c cp u (r_ecx r) page f pm m h)"
    by (rule sys_pthread_create_step [OF e(2,3) assms(3,4) page(1) a page(2)])
  let ?s' = "created ?s c cp u (r_ecx r) page f pm m h"
  have call: "system_call_handler r s = Some (0, ?s')"
    unfolding e(1) using s' assms(2) by (simp add: dispatch_def sys_call_table_def)
  have u: "u < 22" using kmid_member [OF km heads_simps(3), of "ThreadList u"] assms(4) by simp
  note ctx = created_context [OF kmid_layout [OF km] u refl, of r c cp "r_ecx r" page f pm m h]
  have p: "page < 1024" using find_free_page_spec [OF assms(5)] by simp
  have "\<exists>k \<in> free_frames (phys_mem s). translate (pagusr_table ?s' cp) True (4096 * of_nat page) = Some (k, 0)"
    if some: "free_frames (phys_mem s) \<noteq> {}"
  proof -
    have e': "phys_mem ?s = phys_mem s" by (simp add: in_call_def)
    obtain k where k: "k \<in> free_frames (phys_mem s)" "f = of_nat k"
      using fp.alloc_some [OF some] a e' by auto
    have small: "unat f < 2 ^ 20" using k fp.avail_small [OF k(1)] by (simp add: unat_of_nat32)
    have "unat (4096 * of_nat page :: u32) = 4096 * page"
      using p unat_of_nat32 [of "4096 * page"] by simp
    moreover have "pagusr_table ?s' cp = set_ss_pag (pagusr_table s cp) page f"
      by (simp add: created_def in_call_def set_ss_pag_eq)
    ultimately have "translate (pagusr_table ?s' cp) True (4096 * of_nat page) = Some (unat f, 0)"
      using translate_set_ss_pag [of page f "4096 * of_nat page"] p small by simp
    then show ?thesis using k fp.avail_small [OF k(1)] by (auto simp: unat_of_nat32)
  qed
  with call ctx show ?thesis by (intro exI [of _ ?s']) simp
qed

lemma thread_starts_at_routine_witness:
  "\<exists>r s'. r_ecx r = 0x100000 \<and> system_call_handler r booted = Some (0, s')
     \<and> sysexit_context (register_esp (threads s' 2) + 8) s' = Some (0x100000, 0x11d000)"
proof -
  let ?r = "\<lparr>r_eax = 12, r_ebx = 0x108000, r_ecx = 0x100000, r_edx = 0, r_esi = 0, r_edi = 0, r_ebp = 0x11bf00,
    r_ds = 0x2b, r_es = 0x2b, r_fs = 0x2b, r_gs = 0x2b, r_eflags = 0x202, ret_addr = 0x100040\<rparr>"
  have ok: "access_ok VERIFY_READ (r_ecx ?r) 4" by (simp add: access_ok_range)
  have w: "user_word (pagusr_table booted 1) (r_ebx ?r)" using booted_pages(2) [of "0x108000"] by simp
  have e: "r_eax ?r = 12" by simp
  show ?thesis
    by (intro exI [of _ ?r]) (use thread_starts_at_routine [OF booted_kinv e ok boot_free(2) booted_pages(1) w] in auto)
qed

text \<open>C20: \<open>fork\<close> returns twice. After the system call parent and child lead back to the same return
  address with the same user stack pointer: the parent through its frame with the child's PID, the
  child through the frame pointer and \<open>ret_from_fork\<close>, which returns 0, into a copy of that frame.\<close>

theorem fork_returns_twice:
  assumes "kinv s Q M c cp" and "r_eax r = 2"
    and "Q Freequeue = TaskList i # fs" and "Q Free_threadqueue = ThreadList u # us"
    and "20 \<le> card (free_frames (phys_mem s))" and "data_mapped s cp"
  shows "\<exists>s'. system_call_handler r s = Some (global_PID s + 1, s')
    \<and> thread_p (threads s' u) = Some i \<and> PID (tasks s' i) = global_PID s + 1
    \<and> load_stack (register_esp (threads s' u)) s' = Some (r_ebp r)
    \<and> load_stack (register_esp (threads s' u) + 4) s' = Some (ret_from_fork_addr (sym s))
    \<and> load_stack (register_esp (threads s' u) + 8) s' = Some (sysenter_fin_addr (sym s))
    \<and> sysexit_context (register_esp (threads s' u) + 12) s' = Some (ret_addr r, r_ebp r)
    \<and> load_stack (ebp s') s' = Some (r_ebp r) \<and> load_stack (ebp s' + 4) s' = Some (sysenter_fin_addr (sym s))
    \<and> sysexit_context (ebp s' + 8) s' = Some (ret_addr r, r_ebp r)"
proof -
  note km = kinv_kmid [OF assms(1)] and e = system_call_handler_eq [OF assms(1), of r]
  let ?s = "in_call r c s"
  obtain ds pm where f: "take_frames alloc_frame 20 (phys_mem ?s) = (ds, pm)" by fastforce
  have d: "20 \<le> card (free_frames (phys_mem ?s))" "data_mapped ?s cp"
    using assms(5,6) by (simp_all add: in_call_def data_mapped_def)
  obtain h m where s': "sys_fork ?s = Some (global_PID ?s + 1, forked ?s c cp i u 1005 ds pm m h)"
    by (rule sys_fork_step [OF e(2-4) assms(3,4) f d])
  let ?s' = "forked ?s c cp i u 1005 ds pm m h"
  have call: "system_call_handler r s = Some (global_PID s + 1, ?s')"
    unfolding e(1) using s' assms(2) by (simp add: dispatch_def sys_call_table_def) (simp add: in_call_def)
  have lay: "layout_ok (sym ?s')" and sy: "sym ?s' = sym s" "sym ?s = sym s"
    using kmid_layout [OF km] by (simp_all add: forked_def in_call_def)
  have u: "u < 22" "c < 22" using kmid_member [OF km heads_simps(3), of "ThreadList u"] assms(4) kmid_c [OF km] by simp_all
  have qu: "queued (heads M) Q (ThreadList u)" using assms(4) by (intro queuedI [of Free_threadqueue]) simp_all
  then have ne: "u \<noteq> c" using kinv_thread [OF assms(1)] by (auto simp: thread_running_def)
  let ?K = "push_words (kstack (threads s c)) (call_frame (sym s) r) 1024"
  have Kc: "kstack (threads ?s' c) = push_words (kstack (threads s c)) (call_frame (sym ?s') r) 1024"
    using ne by (simp add: forked_def in_call_def)
  have Ku: "kstack (threads ?s' u) = ?K(Suc 1005 := ret_from_fork_addr (sym s), 1005 := ?K (Suc 1005))"
    by (simp add: forked_def in_call_def child_thread_def fork_frame_def)
  have E: "register_esp (threads ?s' u) = stack_addr (sym ?s') u 1005" "ebp ?s' = stack_addr (sym ?s') c 1006"
    "thread_p (threads ?s' u) = Some i" "PID (tasks ?s' i) = global_PID s + 1"
    by (simp_all add: forked_def child_thread_def fork_frame_def in_call_def)
  show ?thesis
    by (intro exI [of _ ?s']) (simp add: call E load_stack_at [OF lay u(1)] sysexit_at [OF lay u(1)]
        frame_read [OF lay u(2) Kc] Ku frame_words, simp add: sy)
qed


lemma fork_returns_twice_witness:
  "\<exists>r s'. ret_addr r = 0x100040 \<and> system_call_handler r booted = Some (1001, s')
     \<and> sysexit_context (register_esp (threads s' 2) + 12) s' = Some (0x100040, 0x11bf00)"
proof -
  let ?r = "\<lparr>r_eax = 2, r_ebx = 0, r_ecx = 0, r_edx = 0, r_esi = 0, r_edi = 0, r_ebp = 0x11bf00,
    r_ds = 0x2b, r_es = 0x2b, r_fs = 0x2b, r_gs = 0x2b, r_eflags = 0x202, ret_addr = 0x100040\<rparr>"
  have e: "r_eax ?r = 2" by simp
  have d: "20 \<le> card (free_frames (phys_mem booted))" "data_mapped booted 1"
    using entered_data by (simp_all add: data_mapped_def)
  have g: "global_PID booted = 1000" by (rule booted_facts)
  show ?thesis
    by (intro exI [of _ ?r]) (use fork_returns_twice [OF booted_kinv e boot_free d] g in auto)
qed

end
