(* ===== verification/Libc.thy ===== *)
theory Libc
  imports Utils
begin

text \<open>
  The user's library (\<open>libc.c\<close>): \<open>itoa\<close>, \<open>strlen\<close> and \<open>perror\<close> on the process's memory, and
  what the stubs of \<open>user-utils.S\<close> make of the value a system call returns. An \<open>int\<close> is its
  mathematical value, between \<open>- 2 ^ 31\<close> and \<open>2 ^ 31 - 1\<close>; no operation here leaves that range.
\<close>

section \<open>Definitions\<close>

text \<open>The first loop of \<open>itoa\<close>: the digits, the last one first. The result is the final \<open>i\<close>.\<close>

function itoa_digits :: "int \<Rightarrow> u32 \<Rightarrow> nat \<Rightarrow> memory \<Rightarrow> nat \<times> memory" where
  "itoa_digits a b i m =
     (if a > 0 then itoa_digits (a div 10) b (i + 1) (m(b + of_nat i := of_int (a mod 10 + 48))) else (i, m))"
  by pat_completeness auto
termination
  by (relation "measure (\<lambda>(a, b, i, m). nat a)") auto

declare itoa_digits.simps [simp del]

definition itoa_swap :: "u32 \<Rightarrow> nat \<Rightarrow> nat \<Rightarrow> memory \<Rightarrow> memory" where
  "itoa_swap b i i1 m =
     (let c = m (b + of_nat i1);
          m1 = m(b + of_nat i1 := m (b + of_nat (i - i1 - 1)))
      in m1(b + of_nat (i - i1 - 1) := c))"

definition itoa :: "int \<Rightarrow> u32 \<Rightarrow> memory \<Rightarrow> memory" where
  "itoa a b m =
     (if a = 0 then m(b := 48, b + 1 := 0)
      else let (i, m1) = itoa_digits a b 0 m;
               m2 = for_each 0 (i div 2) (itoa_swap b i) m1
           in m2(b + of_nat i := 0))"

partial_function (option) strlen_from :: "memory \<Rightarrow> u32 \<Rightarrow> nat \<Rightarrow> nat option" where
  "strlen_from m a i = (if m (a + of_nat i) \<noteq> 0 then strlen_from m a (i + 1) else Some i)"

definition strlen :: "u32 \<Rightarrow> memory \<Rightarrow> nat option" where
  "strlen a m = strlen_from m a 0"

text \<open>\<open>perror\<close> with its buffer at \<open>buffer\<close>: the memory and the arguments of \<open>write\<close>.\<close>

definition perror :: "int \<Rightarrow> u32 \<Rightarrow> memory \<Rightarrow> (memory \<times> u32 \<times> u32 \<times> nat) option" where
  "perror errno buffer m = (let m1 = itoa errno buffer m in map_option (\<lambda>n. (m1, 1, buffer, n)) (strlen buffer m1))"

text \<open>The end of the stubs: a negative result becomes -1 and is left, negated, in \<open>errno\<close>.\<close>

definition stub_return :: "u32 \<Rightarrow> u32 \<Rightarrow> u32 \<times> u32" where
  "stub_return eax errno = (if sint eax < 0 then (-1, - eax) else (eax, errno))"

section \<open>Decimal notation\<close>

fun decimal :: "nat \<Rightarrow> u8 list" where
  "decimal n = (if n < 10 then [of_nat (48 + n)] else decimal (n div 10) @ [of_nat (48 + n mod 10)])"

declare decimal.simps [simp del]

definition decimal_value :: "u8 list \<Rightarrow> nat" where
  "decimal_value = foldl (\<lambda>v d. 10 * v + (unat d - 48)) 0"

lemma digit_value: "d < 10 \<Longrightarrow> unat (of_nat (48 + d) :: u8) = 48 + d"
  by (simp add: unsigned_of_nat take_bit_nat_eq_self del: of_nat_add)

lemma decimal_value_decimal: "decimal_value (decimal n) = n"
proof (induction n rule: decimal.induct)
  case (1 n)
  show ?case
  proof (cases "n < 10")
    case True
    then show ?thesis using digit_value [OF True] by (simp add: decimal.simps [of n] decimal_value_def)
  next
    case False
    have "n mod 10 < 10" by simp
    from digit_value [OF this] 1 [OF False] False show ?thesis
      by (simp add: decimal.simps [of n] decimal_value_def)
  qed
qed

lemma decimal_length: "n < 10 ^ Suc k \<Longrightarrow> length (decimal n) \<le> Suc k"
proof (induction k arbitrary: n)
  case 0
  then show ?case by (simp add: decimal.simps [of n])
next
  case (Suc k)
  have "n div 10 < 10 ^ Suc k" using Suc.prems by (simp add: less_mult_imp_div_less mult.commute)
  with Suc.IH [of "n div 10"] show ?case by (simp add: decimal.simps [of n])
qed

lemma decimal_nonzero: "0 \<notin> set (decimal n)"
proof (induction n rule: decimal.induct)
  case (1 n)
  have d: "(of_nat (48 + d) :: u8) \<noteq> 0" if "d < 10" for d
    using digit_value [OF that] by (metis add_is_0 unat_0 zero_neq_numeral)
  show ?case
    using 1 d [of n] d [of "n mod 10"] by (cases "n < 10") (simp_all add: decimal.simps [of n])
qed

lemma decimal_nonempty: "decimal n \<noteq> []"
  by (simp add: decimal.simps [of n])

section \<open>Memory as a list\<close>

text \<open>The \<open>n\<close> bytes at \<open>b\<close> are \<open>xs\<close>.\<close>

definition bytes_at :: "memory \<Rightarrow> u32 \<Rightarrow> u8 list \<Rightarrow> bool" where
  "bytes_at m b xs \<longleftrightarrow> (\<forall>i < length xs. m (b + of_nat i) = xs ! i)"

lemma offset_eq_iff: "i < 2 ^ 32 \<Longrightarrow> j < 2 ^ 32 \<Longrightarrow> b + of_nat i = b + (of_nat j :: u32) \<longleftrightarrow> i = j"
  by (metis add_left_cancel unat_of_nat32)

lemma strlen_bytes:
  assumes "bytes_at m b (xs @ [0])" and "0 \<notin> set xs"
  shows "strlen b m = Some (length xs)"
proof -
  have at: "m (b + of_nat i) = (xs @ [0]) ! i" if "i \<le> length xs" for i
    using assms(1) that by (simp add: bytes_at_def)
  have "strlen_from m b i = Some (length xs)" if "i \<le> length xs" for i
    using that
  proof (induction "length xs - i" arbitrary: i)
    case 0
    then have "i = length xs" by simp
    have "(xs @ [0]) ! length xs = 0" by simp
    then show ?case
      using at [of "length xs"] \<open>i = length xs\<close> by (simp add: strlen_from.simps [of m b "length xs"])
  next
    case (Suc k)
    then have i: "i < length xs" by simp
    then have "xs ! i \<noteq> 0" using assms(2) by (metis nth_mem)
    then have "strlen_from m b i = strlen_from m b (i + 1)"
      using at [of i] i by (simp add: strlen_from.simps [of m b i] nth_append)
    also have "\<dots> = Some (length xs)" using Suc i by (intro Suc.hyps) simp_all
    finally show ?case .
  qed
  then show ?thesis by (simp add: strlen_def)
qed

section \<open>What \<open>itoa\<close> writes\<close>

definition digits_back :: "nat \<Rightarrow> u8 list" where
  "digits_back n = (if n = 0 then [] else rev (decimal n))"

lemma digits_back_step: "0 < n \<Longrightarrow> digits_back n = of_nat (48 + n mod 10) # digits_back (n div 10)"
  by (cases "n < 10") (simp_all add: digits_back_def decimal.simps [of n] div_eq_0_iff)

lemma itoa_digits_spec:
  assumes "i + length (digits_back n) < 2 ^ 32"
  shows "\<exists>m'. itoa_digits (int n) b i m = (i + length (digits_back n), m')
    \<and> (\<forall>j < length (digits_back n). m' (b + of_nat (i + j)) = digits_back n ! j)
    \<and> (\<forall>x. (\<forall>j < length (digits_back n). x \<noteq> b + of_nat (i + j)) \<longrightarrow> m' x = m x)"
  using assms
proof (induction n arbitrary: i m rule: less_induct)
  case (less n)
  show ?case
  proof (cases "n = 0")
    case True
    then have "itoa_digits (int n) b i m = (i, m)" and "digits_back n = []"
      by (simp_all add: itoa_digits.simps [of 0] digits_back_def)
    then show ?thesis by (intro exI [of _ m]) simp
  next
    case False
    let ?d = "of_nat (48 + n mod 10) :: u8" and ?D = "digits_back (n div 10)"
    have ds: "digits_back n = ?d # ?D" using False by (intro digits_back_step) simp
    have l: "i + 1 + length ?D < 2 ^ 32" using less.prems ds by simp
    have lt: "n div 10 < n" using False by simp
    let ?m = "m(b + of_nat i := ?d)"
    obtain m' where m': "itoa_digits (int (n div 10)) b (i + 1) ?m = (i + 1 + length ?D, m')"
      "\<And>j. j < length ?D \<Longrightarrow> m' (b + of_nat (i + 1 + j)) = ?D ! j"
      "\<And>x. \<forall>j < length ?D. x \<noteq> b + of_nat (i + 1 + j) \<Longrightarrow> m' x = ?m x"
      using less.IH [OF lt l, of ?m] by blast
    have "int n mod 10 + 48 = int (48 + n mod 10)" by (simp add: zmod_int)
    then have "(of_int (int n mod 10 + 48) :: u8) = ?d" by (simp only: of_int_of_nat_eq)
    then have "itoa_digits (int n) b i m = itoa_digits (int (n div 10)) b (i + 1) ?m"
      using False by (simp add: itoa_digits.simps [of "int n" b i m] zdiv_int add.commute)
    with m'(1) ds have run: "itoa_digits (int n) b i m = (i + length (digits_back n), m')" by simp
    have "b + of_nat i \<noteq> b + of_nat (i + 1 + j)" if "j < length ?D" for j
      using that l offset_eq_iff [of i "i + 1 + j" b] by simp
    then have first: "m' (b + of_nat i) = ?d" using m'(3) [of "b + of_nat i"] by simp
    have "m' (b + of_nat (i + j)) = digits_back n ! j" if "j < length (digits_back n)" for j
      using that first m'(2) [of "j - 1"] ds by (cases j) simp_all
    moreover have "m' x = m x" if x: "\<forall>j < length (digits_back n). x \<noteq> b + of_nat (i + j)" for x
    proof -
      have "x \<noteq> b + of_nat (i + 1 + j)" if "j < length ?D" for j
        using spec [OF x, of "Suc j"] that ds by simp
      moreover have "x \<noteq> b + of_nat i" using spec [OF x, of 0] ds by simp
      ultimately show ?thesis using m'(3) [of x] by simp
    qed
    ultimately show ?thesis using run by blast
  qed
qed

lemma itoa_swap_spec:
  assumes "length xs < 2 ^ 32" and "bytes_at m b xs" and "i = length xs"
  shows "bytes_at (for_each 0 (i div 2) (itoa_swap b i) m) b (rev xs)"
proof -
  let ?I = "\<lambda>k m'. \<forall>j < i. m' (b + of_nat j) = (if j < k \<or> i - k \<le> j then xs ! (i - 1 - j) else xs ! j)"
  have "?I (i div 2) (for_each 0 (i div 2) (itoa_swap b i) m)"
  proof (rule for_each_invariant [where I = ?I])
    show "?I 0 m" using assms(2,3) by (simp add: bytes_at_def)
  next
    fix k m' assume k: "k < i div 2" and I: "?I k m'"
    have ki: "k < i" "i - k - 1 < i" "k \<noteq> i - k - 1" using k by simp_all
    have "\<not> (k < k \<or> i - k \<le> k)" and "\<not> (i - k - 1 < k \<or> i - k \<le> i - k - 1)" using k by linarith+
    then have at: "m' (b + of_nat k) = xs ! k" "m' (b + of_nat (i - k - 1)) = xs ! (i - k - 1)"
      using I [rule_format, OF ki(1)] I [rule_format, OF ki(2)] by presburger+
    have ne: "b + of_nat j \<noteq> b + of_nat j'" if "j < i" "j' < i" "j \<noteq> j'" for j j'
      using that assms(1,3) offset_eq_iff [of j j' b] by simp
    show "?I (Suc k) (itoa_swap b i k m')"
    proof (intro allI impI)
      fix j assume j: "j < i"
      consider "j = k" | "j = i - k - 1" "j \<noteq> k" | "j \<noteq> k" "j \<noteq> i - k - 1" by blast
      then show "itoa_swap b i k m' (b + of_nat j) =
          (if j < Suc k \<or> i - Suc k \<le> j then xs ! (i - 1 - j) else xs ! j)"
      proof cases
        case 1
        then show ?thesis using ne [OF ki] at by (simp add: itoa_swap_def Let_def)
      next
        case 2
        have "i - 1 - (i - k - 1) = k" using ki by simp
        have "itoa_swap b i k m' (b + of_nat (i - k - 1)) = xs ! k" using at(1) by (simp only: itoa_swap_def Let_def fun_upd_same)
        moreover have "i - Suc k \<le> i - k - 1" by simp
        ultimately show ?thesis using 2(1) \<open>i - 1 - (i - k - 1) = k\<close> by presburger
      next
        case 3
        have "itoa_swap b i k m' (b + of_nat j) = m' (b + of_nat j)"
          using ne [OF j ki(1)] ne [OF j ki(2)] 3 by (simp add: itoa_swap_def Let_def)
        moreover have "j < Suc k \<or> i - Suc k \<le> j \<longleftrightarrow> j < k \<or> i - k \<le> j" using 3 j by auto
        ultimately show ?thesis using I j by simp
      qed
    qed
  qed simp
  moreover have "xs ! j = xs ! (i - 1 - j)" if "\<not> (j < i div 2 \<or> i - i div 2 \<le> j)" "j < i" for j
  proof -
    have "i div 2 * 2 + i mod 2 = i" and "i mod 2 < 2" by simp_all
    then have "i - 1 - j = j" using that by linarith
    then show ?thesis by simp
  qed
  ultimately have "for_each 0 (i div 2) (itoa_swap b i) m (b + of_nat j) = xs ! (i - 1 - j)" if "j < i" for j
    using that by presburger
  then show ?thesis using assms(3) by (simp add: bytes_at_def rev_nth)
qed

lemma itoa_bytes:
  assumes "length (decimal n) < 2 ^ 32 - 1"
  shows "bytes_at (itoa (int n) b m) b (decimal n @ [0])"
proof (cases "n = 0")
  case True
  have "decimal 0 = [48]" by (simp add: decimal.simps)
  moreover have "b + 1 \<noteq> b" by simp
  ultimately show ?thesis using True by (simp add: itoa_def bytes_at_def nth_Cons' less_Suc_eq)
next
  case False
  let ?D = "digits_back n"
  have D: "rev ?D = decimal n" "length ?D = length (decimal n)" using False by (simp_all add: digits_back_def)
  have l: "0 + length ?D < 2 ^ 32" using assms D by simp
  obtain m1 where m1: "itoa_digits (int n) b 0 m = (length ?D, m1)"
    "\<forall>j < length ?D. m1 (b + of_nat j) = ?D ! j" using itoa_digits_spec [OF l, of b m] by auto
  have "bytes_at m1 b ?D" using m1(2) by (simp add: bytes_at_def)
  then have sw: "bytes_at (for_each 0 (length ?D div 2) (itoa_swap b (length ?D)) m1) b (decimal n)"
    using itoa_swap_spec [of ?D m1 b "length ?D"] l D(1) by simp
  have e: "itoa (int n) b m = (for_each 0 (length ?D div 2) (itoa_swap b (length ?D)) m1)(b + of_nat (length ?D) := 0)"
    using False m1(1) by (simp add: itoa_def)
  have "(itoa (int n) b m) (b + of_nat j) = (decimal n @ [0]) ! j" if "j < Suc (length (decimal n))" for j
  proof (cases "j = length (decimal n)")
    case True
    then show ?thesis using D(2) by (simp add: e)
  next
    case False
    then have j: "j < length (decimal n)" using that by simp
    then have "b + of_nat j \<noteq> b + of_nat (length ?D)"
      using offset_eq_iff [of j "length ?D" b] assms D(2) by simp
    then show ?thesis using sw j by (simp add: e bytes_at_def nth_append)
  qed
  then show ?thesis by (simp add: bytes_at_def)
qed

section \<open>Correctness\<close>

text \<open>C40: \<open>itoa\<close> of a number that is not negative writes its decimal notation and a zero, so that
  \<open>strlen\<close> returns the number of digits and the digits read back give the number. For a negative
  number the loop does not run: the result is the empty string, and \<open>perror\<close> prints nothing.\<close>

theorem itoa_decimal:
  assumes "- (2 ^ 31) \<le> a" and "a < 2 ^ 31"
  shows "(0 \<le> a \<longrightarrow> bytes_at (itoa a b m) b (decimal (nat a) @ [0])
      \<and> strlen b (itoa a b m) = Some (length (decimal (nat a))) \<and> decimal_value (decimal (nat a)) = nat a
      \<and> perror a b m = Some (itoa a b m, 1, b, length (decimal (nat a))))
    \<and> (a < 0 \<longrightarrow> itoa a b m = m(b := 0) \<and> strlen b (itoa a b m) = Some 0)"
proof (intro conjI impI)
  assume a: "0 \<le> a"
  then have n: "int (nat a) = a" by simp
  have "nat a < 10 ^ Suc 9" using assms(2) by simp
  then have "length (decimal (nat a)) \<le> 10" using decimal_length [of "nat a" 9] by simp
  then show bytes: "bytes_at (itoa a b m) b (decimal (nat a) @ [0])"
    using itoa_bytes [of "nat a" b m] n by simp
  show s: "strlen b (itoa a b m) = Some (length (decimal (nat a)))"
    by (rule strlen_bytes [OF bytes decimal_nonzero])
  show "decimal_value (decimal (nat a)) = nat a" by (rule decimal_value_decimal)
  show "perror a b m = Some (itoa a b m, 1, b, length (decimal (nat a)))" using s by (simp add: perror_def)
next
  assume "a < 0"
  then show e: "itoa a b m = m(b := 0)" by (simp add: itoa_def itoa_digits.simps [of a])
  have "bytes_at (itoa a b m) b ([] @ [0])" by (simp add: e bytes_at_def)
  from strlen_bytes [OF this] show "strlen b (itoa a b m) = Some 0" by simp
qed

lemma itoa_decimal_witness:
  "strlen 0x108000 (itoa 205 0x108000 (\<lambda>_. 0)) = Some 3 \<and> strlen 0x108000 (itoa (-7) 0x108000 (\<lambda>_. 0)) = Some 0"
proof (intro conjI)
  have "length (decimal (nat 205)) = 3" by (simp add: decimal.simps)
  then show "strlen 0x108000 (itoa 205 0x108000 (\<lambda>_. 0)) = Some 3"
    using itoa_decimal [of 205 "0x108000" "\<lambda>_. 0"] by simp
  show "strlen 0x108000 (itoa (-7) 0x108000 (\<lambda>_. 0)) = Some 0"
    using itoa_decimal [of "-7" "0x108000" "\<lambda>_. 0"] by fastforce
qed

end
