(* ===== verification/Build.thy ===== *)
theory Build
  imports BootProofs
begin

text \<open>
  The tool \<open>build.c\<close> that writes the disk image from the boot sector, the system and the user
  program. Files are lists of bytes, a name without a file cannot be opened, and a directory
  can be opened but not read. The output takes \<open>o_room\<close> bytes, after that writes are
  short; a pipe takes no seeks. Every call of \<open>die\<close> is a value of \<open>build_error\<close>; the messages to
  the standard error of a run that completes are left out.
\<close>

section \<open>Files\<close>

datatype build_error =
    Usage
  | Unable_to_open string | Unable_to_read_header string | Non_Minix_header string
  | Illegal_data_segment string | Illegal_bss_segment string | Illegal_symbol_table string
  | Boot_block_not_512 | No_boot_flag | Write_call_failed
  | Unable_to_stat string | Error_reading string | Unexpected_EOF string | Write_failed
  | Seek_failed | Image_length_failed | System_length_failed | User_length_failed

record infile =
  st_size :: "nat option"
  f_data :: "u8 list option"

type_synonym files = "string \<Rightarrow> infile option"

record outfile =
  o_bytes :: "u8 list"
  o_pos :: nat
  o_room :: nat
  o_seek :: bool

definition read_file :: "infile \<Rightarrow> nat \<Rightarrow> nat \<Rightarrow> u8 list option" where
  "read_file f pos n = map_option (\<lambda>bs. take n (drop pos bs)) (f_data f)"

definition splice :: "nat \<Rightarrow> u8 list \<Rightarrow> u8 list \<Rightarrow> u8 list" where
  "splice pos xs bs = take pos bs @ replicate (pos - length bs) 0 @ xs @ drop (pos + length xs) bs"

text \<open>\<open>write(1, \<dots>)\<close> with the check of its result that follows every call.\<close>

definition write_out :: "build_error \<Rightarrow> u8 list \<Rightarrow> outfile \<Rightarrow> build_error + outfile" where
  "write_out e xs ou =
     (let n = min (length xs) (o_room ou - o_pos ou);
          ou' = ou\<lparr>o_bytes := splice (o_pos ou) (take n xs) (o_bytes ou), o_pos := o_pos ou + n\<rparr>
      in if n \<noteq> length xs then Inl e else Inr ou')"

text \<open>\<open>lseek(1, pos, SEEK_SET)\<close> with its check.\<close>

definition seek_out :: "nat \<Rightarrow> outfile \<Rightarrow> build_error + outfile" where
  "seek_out pos ou = (if o_seek ou then Inr (ou\<lparr>o_pos := pos\<rparr>) else Inl Seek_failed)"

definition and_then :: "'e + 'a \<Rightarrow> ('a \<Rightarrow> 'e + 'b) \<Rightarrow> 'e + 'b" where
  "and_then r f = (case r of Inl e \<Rightarrow> Inl e | Inr x \<Rightarrow> f x)"

lemma and_then_simps [simp]:
  "and_then (Inl e) f = Inl e"
  "and_then (Inr x) f = f x"
  by (simp_all add: and_then_def)

section \<open>The program\<close>

definition minix_magic :: "u8 list" where
  "minix_magic = [0x01, 0x03, 0x10, 0x04, 0x20, 0x00, 0x00, 0x00]"

definition lb :: "u8 list \<Rightarrow> nat \<Rightarrow> u32" where
  "lb bs k = ucast (bs ! (4 * k)) OR push_bit 8 (ucast (bs ! (4 * k + 1)))
     OR push_bit 16 (ucast (bs ! (4 * k + 2))) OR push_bit 24 (ucast (bs ! (4 * k + 3)))"

definition minix_open :: "files \<Rightarrow> string \<Rightarrow> build_error + infile" where
  "minix_open fs name = (case fs name of
       None \<Rightarrow> Inl (Unable_to_open name)
     | Some f \<Rightarrow> (case read_file f 0 32 of
         None \<Rightarrow> Inl (Unable_to_read_header name)
       | Some h \<Rightarrow>
           if length h \<noteq> 32 then Inl (Unable_to_read_header name)
           else if take 8 h \<noteq> minix_magic \<or> lb h 5 \<noteq> 0 then Inl (Non_Minix_header name)
           else if lb h 3 \<noteq> 0 then Inl (Illegal_data_segment name)
           else if lb h 4 \<noteq> 0 then Inl (Illegal_bss_segment name)
           else if lb h 7 \<noteq> 0 then Inl (Illegal_symbol_table name)
           else Inr f))"

text \<open>The boot sector: what is read behind the header, checked and written.\<close>

definition copy_boot :: "files \<Rightarrow> string \<Rightarrow> outfile \<Rightarrow> build_error + outfile" where
  "copy_boot fs name ou =
     and_then (minix_open fs name) (\<lambda>f.
       case read_file f 32 1024 of
         None \<Rightarrow> Inl Boot_block_not_512
       | Some b \<Rightarrow>
           if length b \<noteq> 512 then Inl Boot_block_not_512
           else if b ! 510 \<noteq> 0x55 \<or> b ! 511 \<noteq> 0xaa then Inl No_boot_flag
           else write_out Write_call_failed (b[508 := 0, 509 := 0]) ou)"

lemma chunk_size:
  "unat (if sz > 1024 then 1024 else sz :: u32) = min 1024 (unat sz)"
  "unat (sz - (if sz > 1024 then 1024 else sz :: u32)) = unat sz - min 1024 (unat sz)"
  using unat_sub [of 1024 sz] by (auto simp: word_less_nat_alt word_le_nat_alt)

lemma chunk_smaller: "(0::u32) < sz \<Longrightarrow> unat (sz - (if sz > 1024 then 1024 else sz)) < unat sz"
  unfolding chunk_size by (simp add: word_less_nat_alt)

text \<open>The copy loop, which \<open>main\<close> has twice. The size is that of \<open>fstat\<close> as an \<open>unsigned int\<close>.\<close>

function copy_chunks :: "string \<Rightarrow> infile \<Rightarrow> nat \<Rightarrow> u32 \<Rightarrow> outfile \<Rightarrow> build_error + outfile" where
  "copy_chunks name f pos sz ou =
     (if sz > 0
      then let l = (if sz > 1024 then 1024 else sz)
           in case read_file f pos (unat l) of
                None \<Rightarrow> Inl (Error_reading name)
              | Some b \<Rightarrow>
                  if length b \<noteq> unat l then Inl (Unexpected_EOF name)
                  else case write_out Write_failed b ou of
                         Inl e \<Rightarrow> Inl e
                       | Inr ou' \<Rightarrow> copy_chunks name f (pos + unat l) (sz - l) ou'
      else Inr ou)"
  by pat_completeness auto

termination
  by (relation "measure (\<lambda>(name, f, pos, sz, ou). unat sz)") (simp_all add: chunk_smaller del: if_split)

declare copy_chunks.simps [simp del]

definition copy_file :: "files \<Rightarrow> string \<Rightarrow> outfile \<Rightarrow> build_error + (u32 \<times> outfile)" where
  "copy_file fs name ou = (case fs name of
       None \<Rightarrow> Inl (Unable_to_open name)
     | Some f \<Rightarrow> (case st_size f of
         None \<Rightarrow> Inl (Unable_to_stat name)
       | Some n \<Rightarrow> and_then (copy_chunks name f 0 (of_nat n) ou) (\<lambda>ou'. Inr (of_nat n, ou'))))"

definition byte_of :: "u32 \<Rightarrow> nat \<Rightarrow> u8" where
  "byte_of w k = ucast (drop_bit (8 * k) w AND 0xff)"

definition build_main :: "files \<Rightarrow> string list \<Rightarrow> outfile \<Rightarrow> build_error + outfile" where
  "build_main fs argv ou = (case argv of
       [boot, system, user] \<Rightarrow>
         and_then (copy_boot fs boot ou) (\<lambda>ou.
         and_then (copy_file fs system ou) (\<lambda>(sys_size, ou).
         and_then (copy_file fs user ou) (\<lambda>(usr_size, ou).
         and_then (seek_out 500 ou) (\<lambda>ou.
         let im_size = (sys_size + usr_size + 15) div 16 in
         and_then (write_out Image_length_failed [byte_of im_size 0, byte_of im_size 1] ou) (\<lambda>ou.
         and_then (seek_out 512 ou) (\<lambda>ou.
         and_then (write_out System_length_failed
             [byte_of sys_size 0, byte_of sys_size 1, byte_of sys_size 2, 0] ou) (\<lambda>ou.
         and_then (seek_out 516 ou) (\<lambda>ou.
         and_then (write_out User_length_failed
             [byte_of usr_size 0, byte_of usr_size 1, byte_of usr_size 2, 0] ou) (\<lambda>ou.
         and_then (seek_out 520 ou) (\<lambda>ou.
         write_out User_length_failed
             [byte_of 0x7E1A 0, byte_of 0x7E1A 1, byte_of 0x7E1A 2, 0] ou))))))))))
     | _ \<Rightarrow> Inl Usage)"

section \<open>Writing\<close>

lemma length_splice [simp]: "pos + length xs \<le> length bs \<Longrightarrow> length (splice pos xs bs) = length bs"
  by (simp add: splice_def)

lemma nth_splice:
  "pos + length xs \<le> length bs \<Longrightarrow> j < length bs \<Longrightarrow>
   splice pos xs bs ! j = (if pos \<le> j \<and> j < pos + length xs then xs ! (j - pos) else bs ! j)"
  by (auto simp: splice_def nth_append min_def)

lemma splice_end: "splice (length bs) xs bs = bs @ xs"
  by (simp add: splice_def)

lemma write_out_fits:
  "o_pos ou + length xs \<le> o_room ou \<Longrightarrow>
   write_out e xs ou = Inr (ou\<lparr>o_bytes := splice (o_pos ou) xs (o_bytes ou), o_pos := o_pos ou + length xs\<rparr>)"
proof -
  assume "o_pos ou + length xs \<le> o_room ou"
  then have "min (length xs) (o_room ou - o_pos ou) = length xs" by simp
  then show ?thesis by (simp add: write_out_def)
qed

lemma copy_chunks_appends:
  assumes "f_data f = Some bs" and "pos + unat sz \<le> length bs"
    and "o_pos ou = length (o_bytes ou)" and "o_pos ou + unat sz \<le> o_room ou"
  shows "copy_chunks name f pos sz ou =
    Inr (ou\<lparr>o_bytes := o_bytes ou @ take (unat sz) (drop pos bs), o_pos := o_pos ou + unat sz\<rparr>)"
  using assms
proof (induction "unat sz" arbitrary: pos sz ou rule: less_induct)
  case less
  show ?case
  proof (cases "sz = 0")
    case True
    then show ?thesis by (simp add: copy_chunks.simps [of _ _ _ 0])
  next
    case False
    then have pos: "0 < sz" by (simp add: word_gt_0)
    define l where "l = (if sz > 1024 then 1024 else sz)"
    let ?b = "take (unat l) (drop pos bs)"
    let ?o = "ou\<lparr>o_bytes := o_bytes ou @ ?b, o_pos := o_pos ou + unat l\<rparr>"
    have l: "unat l \<le> unat sz" "unat (sz - l) = unat sz - unat l" "unat (sz - l) < unat sz"
      using chunk_smaller [OF pos] chunk_size [of sz] unfolding l_def [symmetric] by simp_all
    have b: "length ?b = unat l" using less.prems(2) l(1) by simp
    have w: "write_out Write_failed ?b ou = Inr ?o"
      using less.prems(3,4) l(1) b write_out_fits [of ou ?b] splice_end [of "o_bytes ou" ?b] by simp
    have "copy_chunks name f pos sz ou = copy_chunks name f (pos + unat l) (sz - l) ?o"
      using pos b w less.prems(1)
      by (simp add: copy_chunks.simps [of name f pos sz ou] Let_def read_file_def flip: l_def)
    also have "\<dots> = Inr (?o\<lparr>o_bytes := o_bytes ?o @ take (unat (sz - l)) (drop (pos + unat l) bs),
        o_pos := o_pos ?o + unat (sz - l)\<rparr>)"
      using less.prems l b by (intro less.hyps) simp_all
    finally have run: "copy_chunks name f pos sz ou = Inr (?o\<lparr>o_bytes := o_bytes ?o @ take (unat (sz - l)) (drop (pos + unat l) bs),
        o_pos := o_pos ?o + unat (sz - l)\<rparr>)" .
    moreover have "take (unat l) (drop pos bs) @ take (unat (sz - l)) (drop (pos + unat l) bs) = take (unat sz) (drop pos bs)"
      using take_add [of "unat l" "unat (sz - l)" "drop pos bs"] l by (simp add: add.commute)
    ultimately show ?thesis using l by simp
  qed
qed

section \<open>The numbers in the image\<close>

lemma bit_byte_of: "bit (byte_of w k) n \<longleftrightarrow> n < 8 \<and> bit w (8 * k + n)"
proof -
  have "bit (0xff :: u32) n \<longleftrightarrow> n < 8" for n
    using bit_mask_iff [of 8 n, where 'a = u32] by (auto simp: mask_eq_exp_minus_1)
  then show ?thesis by (auto simp: byte_of_def bit_simps)
qed

lemma word_of_bytes:
  assumes "unat w < 2 ^ 24"
  shows "ucast (byte_of w 0) OR push_bit 8 (ucast (byte_of w 1)) OR push_bit 16 (ucast (byte_of w 2))
    OR push_bit 24 (ucast (0 :: u8)) = (w :: u32)"
proof (rule bit_word_eqI)
  fix n assume n: "n < LENGTH(32)"
  have "take_bit 24 w = w" using assms by (simp add: unat_arith_simps take_bit_nat_eq_self unsigned_take_bit_eq word_eq_iff_unsigned)
  then have high: "\<not> bit w n" if "24 \<le> n" for n using that by (metis bit_take_bit_iff not_le)
  have "bit (ucast (byte_of w 0) OR push_bit 8 (ucast (byte_of w 1)) OR push_bit 16 (ucast (byte_of w 2))
      OR push_bit 24 (ucast (0 :: u8)) :: u32) n \<longleftrightarrow>
    n < 8 \<and> bit w n \<or> 8 \<le> n \<and> n < 16 \<and> bit w n \<or> 16 \<le> n \<and> n < 24 \<and> bit w n"
    using n by (auto simp: bit_simps bit_byte_of)
  also have "\<dots> \<longleftrightarrow> bit w n" using high [of n] by auto
  finally show "bit (ucast (byte_of w 0) OR push_bit 8 (ucast (byte_of w 1)) OR push_bit 16 (ucast (byte_of w 2))
      OR push_bit 24 (ucast (0 :: u8)) :: u32) n = bit w n" .
qed

lemma unat_byte_of: "unat (byte_of w k) = unat w div 2 ^ (8 * k) mod 256"
proof -
  have "byte_of w k = ucast (drop_bit (8 * k) w)"
    by (rule bit_word_eqI) (simp add: bit_byte_of bit_simps)
  then have "unat (byte_of w k) = take_bit 8 (drop_bit (8 * k) (unat w))"
    by (simp only: unsigned_ucast_eq unat_drop_bit_eq) simp
  then show ?thesis by (simp add: take_bit_eq_mod drop_bit_eq_div)
qed

section \<open>A run that completes\<close>

text \<open>A header as \<open>ld86\<close> writes it, with a boot sector behind; a file whose size is its length.\<close>

definition boot_file :: "infile \<Rightarrow> u8 list \<Rightarrow> bool" where
  "boot_file f boot \<longleftrightarrow> (\<exists>h. f_data f = Some (h @ boot) \<and> length h = 32 \<and> take 8 h = minix_magic
     \<and> lb h 3 = 0 \<and> lb h 4 = 0 \<and> lb h 5 = 0 \<and> lb h 7 = 0)"

definition plain_file :: "u8 list \<Rightarrow> infile" where
  "plain_file bs = \<lparr>st_size = Some (length bs), f_data = Some bs\<rparr>"

lemma copy_boot_eq:
  assumes "fs name = Some f" and "boot_file f boot" and "length boot = 512" and "boot ! 510 = 0x55" and "boot ! 511 = 0xaa"
    and "o_bytes ou = []" and "o_pos ou = 0" and "512 \<le> o_room ou"
  shows "copy_boot fs name ou = Inr (ou\<lparr>o_bytes := boot[508 := 0, 509 := 0], o_pos := 512\<rparr>)"
proof -
  obtain h where h: "f_data f = Some (h @ boot)" "length h = 32" "take 8 h = minix_magic"
    "lb h 3 = 0" "lb h 4 = 0" "lb h 5 = 0" "lb h 7 = 0" using assms(2) by (auto simp: boot_file_def)
  then have "minix_open fs name = Inr f" using assms(1) by (simp add: minix_open_def read_file_def)
  moreover have "read_file f 32 1024 = Some boot" using h(1,2) assms(3) by (simp add: read_file_def)
  ultimately have "copy_boot fs name ou = write_out Write_call_failed (boot[508 := 0, 509 := 0]) ou"
    using assms(3-5) by (simp add: copy_boot_def)
  also have "\<dots> = Inr (ou\<lparr>o_bytes := boot[508 := 0, 509 := 0], o_pos := 512\<rparr>)"
    using assms(3,6-8) splice_end [of "[]" "boot[508 := 0, 509 := 0]"] by (subst write_out_fits) simp_all
  finally show ?thesis .
qed

lemma copy_file_eq:
  assumes "fs name = Some (plain_file bs)" and "length bs < 2 ^ 32"
    and "o_pos ou = length (o_bytes ou)" and "o_pos ou + length bs \<le> o_room ou"
  shows "copy_file fs name ou =
    Inr (of_nat (length bs), ou\<lparr>o_bytes := o_bytes ou @ bs, o_pos := o_pos ou + length bs\<rparr>)"
proof -
  have "unat (of_nat (length bs) :: u32) = length bs" using assms(2) by (rule unat_of_nat32)
  then show ?thesis
    using assms copy_chunks_appends [of "plain_file bs" bs 0 "of_nat (length bs)" ou name]
    by (simp add: copy_file_def plain_file_def)
qed

definition image_header :: "u32 \<Rightarrow> u32 \<Rightarrow> u8 list" where
  "image_header sys_size usr_size =
     [byte_of sys_size 0, byte_of sys_size 1, byte_of sys_size 2, 0,
      byte_of usr_size 0, byte_of usr_size 1, byte_of usr_size 2, 0, 0x1A, 0x7E, 0, 0]"

lemma build_main_eq:
  assumes "fs b = Some f" and "boot_file f boot" and "length boot = 512" and "boot ! 510 = 0x55" and "boot ! 511 = 0xaa"
    and "fs s = Some (plain_file sys)" and "fs u = Some (plain_file usr)"
    and "12 \<le> length sys" and "length sys < 2 ^ 32" and "length usr < 2 ^ 32"
    and "o_bytes ou = []" and "o_pos ou = 0" and "512 + length sys + length usr \<le> o_room ou" and "o_seek ou"
  defines "n \<equiv> (of_nat (length sys) + of_nat (length usr) + 15) div (16 :: u32)"
  obtains img where "build_main fs [b, s, u] ou = Inr (ou\<lparr>o_bytes := img, o_pos := 524\<rparr>)"
    and "length img = 512 + length sys + length usr"
    and "\<And>j. j < length img \<Longrightarrow> img ! j =
      (if 500 \<le> j \<and> j < 502 then byte_of n (j - 500)
       else if 512 \<le> j \<and> j < 524 then image_header (of_nat (length sys)) (of_nat (length usr)) ! (j - 512)
       else (boot[508 := 0, 509 := 0] @ sys @ usr) ! j)"
proof -
  let ?S = "of_nat (length sys) :: u32" and ?U = "of_nat (length usr) :: u32"
  let ?W = "\<lambda>w. [byte_of w 0, byte_of w 1, byte_of w 2, 0]"
  let ?b = "boot[508 := 0, 509 := 0]"
  let ?i0 = "?b @ sys @ usr"
  let ?i1 = "splice 500 [byte_of n 0, byte_of n 1] ?i0"
  let ?i2 = "splice 512 (?W ?S) ?i1"
  let ?i3 = "splice 516 (?W ?U) ?i2"
  let ?i4 = "splice 520 (?W 0x7E1A) ?i3"
  have l: "length ?i0 = 512 + length sys + length usr" using assms(3) by simp
  note fits = assms(8,13) l
  have lens: "length ?i1 = length ?i0" "length ?i2 = length ?i0" "length ?i3 = length ?i0" "length ?i4 = length ?i0"
    using fits by simp_all
  have run: "build_main fs [b, s, u] ou = Inr (ou\<lparr>o_bytes := ?i4, o_pos := 524\<rparr>)"
    using copy_boot_eq [of fs b f boot ou, OF assms(1-5,11,12)] assms(6-14) assms(3)
    by (simp add: build_main_def copy_file_eq seek_out_def write_out_fits n_def Let_def)
  have nth: "?i4 ! j = (if 500 \<le> j \<and> j < 502 then byte_of n (j - 500)
       else if 512 \<le> j \<and> j < 524 then image_header ?S ?U ! (j - 512) else ?i0 ! j)" if j: "j < length ?i4" for j
  proof -
    have magic: "byte_of 0x7E1A 0 = 0x1A" "byte_of 0x7E1A 1 = 0x7E" "byte_of 0x7E1A 2 = 0"
      by (simp_all add: byte_of_def)
    have e: "?i4 ! j = (if 520 \<le> j \<and> j < 524 then ?W 0x7E1A ! (j - 520) else if 516 \<le> j \<and> j < 520 then ?W ?U ! (j - 516)
        else if 512 \<le> j \<and> j < 516 then ?W ?S ! (j - 512)
        else if 500 \<le> j \<and> j < 502 then [byte_of n 0, byte_of n 1] ! (j - 500) else ?i0 ! j)"
      using j lens fits by (simp add: nth_splice)
    have "j \<in> {500, 501} \<or> j \<in> {512, 513, 514, 515, 516, 517, 518, 519, 520, 521, 522, 523}
        \<or> \<not> (500 \<le> j \<and> j < 502) \<and> \<not> (512 \<le> j \<and> j < 524)"
      unfolding insert_iff empty_iff by presburger
    then consider "j \<in> {500, 501}" | "j \<in> {512, 513, 514, 515, 516, 517, 518, 519, 520, 521, 522, 523}"
      | "\<not> (500 \<le> j \<and> j < 502)" "\<not> (512 \<le> j \<and> j < 524)" by blast
    then show ?thesis
    proof cases
      case 1
      then show ?thesis using e by (elim insertE) simp_all
    next
      case 2
      then show ?thesis using e magic by (elim insertE) (simp_all add: image_header_def)
    next
      case 3
      then have "\<not> (520 \<le> j \<and> j < 524)" "\<not> (516 \<le> j \<and> j < 520)" "\<not> (512 \<le> j \<and> j < 516)" by linarith+
      then show ?thesis using e 3 by presburger
    qed
  qed
  show thesis by (rule that [OF run _ nth]) (use lens l in simp_all)
qed

section \<open>What the kernel finds\<close>

text \<open>The sectors behind the boot sector, loaded at \<open>KERNEL_START\<close>.\<close>

definition loaded_at :: "u8 list \<Rightarrow> frames \<Rightarrow> bool" where
  "loaded_at img mem \<longleftrightarrow>
     (\<forall>i < length img - 512. mem ((0x10000 + i) div 4096) ((0x10000 + i) mod 4096) = img ! (512 + i))"

lemma loaded_word:
  assumes "loaded_at img mem" and "k + 4 \<le> length img - 512" and "k \<le> 8"
  shows "image_word mem k = ucast (img ! (512 + k)) OR push_bit 8 (ucast (img ! (513 + k)))
    OR push_bit 16 (ucast (img ! (514 + k))) OR push_bit 24 (ucast (img ! (515 + k)))"
proof -
  have "mem 16 i = img ! (512 + i)" if "i < k + 4" for i
  proof -
    have "i < 4096" using that assms(3) by linarith
    then have "(0x10000 + i) div 4096 = 16" and "(0x10000 + i) mod 4096 = i"
      using div_mult_self3 [of 4096 16 i] mod_mult_self3 [of 16 4096 i] by simp_all
    then show ?thesis using assms(1,2) that by (auto simp: loaded_at_def dest!: spec [of _ i])
  qed
  from this [of k] this [of "k + 1"] this [of "k + 2"] this [of "k + 3"] show ?thesis
    by (simp add: image_word_def add.commute)
qed

text \<open>What the image holds once its sectors behind the boot sector are in memory.\<close>

text \<open>The header's words once the image is in memory, and the count of paragraphs in the boot sector.\<close>

lemma header_loaded:
  assumes "loaded_at img mem" and "524 \<le> length img" and "\<And>k. k < 12 \<Longrightarrow> img ! (512 + k) = image_header S U ! k"
    and "unat S < 2 ^ 24" and "unat U < 2 ^ 24"
  shows "image_word mem 0 = S" and "image_word mem 4 = U" and "image_word mem 8 = 0x7E1A"
proof -
  note hdr = assms(3)
  have "image_word mem 0 = ucast (byte_of S 0) OR push_bit 8 (ucast (byte_of S 1))
      OR push_bit 16 (ucast (byte_of S 2)) OR push_bit 24 (ucast (0 :: u8))"
    using loaded_word [OF assms(1), of 0] hdr [of 0] hdr [of 1] hdr [of 2] hdr [of 3] assms(2)
    by (simp add: image_header_def)
  then show "image_word mem 0 = S" using word_of_bytes [of S] assms(4) by simp
  have "image_word mem 4 = ucast (byte_of U 0) OR push_bit 8 (ucast (byte_of U 1))
      OR push_bit 16 (ucast (byte_of U 2)) OR push_bit 24 (ucast (0 :: u8))"
    using loaded_word [OF assms(1), of 4] hdr [of 4] hdr [of 5] hdr [of 6] hdr [of 7] assms(2)
    by (simp add: image_header_def)
  then show "image_word mem 4 = U" using word_of_bytes [of U] assms(5) by simp
  show "image_word mem 8 = 0x7E1A"
    using loaded_word [OF assms(1), of 8] hdr [of 8] hdr [of 9] hdr [of 10] hdr [of 11] assms(2)
    by (simp add: image_header_def)
qed

lemma paragraphs_written:
  fixes S U :: u32
  assumes "unat S + unat U \<le> 0xffff0"
  defines "n \<equiv> (S + U + 15) div 16"
  shows "unat S + unat U \<le> 16 * (unat (byte_of n 0) + 256 * unat (byte_of n 1))"
proof -
  let ?l = "unat S + unat U"
  have "unat (S + U) = ?l" using unat_add32 [of S U] assms(1) by simp
  then have "unat (S + U + 15) = ?l + 15" using unat_add_of_nat32 [of "S + U" 15] assms(1) by simp
  then have "unat n = (?l + 15) div 16" by (simp add: n_def unat_div)
  moreover have "(?l + 15) div 16 < 65536" using assms(1) by linarith
  ultimately have "unat (byte_of n 0) + 256 * unat (byte_of n 1) = (?l + 15) div 16" by (simp add: unat_byte_of)
  moreover have "m \<le> 16 * ((m + 15) div 16)" for m :: nat by presburger
  ultimately show ?thesis by simp
qed

lemma build_main_loads:
  assumes "fs b = Some f" and "boot_file f boot" and "length boot = 512" and "boot ! 510 = 0x55" and "boot ! 511 = 0xaa"
    and "fs s = Some (plain_file sys)" and "fs u = Some (plain_file usr)"
    and "12 \<le> length sys" and "length sys < 2 ^ 24" and "length usr < 2 ^ 24"
    and "o_bytes ou = []" and "o_pos ou = 0" and "512 + length sys + length usr \<le> o_room ou" and "o_seek ou"
  obtains ou' where "build_main fs [b, s, u] ou = Inr ou'" and "take 500 (o_bytes ou') = take 500 boot"
    and "length sys + length usr \<le> 0xffff0 \<Longrightarrow> length sys + length usr
        \<le> 16 * (unat (o_bytes ou' ! 500) + 256 * unat (o_bytes ou' ! 501))"
    and "\<And>mem. loaded_at (o_bytes ou') mem \<Longrightarrow> image_word mem 0 = of_nat (length sys)"
    and "\<And>mem. loaded_at (o_bytes ou') mem \<Longrightarrow> image_word mem 4 = of_nat (length usr)"
    and "\<And>mem. loaded_at (o_bytes ou') mem \<Longrightarrow> image_word mem 8 = 0x7E1A"
    and "\<And>mem i. loaded_at (o_bytes ou') mem \<Longrightarrow> i < length usr \<Longrightarrow>
      mem ((0x10000 + unat (image_word mem 0) + i) div 4096) ((0x10000 + unat (image_word mem 0) + i) mod 4096) = usr ! i"
    and "\<And>mem i. loaded_at (o_bytes ou') mem \<Longrightarrow> i < length sys \<Longrightarrow> 12 \<le> i \<Longrightarrow>
      mem ((0x10000 + i) div 4096) ((0x10000 + i) mod 4096) = sys ! i"
proof -
  let ?S = "of_nat (length sys) :: u32" and ?U = "of_nat (length usr) :: u32"
  let ?n = "(?S + ?U + 15) div 16"
  have small: "length sys < 2 ^ 32" "length usr < 2 ^ 32" using assms(9,10) by simp_all
  obtain img where run: "build_main fs [b, s, u] ou = Inr (ou\<lparr>o_bytes := img, o_pos := 524\<rparr>)"
    and len: "length img = 512 + length sys + length usr"
    and at: "\<And>j. j < length img \<Longrightarrow> img ! j =
      (if 500 \<le> j \<and> j < 502 then byte_of ?n (j - 500)
       else if 512 \<le> j \<and> j < 524 then image_header ?S ?U ! (j - 512)
       else (boot[508 := 0, 509 := 0] @ sys @ usr) ! j)"
    using build_main_eq [of fs b f boot s sys u usr ou, OF assms(1-8) small assms(11-14)] by blast
  have S: "unat ?S = length sys" "unat ?U = length usr" using small by (simp_all only: unat_of_nat32)
  have hdr: "img ! (512 + k) = image_header ?S ?U ! k" if "k < 12" for k
    using that len assms(8) by (simp add: at)
  have big: "524 \<le> length img" and lt: "unat ?S < 2 ^ 24" "unat ?U < 2 ^ 24" using len assms(8-10) S by simp_all
  note words = header_loaded [OF _ big hdr lt]
  have load: "mem ((0x10000 + i) div 4096) ((0x10000 + i) mod 4096) = (sys @ usr) ! i"
    if "loaded_at img mem" "i < length sys + length usr" "12 \<le> i" for mem i
    using that len assms(3) by (simp add: loaded_at_def at nth_append)
  have load_sys: "mem ((0x10000 + i) div 4096) ((0x10000 + i) mod 4096) = sys ! i"
    if "loaded_at img mem" "i < length sys" "12 \<le> i" for mem i
    using load [OF that(1) _ that(3)] that(2) by (simp add: nth_append)
  have "mem ((0x10000 + unat (image_word mem 0) + i) div 4096)
      ((0x10000 + unat (image_word mem 0) + i) mod 4096) = usr ! i" if "loaded_at img mem" "i < length usr" for mem i
    using load [OF that(1), of "length sys + i"] that(2) words(1) [OF that(1)] S assms(8) by (simp add: add.assoc)
  moreover have "take 500 img = take 500 boot"
    using len assms(3) by (intro nth_equalityI) (simp_all add: at nth_append)
  moreover have "length sys + length usr \<le> 16 * (unat (img ! 500) + 256 * unat (img ! 501))"
    if le: "length sys + length usr \<le> 0xffff0"
  proof -
    have "img ! 500 = byte_of ?n 0" "img ! 501 = byte_of ?n 1" using len by (simp_all add: at)
    then show ?thesis using paragraphs_written [of ?S ?U] le S by simp
  qed
  ultimately show thesis
    using run words load_sys by (intro that [of "ou\<lparr>o_bytes := img, o_pos := 524\<rparr>"]) simp_all
qed

text \<open>C32: the image of \<open>build\<close> is what \<open>main\<close> of the kernel expects. From a boot sector with
  its header, a system of at least 12 bytes and a user program, both shorter than 16 MB, the
  tool completes; once the sectors behind the boot sector are at \<open>KERNEL_START\<close>, the two words
  there are the sizes, the user program lies behind the system, the rest of the system is as
  it was, and the number of paragraphs in the boot sector covers everything.\<close>

theorem build_image:
  assumes "fs b = Some f" and "boot_file f boot" and "length boot = 512" and "boot ! 510 = 0x55" and "boot ! 511 = 0xaa"
    and "fs s = Some (plain_file sys)" and "fs u = Some (plain_file usr)"
    and "12 \<le> length sys" and "length sys < 2 ^ 24" and "length usr < 2 ^ 24"
    and "o_bytes ou = []" and "o_pos ou = 0" and "512 + length sys + length usr \<le> o_room ou" and "o_seek ou"
  shows "\<exists>ou'. build_main fs [b, s, u] ou = Inr ou' \<and> take 500 (o_bytes ou') = take 500 boot
    \<and> (length sys + length usr \<le> 0xffff0 \<longrightarrow> length sys + length usr
        \<le> 16 * (unat (o_bytes ou' ! 500) + 256 * unat (o_bytes ou' ! 501)))
    \<and> (\<forall>mem. loaded_at (o_bytes ou') mem \<longrightarrow>
        image_word mem 0 = of_nat (length sys) \<and> image_word mem 4 = of_nat (length usr)
      \<and> (\<forall>i < length usr. mem ((0x10000 + unat (image_word mem 0) + i) div 4096)
            ((0x10000 + unat (image_word mem 0) + i) mod 4096) = usr ! i)
      \<and> (\<forall>i < length sys. 12 \<le> i \<longrightarrow> mem ((0x10000 + i) div 4096) ((0x10000 + i) mod 4096) = sys ! i))"
proof -
  obtain ou' where "build_main fs [b, s, u] ou = Inr ou'" "take 500 (o_bytes ou') = take 500 boot"
    "length sys + length usr \<le> 0xffff0 \<Longrightarrow> length sys + length usr
        \<le> 16 * (unat (o_bytes ou' ! 500) + 256 * unat (o_bytes ou' ! 501))"
    "\<And>mem. loaded_at (o_bytes ou') mem \<Longrightarrow> image_word mem 0 = of_nat (length sys)"
    "\<And>mem. loaded_at (o_bytes ou') mem \<Longrightarrow> image_word mem 4 = of_nat (length usr)"
    "\<And>mem. loaded_at (o_bytes ou') mem \<Longrightarrow> image_word mem 8 = 0x7E1A"
    "\<And>mem i. loaded_at (o_bytes ou') mem \<Longrightarrow> i < length usr \<Longrightarrow>
      mem ((0x10000 + unat (image_word mem 0) + i) div 4096) ((0x10000 + unat (image_word mem 0) + i) mod 4096) = usr ! i"
    "\<And>mem i. loaded_at (o_bytes ou') mem \<Longrightarrow> i < length sys \<Longrightarrow> 12 \<le> i \<Longrightarrow>
      mem ((0x10000 + i) div 4096) ((0x10000 + i) mod 4096) = sys ! i"
    by (rule build_main_loads [of fs b f boot s sys u usr ou, OF assms]) (rule that)
  then show ?thesis by (intro exI [of _ ou']) blast
qed

definition example_files :: files where
  "example_files = [''boot'' \<mapsto> plain_file (minix_magic @ replicate 24 0 @ (replicate 510 0 @ [0x55, 0xaa])),
     ''system'' \<mapsto> plain_file (replicate 16 7), ''user'' \<mapsto> plain_file [1, 2, 3]]"

abbreviation "example_boot \<equiv> replicate 510 0 @ [0x55, 0xaa] :: u8 list"

lemma example_boot_ok:
  "boot_file (plain_file (minix_magic @ replicate 24 0 @ example_boot)) example_boot"
  "example_boot ! 510 = 0x55" "example_boot ! 511 = 0xaa"
proof -
  let ?h = "minix_magic @ replicate 24 0"
  have "lb ?h k = 0" if "k \<in> {3, 4, 5, 7}" for k
    using that by (elim insertE) (simp_all add: lb_def minix_magic_def)
  then show "boot_file (plain_file (minix_magic @ replicate 24 0 @ example_boot)) example_boot"
    by (auto simp: boot_file_def plain_file_def minix_magic_def intro!: exI [of _ ?h])
  show "example_boot ! 510 = 0x55" "example_boot ! 511 = 0xaa" by (simp_all add: nth_append)
qed

lemma build_image_witness:
  "\<exists>ou'. build_main example_files [''boot'', ''system'', ''user''] \<lparr>o_bytes = [], o_pos = 0, o_room = 1440, o_seek = True\<rparr>
       = Inr ou' \<and> (\<forall>mem. loaded_at (o_bytes ou') mem \<longrightarrow> image_word mem 4 = 3)"
  using build_image [of example_files "''boot''", OF _ example_boot_ok(1) _ example_boot_ok(2,3), of "''system''" "replicate 16 7"
      "''user''" "[1, 2, 3]" "\<lparr>o_bytes = [], o_pos = 0, o_room = 1440, o_seek = True\<rparr>"]
  by (fastforce simp: example_files_def)

end
