(* ===== verification/Reach.thy ===== *)
theory Reach
  imports Ticks Entry
begin

text \<open>
  The kernel as a labelled transition system: clock and keyboard interrupts, system calls and stores
  of the running program, from the state \<open>main\<close> leaves.

  \<open>kstep\<close> restricts nothing. An action whose effect the model follows leads to the state it computes;
  any other one, which faults or reads or writes memory that the model does not describe, may lead to
  every state. So no invariant holds in all states of the relation, and none does in the program: a
  process made by \<open>fork\<close> may write the kernel's pages through its own page table
  (\<open>fork_page_tables\<close>).

  \<open>orderly\<close> is the discipline under which the scheduling invariant and the isolation of the data
  pages do hold, as a condition on the state and the action before it is made. Its rules:

  \<^item> the action is one the model follows: no fault, no store of the program outside the data pages
    and stacks of its process, no identifier of a new thread stored in the kernel;

  \<^item> an interrupt comes with room left on the kernel stack;

  \<^item> \<open>yield\<close> is called only when another thread of the process is ready;

  \<^item> a mutex somebody waits for is neither initialised nor destroyed, and a locked mutex is locked
    again only if it was initialised;

  \<^item> a mutex is unlocked only while the first thread that waits for it, if there is one, belongs to
    the process of the caller.
\<close>

section \<open>The actions\<close>

datatype action = Clock nat | Keyboard u8 nat | Call user_regs | Store u32 u8

text \<open>
  A byte stored by the running program, through its page table. None stands for a page fault and for
  a store to the frames of the kernel, whose contents are not bytes in the model.
\<close>

definition user_store :: "u32 \<Rightarrow> u8 \<Rightarrow> kernel \<Rightarrow> kernel option" where
  "user_store a v s = do {
     PT \<leftarrow> mmu_table s;
     if user_byte PT a \<and> translate PT True a \<noteq> None
     then do { m \<leftarrow> vwrite PT a v (ram s); Some (s\<lparr>ram := m\<rparr>) } else None
   }"

fun act :: "(u32 \<Rightarrow> console \<Rightarrow> console) \<Rightarrow> action \<Rightarrow> kernel \<Rightarrow> kernel option" where
  "act clk (Clock extra) s = clock_handler clk extra s"
| "act clk (Keyboard c extra) s = keyboard_handler c extra s"
| "act clk (Call r) s = map_option snd (system_call_handler r s)"
| "act clk (Store a v) s = user_store a v s"

inductive kstep :: "(u32 \<Rightarrow> console \<Rightarrow> console) \<Rightarrow> kernel \<Rightarrow> action \<Rightarrow> kernel \<Rightarrow> bool" for clk where
  followed: "act clk a s = Some s' \<Longrightarrow> kstep clk s a s'"
| lost: "act clk a s = None \<Longrightarrow> kstep clk s a s'"

inductive_simps kstep_iff: "kstep clk s a s'"

section \<open>The discipline\<close>

definition call_rules :: "user_regs \<Rightarrow> kernel \<Rightarrow> bool" where
  "call_rules r s = (case get_PT_of_dir s (cr3 s) of
       None \<Rightarrow> False
     | Some p \<Rightarrow>
         (let n = unat (r_ebx r); m = MutexBlocked n
          in (r_eax r = 13 \<longrightarrow> \<not> list_empty (ReadyThreads p) (heap s))
           \<and> (r_eax r = 26 \<or> r_eax r = 29 \<longrightarrow> lh_next (heap s m) = None \<or> list_empty m (heap s))
           \<and> (r_eax r = 27 \<longrightarrow> locked (mutexes s n) = 0 \<or> lh_next (heap s m) \<noteq> None)
           \<and> (r_eax r = 28 \<longrightarrow> (case list_first m (heap s) of
                Some (ThreadList t) \<Rightarrow> thread_p (threads s t) = Some p | _ \<Rightarrow> True))))"

fun action_rules :: "action \<Rightarrow> kernel \<Rightarrow> bool" where
  "action_rules (Clock extra) s = (extra \<le> 1000)"
| "action_rules (Keyboard c extra) s = (extra \<le> 1000)"
| "action_rules (Call r) s = call_rules r s"
| "action_rules (Store a v) s = True"

definition orderly :: "(u32 \<Rightarrow> console \<Rightarrow> console) \<Rightarrow> action \<Rightarrow> kernel \<Rightarrow> bool" where
  "orderly clk a s \<longleftrightarrow> act clk a s \<noteq> None \<and> action_rules a s"

text \<open>The runs in which every action is orderly in the state it is made in.\<close>

inductive orderly_run :: "(u32 \<Rightarrow> console \<Rightarrow> console) \<Rightarrow> kernel \<Rightarrow> action list \<Rightarrow> kernel \<Rightarrow> bool" for clk s0 where
  start: "orderly_run clk s0 [] s0"
| step: "orderly_run clk s0 as s \<Longrightarrow> orderly clk a s \<Longrightarrow> kstep clk s a s' \<Longrightarrow> orderly_run clk s0 (as @ [a]) s'"

section \<open>Isolation\<close>

text \<open>The processes that run or are ready.\<close>

definition live :: "(lnode \<Rightarrow> lnode list) \<Rightarrow> nat \<Rightarrow> nat set" where
  "live Q cp = insert cp (elem_index ` set (Q Readyqueue))"

definition data_frame :: "kernel \<Rightarrow> nat \<times> nat \<Rightarrow> u32" where
  "data_frame s x = pbase_addr (pagusr_table s (fst x) (snd x))"

definition isolated :: "kernel \<Rightarrow> nat set \<Rightarrow> bool" where
  "isolated s L \<longleftrightarrow> (\<forall>i \<in> L. data_mapped s i) \<and> inj_on (data_frame s) (L \<times> {264..<284})"

definition kernel_ok :: "kernel \<Rightarrow> bool" where
  "kernel_ok s \<longleftrightarrow> (\<exists>Q M c cp. kinv s Q M c cp \<and> isolated s (live Q cp))"

text \<open>A call that completes leaves the kernel in order.\<close>

definition keeps_ok :: "(u32 \<times> kernel) option \<Rightarrow> bool" where
  "keeps_ok r = (case r of Some (v, s) \<Rightarrow> kernel_ok s | None \<Rightarrow> True)"

lemma keeps_ok_simps [simp]:
  "keeps_ok None" "keeps_ok (Some (v, s)) = kernel_ok s"
  by (simp_all add: keeps_ok_def)

lemma kernel_okI: "kinv s Q M c cp \<Longrightarrow> isolated s (live Q cp) \<Longrightarrow> kernel_ok s"
  by (auto simp: kernel_ok_def)

lemma isolated_frames:
  assumes "isolated s L" and "L' \<subseteq> L"
    and "\<And>i p. i \<in> L' \<Longrightarrow> 264 \<le> p \<Longrightarrow> p < 284 \<Longrightarrow> unat (data_frame s (i, p)) \<notin> free_frames (phys_mem s')"
    and "\<And>i p. i \<in> L' \<Longrightarrow> 264 \<le> p \<Longrightarrow> p < 284 \<Longrightarrow> pagusr_table s' i p = pagusr_table s i p"
  shows "isolated s' L'"
proof -
  have e: "data_frame s' x = data_frame s x" if "x \<in> L' \<times> {264..<284}" for x
    using that assms(4) [of "fst x" "snd x"] by (simp add: data_frame_def mem_Times_iff)
  have "inj_on (data_frame s) (L' \<times> {264..<284})"
    using assms(1,2) unfolding isolated_def by (meson Sigma_mono inj_on_subset order_refl)
  then have "inj_on (data_frame s') (L' \<times> {264..<284})" 
    using inj_on_cong [of "L' \<times> {264..<284}" "data_frame s'" "data_frame s", OF e] by simp
  moreover have "data_mapped s' i" if "i \<in> L'" for i
  proof -
    have "data_mapped s i" using assms(1,2) that by (auto simp: isolated_def)
    then show ?thesis using assms(3,4) that by (auto simp: data_mapped_def data_frame_def)
  qed
  ultimately show ?thesis by (simp add: isolated_def)
qed

lemma isolated_change:
  assumes "isolated s L" and "L' \<subseteq> L" and "free_frames (phys_mem s') \<subseteq> free_frames (phys_mem s)"
    and "\<And>i p. i \<in> L' \<Longrightarrow> 264 \<le> p \<Longrightarrow> p < 284 \<Longrightarrow> pagusr_table s' i p = pagusr_table s i p"
  shows "isolated s' L'"
proof (rule isolated_frames [OF assms(1,2) _ assms(4)])
  fix i and p :: nat assume p: "i \<in> L'" "264 \<le> p" "p < 284"
  then have "data_mapped s i" using assms(1,2) by (auto simp: isolated_def)
  then have "unat (pbase_addr (pagusr_table s i p)) \<notin> free_frames (phys_mem s)" using p by (simp add: data_mapped_def)
  then show "unat (data_frame s (i, p)) \<notin> free_frames (phys_mem s')" using assms(3) by (auto simp: data_frame_def)
qed

lemma isolated_same:
  "isolated s L \<Longrightarrow> pagusr_table s' = pagusr_table s \<Longrightarrow> phys_mem s' = phys_mem s \<Longrightarrow> isolated s' L"
  by (rule isolated_change) auto

lemma same_rest_isolated: "same_rest s s' \<Longrightarrow> isolated s L \<Longrightarrow> isolated s' L"
  by (rule isolated_same) (simp_all add: same_rest_def)

lemma live_view: "live Q cp = insert (rr_process (sched_view s Q c cp)) (set (rr_ready (sched_view s Q c cp)))"
  by (simp add: live_def sched_view_def)

lemma live_cong: "Q' Readyqueue = Q Readyqueue \<Longrightarrow> live Q' cp = live Q cp"
  by (simp add: live_def)

text \<open>A round robin step runs and queues the same processes as before.\<close>

lemma rr_tick_live:
  "insert (rr_process (rr_tick PQ TQ v)) (set (rr_ready (rr_tick PQ TQ v))) = insert (rr_process v) (set (rr_ready v))"
  by (cases "rr_ready v") (auto simp: rr_tick_def rr_next_process_def rr_next_thread_def rr_requeue_process_def
      rr_requeue_thread_def Let_def)

lemma rr_yield_live:
  "rr_process (rr_next_thread TQ (rr_requeue_thread v)) = rr_process v"
  "rr_ready (rr_next_thread TQ (rr_requeue_thread v)) = rr_ready v"
  by (simp_all add: rr_next_thread_def rr_requeue_thread_def Let_def)

section \<open>Calls that do not switch\<close>

text \<open>Inside a call of the running thread.\<close>

definition calling :: "kernel \<Rightarrow> (lnode \<Rightarrow> lnode list) \<Rightarrow> nat set \<Rightarrow> nat \<Rightarrow> nat \<Rightarrow> bool" where
  "calling s Q M c cp \<longleftrightarrow> kinv s Q M c cp \<and> in_kernel s c \<and> isolated s (live Q cp)"

lemma callingD:
  assumes "calling s Q M c cp"
  shows calling_kinv: "kinv s Q M c cp" and calling_in: "in_kernel s c" and calling_isolated: "isolated s (live Q cp)"
    and calling_ok: "kernel_ok s"
  using assms by (auto simp: calling_def intro: kernel_okI)

lemma con_ok: "kernel_ok (s\<lparr>con := x\<rparr>) = kernel_ok s"
proof -
  have "kinv (s\<lparr>con := x\<rparr>) Q M c cp = kinv s Q M c cp" for Q M c cp by (rule kinv_cong) simp_all
  moreover have "isolated (s\<lparr>con := x\<rparr>) L = isolated s L" for L
    by (simp add: isolated_def data_mapped_def data_frame_def [abs_def])
  ultimately show ?thesis by (simp add: kernel_ok_def)
qed

lemma write_ok: "kernel_ok s \<Longrightarrow> keeps_ok (sys_write fd b n s)"
  by (auto simp: keeps_ok_def sys_write_def con_ok Let_def split: option.splits Option.bind_splits)

lemma create_ok:
  assumes "calling s Q M c cp"
  shows "keeps_ok (sys_pthread_create idp start arg s)"
proof (cases "Q Free_threadqueue")
  case Nil
  then have "list_empty Free_threadqueue (heap s)" using kinv_empty(2) [OF calling_kinv [OF assms]] by simp
  then show ?thesis using calling_ok [OF assms] by (simp add: sys_pthread_create_def)
next
  case (Cons n us)
  obtain u where n: "n = ThreadList u"
    using kmid_member [OF kinv_kmid [OF calling_kinv [OF assms]], of Free_threadqueue n] Cons by (cases n) auto
  show ?thesis
  proof (cases "access_ok VERIFY_READ start 4")
    case False
    then show ?thesis using calling_ok [OF assms] by (simp add: sys_pthread_create_def)
  next
    case True
    obtain f pm where a: "alloc_frame (phys_mem s) = (f, pm)" by fastforce
    let ?Q = "Q(Free_threadqueue := us, ReadyThreads cp := Q (ReadyThreads cp) @ [ThreadList u])"
    have Q: "Q Free_threadqueue = ThreadList u # us" using Cons n by simp
    obtain h where h: "sys_pthread_create idp start arg s = do {
        page \<leftarrow> find_free_page (pagusr_table s cp) 284;
        let T = (pagusr_table s cp)(page := user_entry f);
        if user_word T idp
        then do { m \<leftarrow> vstore32 T idp (nthread (tasks s cp)) (ram s); Some (0, created s c cp u start page f pm m h) }
        else None }"
      "\<And>page m. kinv (created s c cp u start page f pm m h) ?Q M c cp"
      by (rule sys_pthread_create_eq [OF calling_kinv [OF assms] calling_in [OF assms] True Q a, of idp arg]) (rule that)
    have pm: "free_frames pm \<subseteq> free_frames (phys_mem s)"
      using a by (cases rule: alloc_frame_cases [of "phys_mem s"]) (auto simp: free_frames_def split: if_splits)
    have "kernel_ok (created s c cp u start page f pm m h)" if "find_free_page (pagusr_table s cp) 284 = Some page" for page m
    proof (rule kernel_okI [OF h(2)])
      have "284 \<le> page" using find_free_page_spec [OF that] by simp
      then have "isolated (created s c cp u start page f pm m h) (live Q cp)"
        using pm by (intro isolated_change [OF calling_isolated [OF assms] order_refl]) (simp_all add: created_def)
      moreover have "live ?Q cp = live Q cp" by (rule live_cong) simp
      ultimately show "isolated (created s c cp u start page f pm m h) (live ?Q cp)" by simp
    qed
    then show ?thesis
      by (cases "find_free_page (pagusr_table s cp) 284")
        (simp_all add: h(1) keeps_ok_def Let_def split: Option.bind_split)
  qed
qed

section \<open>Calls that switch\<close>

text \<open>What a switch to another thread of the process leaves.\<close>

lemma switched_ok:
  assumes "calling s Q M c cp" and "kinv s' Q' M' c' cp" and "same_rest s s'" and "Q' Readyqueue = Q Readyqueue"
  shows "kernel_ok s'"
proof (rule kernel_okI [OF assms(2)])
  show "isolated s' (live Q' cp)"
    unfolding live_cong [of Q' Q cp, OF assms(4)] by (rule same_rest_isolated [OF assms(3) calling_isolated [OF assms(1)]])
qed

lemma next_ready:
  assumes "calling s Q M c cp" and "Q (ReadyThreads cp) \<noteq> []"
  obtains t ts where "Q (ReadyThreads cp) = ThreadList t # ts"
proof -
  obtain n ts where n: "Q (ReadyThreads cp) = n # ts" using assms(2) by (cases "Q (ReadyThreads cp)") auto
  have cp: "cp < 10" using kinv_proc [OF calling_kinv [OF assms(1)]] by (simp add: proc_running_def)
  have "n \<in> set (Q (ReadyThreads cp))" using n by simp
  then obtain t where "n = ThreadList t"
    by (rule kmid_ready_node [OF kinv_kmid [OF calling_kinv [OF assms(1)]] cp])
  with n show thesis by (intro that) simp
qed

lemma yield_ok:
  assumes "calling s Q M c cp" and "Q (ReadyThreads cp) \<noteq> []"
  shows "keeps_ok (sys_yield s)"
proof -
  have e: "Q (ReadyThreads cp) = [] \<Longrightarrow> saved_ok (sym s) c (register_esp (threads s c))" using assms(2) by simp
  obtain s' Q' c' where s': "sys_yield s = Some (0, s')" "kinv s' Q' M c' cp"
    "sched_view s' Q' c' cp = rr_next_thread (get_quantum_t s) (rr_requeue_thread (sched_view s Q c cp))" "same_rest s s'"
    by (rule sys_yield_step [OF calling_kinv [OF assms(1)] calling_in [OF assms(1)] e])
  have "live Q' cp = live Q cp" by (simp only: live_view [of Q' cp s' c'] live_view [of Q cp s c] s'(3) rr_yield_live)
  then have "isolated s' (live Q' cp)" using same_rest_isolated [OF s'(4) calling_isolated [OF assms(1)]] by simp
  then show ?thesis using kernel_okI [OF s'(2)] s'(1) by simp
qed

lemma join_ok:
  assumes "calling s Q M c cp"
  shows "keeps_ok (sys_pthread_join idp vp s)"
proof (cases "nthread (tasks s cp) < 2")
  case True
  then show ?thesis
    using kinv_current [OF calling_kinv [OF assms] calling_in [OF assms]] calling_ok [OF assms]
    by (simp add: sys_pthread_join_def)
next
  case False
  note k = calling_kinv [OF assms] calling_in [OF assms]
  show ?thesis
  proof (cases "Q (ReadyThreads cp) = []")
    case True
    then show ?thesis using join_alone [OF k True False] by simp
  next
    case ready: False
    obtain t ts where t: "Q (ReadyThreads cp) = ThreadList t # ts" by (rule next_ready [OF assms ready])
    show ?thesis
    proof (cases "load_user idp s")
      case None
      then show ?thesis using kinv_current [OF k] False by (simp add: sys_pthread_join_def)
    next
      case (Some v)
      obtain s' where s': "sys_pthread_join idp vp s = Some (0, s')"
        "kinv s' (Q(BlockedThreads cp := Q (BlockedThreads cp) @ [ThreadList c], ReadyThreads cp := ts)) M t cp"
        "same_rest s s'" by (rule sys_pthread_join_step [OF k False Some t])
      have "kernel_ok s'" by (rule switched_ok [OF assms s'(2,3)]) simp
      with s'(1) show ?thesis by simp
    qed
  qed
qed

lemma pthread_exit_ok:
  assumes "calling s Q M c cp"
  shows "keeps_ok (sys_pthread_exit v s)"
proof (cases "Q (ReadyThreads cp) @ first_joined s Q c cp = []")
  case True
  then show ?thesis using exit_alone [OF calling_kinv [OF assms] calling_in [OF assms] True] by simp
next
  case False
  obtain s' t ts where s': "sys_pthread_exit v s = Some (0, s')"
    "kinv s' (Q(Free_threadqueue := Q Free_threadqueue @ [ThreadList c],
        BlockedThreads cp := drop (length (first_joined s Q c cp)) (Q (BlockedThreads cp)),
        ReadyThreads cp := ts)) M t cp" "same_rest s s'"
    by (rule sys_pthread_exit_step [OF calling_kinv [OF assms] calling_in [OF assms] False])
  have "kernel_ok s'" by (rule switched_ok [OF assms s'(2,3)]) simp
  with s'(1) show ?thesis by simp
qed

text \<open>\<open>sys_exit\<close> frees only frames of its own process.\<close>

lemma freed_frames_free:
  assumes "x \<in> free_frames (freed_frames T 20 pm)" and "x \<notin> free_frames pm"
  obtains p where "264 \<le> p" and "p < 284" and "unat (pbase_addr (T p)) = x"
proof -
  have "\<exists>j < 20. unat (pbase_addr (T (264 + j))) = x"
    using assms by (auto simp: free_frames_def freed_frames_def split: if_splits)
  then obtain j where "j < 20" "unat (pbase_addr (T (264 + j))) = x" by blast
  then show thesis by (intro that [of "264 + j"]) simp_all
qed

lemma exit_ok:
  assumes "calling s Q M c cp"
  shows "keeps_ok (sys_exit s)"
proof (cases "Q Readyqueue")
  case Nil
  then show ?thesis using sys_exit_alone [OF calling_kinv [OF assms] calling_in [OF assms] Nil] by simp
next
  case (Cons n ps)
  note k = calling_kinv [OF assms] calling_in [OF assms] and iso = calling_isolated [OF assms]
  have "n \<in> set (Q Readyqueue)" using Cons by simp
  then obtain p where p: "n = TaskList p" "Q (ReadyThreads p) \<noteq> []" "p < 10"
    by (rule kmid_ready_proc [OF kinv_kmid [OF k(1)]])
  obtain m ts where m: "Q (ReadyThreads p) = m # ts" using p(2) by (cases "Q (ReadyThreads p)") auto
  then have "m \<in> set (Q (ReadyThreads p))" by simp
  then obtain t where t: "m = ThreadList t" by (rule kmid_ready_node [OF kinv_kmid [OF k(1)] p(3)])
  let ?Q = "(exit_queues Q cp)(Readyqueue := ps, ReadyThreads p := ts)"
  have q: "Q Readyqueue = TaskList p # ps" "Q (ReadyThreads p) = ThreadList t # ts" using Cons p m t by simp_all
  obtain s' where s': "sys_exit s = Some (0, s')" "kinv s' ?Q M t p" "p \<noteq> cp"
    "pagusr_table s' = (pagusr_table s)(cp := (\<lambda>p. if 264 \<le> p \<and> p < 284 then 0 else pagusr_table s cp p))"
    "phys_mem s' = freed_frames (pagusr_table s cp) 20 (phys_mem s)"
    by (rule sys_exit_step [OF k q])
  have L: "live ?Q p \<subseteq> live Q cp" using q by (auto simp: live_def)
  have ncp: "i \<noteq> cp" if "i \<in> live ?Q p" for i
  proof
    assume "i = cp"
    with that s'(3) have "cp \<in> elem_index ` set (Q Readyqueue)" using q by (auto simp: live_def)
    then obtain x where x: "x \<in> set (Q Readyqueue)" "elem_index x = cp" by blast
    obtain j where "x = TaskList j" by (rule kmid_ready_proc [OF kinv_kmid [OF k(1)] x(1)])
    with x have "queued (heads M) Q (TaskList cp)" by (intro queuedI [of Readyqueue]) simp_all
    then show False using kinv_proc [OF k(1)] by (simp add: proc_running_def)
  qed
  have "isolated s' (live ?Q p)"
  proof (rule isolated_frames [OF iso L])
    fix i and r :: nat assume i: "i \<in> live ?Q p" and r: "264 \<le> r" "r < 284"
    show "pagusr_table s' i r = pagusr_table s i r" using s'(4) ncp [OF i] by simp
    have used: "unat (data_frame s (i, r)) \<notin> free_frames (phys_mem s)"
      using iso subsetD [OF L i] r by (auto simp: isolated_def data_mapped_def data_frame_def)
    show "unat (data_frame s (i, r)) \<notin> free_frames (phys_mem s')"
    proof
      assume "unat (data_frame s (i, r)) \<in> free_frames (phys_mem s')"
      then obtain o' where o': "264 \<le> o'" "o' < 284" "unat (pbase_addr (pagusr_table s cp o')) = unat (data_frame s (i, r))"
        unfolding s'(5) by (rule freed_frames_free [OF _ used])
      have "inj_on (data_frame s) (live Q cp \<times> {264..<284})" using iso by (simp add: isolated_def)
      moreover have "data_frame s (cp, o') = data_frame s (i, r)" using o'(3) by (simp add: data_frame_def word_unat_eq_iff)
      moreover have "(cp, o') \<in> live Q cp \<times> {264..<284}" "(i, r) \<in> live Q cp \<times> {264..<284}"
        using o' r subsetD [OF L i] by (simp_all add: live_def)
      ultimately have "(cp, o') = (i, r)" by (rule inj_onD)
      with ncp [OF i] show False by simp
    qed
  qed
  with kernel_okI [OF s'(2)] s'(1) show ?thesis by simp
qed

section \<open>\<open>fork\<close>\<close>

lemma free_not_live:
  assumes "calling s Q M c cp" and "Q Freequeue = TaskList i # fs"
  shows "i \<notin> live Q cp" and "i \<noteq> cp"
proof -
  note k = calling_kinv [OF assms(1)]
  have qi: "queued (heads M) Q (TaskList i)" using assms(2) by (intro queuedI [of Freequeue]) simp_all
  then show ne: "i \<noteq> cp" using kinv_proc [OF k] by (auto simp: proc_running_def)
  have "Q (ReadyThreads i) = []"
    using kmid_member [OF kinv_kmid [OF k], of Freequeue "TaskList i"] assms(2) by simp
  moreover have "Q (ReadyThreads j) \<noteq> [] \<and> n = TaskList j" if "n \<in> set (Q Readyqueue)" "elem_index n = j" for n j
    by (rule kmid_ready_proc [OF kinv_kmid [OF k] that(1)]) (use that(2) in auto)
  ultimately show "i \<notin> live Q cp" using ne by (auto simp: live_def)
qed

text \<open>A process added with frames that were free.\<close>

lemma isolated_insert:
  assumes "isolated s L" and "i \<notin> L" and "length ds = 20" and "distinct ds" and "unat ` set ds \<subseteq> free_frames (phys_mem s)"
    and "\<And>j p. j \<in> L \<Longrightarrow> 264 \<le> p \<Longrightarrow> p < 284 \<Longrightarrow> data_frame s' (j, p) = data_frame s (j, p)"
    and "\<And>p. 264 \<le> p \<Longrightarrow> p < 284 \<Longrightarrow> data_frame s' (i, p) = ds ! (p - 264)"
    and "\<And>j. j \<in> insert i L \<Longrightarrow> data_mapped s' j"
  shows "isolated s' (insert i L)"
proof -
  let ?P = "{264..<284} :: nat set"
  have old: "unat (data_frame s (j, p)) \<notin> free_frames (phys_mem s)" if "j \<in> L" "p \<in> ?P" for j p
    using assms(1) that by (auto simp: isolated_def data_mapped_def data_frame_def)
  have ds: "ds ! (p - 264) \<in> set ds" if "p \<in> ?P" for p using that assms(3) by (auto intro!: nth_mem)
  have apart: "ds ! (q - 264) \<noteq> data_frame s (j, p)" if "j \<in> L" "p \<in> ?P" "q \<in> ?P" for j p q
    using old [OF that(1,2)] ds [OF that(3)] assms(5) by (metis image_eqI subsetD)
  have inj: "inj_on (data_frame s) (L \<times> ?P)" using assms(1) by (simp add: isolated_def)
  have "inj_on (data_frame s') (insert i L \<times> ?P)"
  proof (rule inj_onI)
    fix x y assume x: "x \<in> insert i L \<times> ?P" and y: "y \<in> insert i L \<times> ?P" and xy: "data_frame s' x = data_frame s' y"
    obtain j p k q where e2: "x = (j, p)" "y = (k, q)" by (metis surj_pair)
    have j: "j = i \<or> j \<in> L" "p \<in> ?P" "k = i \<or> k \<in> L" "q \<in> ?P" and e: "data_frame s' (j, p) = data_frame s' (k, q)"
      using x y xy e2 by auto
    from j consider "j = i" "k = i" | "j = i" "k \<in> L" "k \<noteq> i" | "j \<in> L" "k = i" "j \<noteq> i" | "j \<in> L" "k \<in> L" "j \<noteq> i" "k \<noteq> i"
      by blast
    then have "j = k \<and> p = q"
    proof cases
      case 1
      then have "ds ! (p - 264) = ds ! (q - 264)" using e j assms(7) by simp
      then have "p - 264 = q - 264" using j assms(3) nth_eq_iff_index_eq [OF assms(4), of "p - 264" "q - 264"] by auto
      with 1 j show ?thesis by auto
    next
      case 2
      then have "ds ! (p - 264) = data_frame s (k, q)" using e j assms(6,7) by simp
      with apart [OF 2(2) j(4,2)] show ?thesis by simp
    next
      case 3
      then have "ds ! (q - 264) = data_frame s (j, p)" using e j assms(6,7) by simp
      with apart [OF 3(1) j(2,4)] show ?thesis by simp
    next
      case 4
      then have "data_frame s (j, p) = data_frame s (k, q)" using e j assms(6) by simp
      with inj have "(j, p) = (k, q)" by (rule inj_onD) (use 4 j in simp_all)
      then show ?thesis by simp
    qed
    then show "x = y" by (simp add: e2)
  qed
  with assms(8) show ?thesis by (simp add: isolated_def)
qed

lemma forked_isolated:
  assumes "isolated s L" and "i \<notin> L" and "i \<noteq> cp" and "cp \<in> L"
    and "length ds = 20" and "distinct ds" and "unat ` set ds \<subseteq> free_frames (phys_mem s)"
    and "free_frames pm = free_frames (phys_mem s) - unat ` set ds"
  shows "isolated (forked s c cp i u k ds pm m h) (insert i L)" (is "isolated ?s _")
proof (rule isolated_insert [OF assms(1,2)])
  have words: "unat f < 2 ^ 20" if "f \<in> set ds" for f using free_frame_words [OF _ that] assms(7) by blast
  show "data_frame ?s (j, p) = data_frame s (j, p)" if "j \<in> L" "264 \<le> p" "p < 284" for j p
    using that assms(2) by (auto simp: data_frame_def forked_def without_window_def)
  show "data_frame ?s (i, p) = ds ! (p - 264)" if "264 \<le> p" "p < 284" for p
  proof -
    have "ds ! (p - 264) \<in> set ds" using that assms(5) by (intro nth_mem) simp
    then have "ds ! (p - 264) AND 0xFFFFF = ds ! (p - 264)" using words and_20_bits by blast
    then show ?thesis using that assms(3) by (simp add: data_frame_def forked_def child_table_def)
  qed
  show "data_mapped ?s j" if j: "j \<in> insert i L" for j
  proof (cases "j = i \<or> j = cp")
    case True
    have "data_mapped s cp" using assms(1,4) by (simp add: isolated_def)
    then show ?thesis using True data_mapped_forked [OF _ assms(3,5) words assms(8)] by blast
  next
    case False
    then have "data_mapped s j" using j assms(1) by (simp add: isolated_def)
    then show ?thesis using False assms(8) by (auto simp: data_mapped_def forked_def)
  qed
qed (use assms(5-8) in simp_all)

lemma fork_ok:
  assumes "calling s Q M c cp" and "stack_slot (sym s) (ebp s) = Some (c, Suc k)"
  shows "keeps_ok (sys_fork s)"
proof (cases "Q Freequeue = [] \<or> Q Free_threadqueue = []")
  case True
  then have "sys_fork s = Some (- ENOMEM, s)" using kinv_empty [OF calling_kinv [OF assms(1)]] by (auto simp: sys_fork_def)
  then show ?thesis using calling_ok [OF assms(1)] by simp
next
  case False
  note kv = calling_kinv [OF assms(1)] and iso = calling_isolated [OF assms(1)]
  obtain n fs m us where nm: "Q Freequeue = n # fs" "Q Free_threadqueue = m # us" using False by (meson neq_Nil_conv)
  obtain i where i: "n = TaskList i" using kmid_member [OF kinv_kmid [OF kv], of Freequeue n] nm by (cases n) auto
  obtain u where u: "m = ThreadList u" using kmid_member [OF kinv_kmid [OF kv], of Free_threadqueue m] nm by (cases m) auto
  have q: "Q Freequeue = TaskList i # fs" "Q Free_threadqueue = ThreadList u # us" using nm i u by simp_all
  note new = free_not_live [OF assms(1) q(1)]
  have cpL: "cp \<in> live Q cp" by (simp add: live_def)
  then have dm: "data_mapped s cp" using iso by (simp add: isolated_def)
  show ?thesis
  proof (cases "card (free_frames (phys_mem s)) < 20")
    case True
    let ?n = "card (free_frames (phys_mem s))" and ?Q = "Q(Freequeue := fs @ [TaskList i], Free_threadqueue := us)"
    obtain pm h where f: "sys_fork s = Some (- EAGAIN, fork_undone s c i u pm ?n h)"
      "free_frames pm = free_frames (phys_mem s) - {256}" "kinv (fork_undone s c i u pm ?n h) ?Q M c cp"
      by (rule sys_fork_fails [OF kv calling_in [OF assms(1)] q True])
    have "isolated (fork_undone s c i u pm ?n h) (live Q cp)"
      by (rule isolated_change [OF iso order_refl]) (use f(2) new in \<open>auto simp: fork_undone_def\<close>)
    moreover have "live ?Q cp = live Q cp" by (rule live_cong) simp
    ultimately show ?thesis using kernel_okI [OF f(3)] f(1) by simp
  next
    case False
    then have twenty: "20 \<le> card (free_frames (phys_mem s))" by simp
    obtain ds pm where t: "take_frames alloc_frame 20 (phys_mem s) = (ds, pm)" by fastforce
    note fr = fp.take_frames_spec [OF twenty t]
    let ?Q = "Q(Freequeue := fs, Free_threadqueue := us, Readyqueue := Q Readyqueue @ [TaskList i], ReadyThreads i := [ThreadList u])"
    obtain h m where f: "sys_fork s = Some (global_PID s + 1, forked s c cp i u k ds pm m h)"
      "kinv (forked s c cp i u k ds pm m h) ?Q M c cp"
      by (rule sys_fork_step [OF kv calling_in [OF assms(1)] assms(2) q t twenty dm])
    let ?s = "forked s c cp i u k ds pm m h"
    have L: "live ?Q cp = insert i (live Q cp)" by (auto simp: live_def)
    have "isolated ?s (insert i (live Q cp))"
      by (rule forked_isolated [OF iso new cpL]) (use fr in auto)
    then show ?thesis using kernel_okI [OF f(2)] f(1) by (simp add: L)
  qed
qed

section \<open>Mutexes\<close>

text \<open>A change of a mutex, a list head or a thread's state keeps the process's memory.\<close>

lemma memory_same_ok:
  assumes "calling s Q M c cp" and "kinv s' Q' M' c cp" and "Q' Readyqueue = Q Readyqueue"
    and "pagusr_table s' = pagusr_table s" and "phys_mem s' = phys_mem s"
  shows "kernel_ok s'"
  using kernel_okI [OF assms(2)] isolated_same [OF calling_isolated [OF assms(1)] assms(4,5)] live_cong [of Q' Q cp, OF assms(3)]
  by simp

lemma mutexes_ok: "calling s Q M c cp \<Longrightarrow> kernel_ok (s\<lparr>mutexes := x\<rparr>)"
  by (rule memory_same_ok) (auto simp: kinv_mutexes dest: calling_kinv)

lemma no_waiters:
  assumes "kinv s Q M c cp" and "lh_next (heap s (MutexBlocked m)) = None \<or> list_empty (MutexBlocked m) (heap s)"
    and "m \<in> M"
  shows "Q (MutexBlocked m) = []"
  using shape_empty_iff [OF kmid_shape [OF kinv_kmid [OF assms(1)]], of "MutexBlocked m"]
    shape_first [OF kmid_shape [OF kinv_kmid [OF assms(1)]], of "MutexBlocked m"] assms(2,3)
  by (auto simp: list_first_def)

lemma mutex_init_ok:
  assumes "calling s Q M c cp" and "lh_next (heap s (MutexBlocked (unat n))) = None \<or> list_empty (MutexBlocked (unat n)) (heap s)"
  shows "keeps_ok (sys_mutex_init n s)"
proof (cases "bad_mutex n \<or> owner (mutexes s (unat n)) \<noteq> 0")
  case True
  then show ?thesis using calling_ok [OF assms(1)] by (auto simp: sys_mutex_init_def Let_def)
next
  case False
  note k = calling_kinv [OF assms(1)]
  note e = no_waiters [OF k assms(2)]
  have b: "\<not> bad_mutex n" "owner (mutexes s (unat n)) = 0" "unat n \<in> M \<longrightarrow> Q (MutexBlocked (unat n)) = []"
    using False e by simp_all
  obtain s' where s': "sys_mutex_init n s = Some (0, s')"
    "s' = s\<lparr>mutexes := (mutexes s)(unat n := (mutexes s (unat n))\<lparr>owner := TID (threads s c), locked := 0\<rparr>),
      heap := INIT_LIST_HEAD (MutexBlocked (unat n)) (heap s)\<rparr>"
    "kinv s' (Q(MutexBlocked (unat n) := [])) (insert (unat n) M) c cp"
    by (rule sys_mutex_init_step [OF k calling_in [OF assms(1)] b])
  have "kernel_ok s'" by (rule memory_same_ok [OF assms(1) s'(3)]) (simp_all add: s'(2))
  with s'(1) show ?thesis by simp
qed

lemma mutex_lock_ok:
  assumes "calling s Q M c cp" and "locked (mutexes s (unat n)) = 0 \<or> lh_next (heap s (MutexBlocked (unat n))) \<noteq> None"
  shows "keeps_ok (sys_mutex_lock n s)"
proof -
  note k = calling_kinv [OF assms(1)] calling_in [OF assms(1)]
  consider "bad_mutex n \<or> sint (owner (mutexes s (unat n))) < 0"
    | "\<not> bad_mutex n" "\<not> sint (owner (mutexes s (unat n))) < 0" "locked (mutexes s (unat n)) = 0"
    | "\<not> bad_mutex n" "\<not> sint (owner (mutexes s (unat n))) < 0" "locked (mutexes s (unat n)) \<noteq> 0"
        "Q (ReadyThreads cp) = []"
    | "\<not> bad_mutex n" "\<not> sint (owner (mutexes s (unat n))) < 0" "locked (mutexes s (unat n)) \<noteq> 0"
        "Q (ReadyThreads cp) \<noteq> []"
    by blast
  moreover have M: "unat n \<in> M" if "\<not> bad_mutex n" "locked (mutexes s (unat n)) \<noteq> 0"
    using unmade_head [OF kinv_kmid [OF k(1)] _ good_mutex [OF that(1)]] assms(2) that(2) by fastforce
  ultimately show ?thesis
  proof cases
    case 1
    then show ?thesis using calling_ok [OF assms(1)] by (auto simp: sys_mutex_lock_def Let_def)
  next
    case 2
    then show ?thesis using sys_mutex_lock_free mutexes_ok [OF assms(1)] by simp
  next
    case 3
    then have "0 \<le> sint (owner (mutexes s (unat n)))" by simp
    with 3 show ?thesis using lock_alone [OF k 3(1)] M [OF 3(1,3)] by simp
  next
    case 4
    obtain t ts where t: "Q (ReadyThreads cp) = ThreadList t # ts" by (rule next_ready [OF assms(1) 4(4)])
    obtain s' where s': "sys_mutex_lock n s = Some (0, s')"
      "kinv s' (Q(MutexBlocked (unat n) := Q (MutexBlocked (unat n)) @ [ThreadList c], ReadyThreads cp := ts)) M t cp"
      "same_rest s s'" by (rule sys_mutex_lock_wait [OF k 4(1) M [OF 4(1,3)] 4(2,3) t])
    have "kernel_ok s'" by (rule switched_ok [OF assms(1) s'(2,3)]) simp
    with s'(1) show ?thesis by simp
  qed
qed

lemma mutex_unlock_ok:
  assumes "calling s Q M c cp"
    and "\<And>t. list_first (MutexBlocked (unat n)) (heap s) = Some (ThreadList t) \<Longrightarrow> thread_p (threads s t) = Some cp"
  shows "keeps_ok (sys_mutex_unlock n s)"
proof -
  note k = calling_kinv [OF assms(1)] calling_in [OF assms(1)]
  consider "bad_mutex n \<or> sint (owner (mutexes s (unat n))) < 0 \<or> locked (mutexes s (unat n)) = 0"
    | "\<not> bad_mutex n" "\<not> sint (owner (mutexes s (unat n))) < 0" "locked (mutexes s (unat n)) \<noteq> 0"
        "unat n \<in> M \<longrightarrow> Q (MutexBlocked (unat n)) = []"
    | "\<not> bad_mutex n" "\<not> sint (owner (mutexes s (unat n))) < 0" "locked (mutexes s (unat n)) \<noteq> 0"
        "unat n \<in> M" "Q (MutexBlocked (unat n)) \<noteq> []"
    by blast
  then show ?thesis
  proof cases
    case 1
    then show ?thesis using calling_ok [OF assms(1)] by (auto simp: sys_mutex_unlock_def Let_def)
  next
    case 2
    then show ?thesis using unlock_without_waiters [OF k(1) 2(1) _ 2(4)] by simp
  next
    case 3
    let ?b = "MutexBlocked (unat n)"
    have H: "?b \<in> heads M" using 3(4) by simp
    obtain x ws where x: "Q ?b = x # ws" using 3(5) by (cases "Q ?b") auto
    then have "member_ok s Q c ?b x" by (intro kmid_member [OF kinv_kmid [OF k(1)] H]) simp
    then obtain t where t: "x = ThreadList t" by (cases x) auto
    have q: "Q ?b = ThreadList t # ws" using x t by simp
    obtain s' h where s': "sys_mutex_unlock n s = Some (0, s')"
      "s' = s\<lparr>heap := h, threads := (threads s)(t := (threads s t)\<lparr>thread_state := ST_READY\<rparr>),
        mutexes := (mutexes s)(unat n := (mutexes s (unat n))\<lparr>locked := if ws = [] then 0 else locked (mutexes s (unat n))\<rparr>)\<rparr>"
      "thread_p (threads s t) = Some cp \<longrightarrow>
        kinv s' (Q(?b := ws, ReadyThreads cp := Q (ReadyThreads cp) @ [ThreadList t])) M c cp"
      by (rule sys_mutex_unlock_step [OF k 3(1,4,2,3) q])
    have "list_first ?b (heap s) = Some (ThreadList t)"
      using shape_first [OF kmid_shape [OF kinv_kmid [OF k(1)]] H] q by simp
    then have "kinv s' (Q(?b := ws, ReadyThreads cp := Q (ReadyThreads cp) @ [ThreadList t])) M c cp"
      using assms(2) s'(3) by blast
    then have "kernel_ok s'" by (rule memory_same_ok [OF assms(1)]) (simp_all add: s'(2))
    with s'(1) show ?thesis by simp
  qed
qed

lemma mutex_destroy_ok:
  assumes "calling s Q M c cp" and "lh_next (heap s (MutexBlocked (unat n))) = None \<or> list_empty (MutexBlocked (unat n)) (heap s)"
  shows "keeps_ok (sys_mutex_destroy n s)"
proof -
  note k = calling_kinv [OF assms(1)] calling_in [OF assms(1)]
  consider "bad_mutex n \<or> sint (owner (mutexes s (unat n))) \<le> 0 \<or> TID (threads s c) \<noteq> owner (mutexes s (unat n))"
    | "\<not> bad_mutex n" "0 < sint (owner (mutexes s (unat n)))" "TID (threads s c) = owner (mutexes s (unat n))"
    by linarith
  then show ?thesis
  proof cases
    case 1
    then show ?thesis using calling_ok [OF assms(1)] kinv_current [OF k] by (auto simp: sys_mutex_destroy_def Let_def)
  next
    case 2
    then show ?thesis
      using destroy_unmade [OF k 2(1) _ 2(2,3)] sys_mutex_destroy_step [OF k 2(1) _ 2(2,3)] mutexes_ok [OF assms(1)]
        no_waiters [OF k(1) assms(2)] by (cases "unat n \<in> M") simp_all
  qed
qed

section \<open>Every step\<close>

lemma table_calls:
  assumes "k < 35"
  shows "sys_call_table ! k = Sys_yield \<Longrightarrow> k = 13"
    and "sys_call_table ! k = Sys_mutex_init \<Longrightarrow> k = 26" and "sys_call_table ! k = Sys_mutex_lock \<Longrightarrow> k = 27"
    and "sys_call_table ! k = Sys_mutex_unlock \<Longrightarrow> k = 28" and "sys_call_table ! k = Sys_mutex_destroy \<Longrightarrow> k = 29"
proof -
  have "\<forall>k \<in> set [0..<35]. (sys_call_table ! k = Sys_yield \<longrightarrow> k = 13)
     \<and> (sys_call_table ! k = Sys_mutex_init \<longrightarrow> k = 26) \<and> (sys_call_table ! k = Sys_mutex_lock \<longrightarrow> k = 27)
     \<and> (sys_call_table ! k = Sys_mutex_unlock \<longrightarrow> k = 28) \<and> (sys_call_table ! k = Sys_mutex_destroy \<longrightarrow> k = 29)" by code_simp
  with assms show "sys_call_table ! k = Sys_yield \<Longrightarrow> k = 13"
    "sys_call_table ! k = Sys_mutex_init \<Longrightarrow> k = 26" "sys_call_table ! k = Sys_mutex_lock \<Longrightarrow> k = 27"
    "sys_call_table ! k = Sys_mutex_unlock \<Longrightarrow> k = 28" "sys_call_table ! k = Sys_mutex_destroy \<Longrightarrow> k = 29" by simp_all
qed

lemma call_sys_ok:
  assumes "calling s Q M c cp" and "stack_slot (sym s) (ebp s) = Some (c, Suc k)"
    and "y = Sys_yield \<Longrightarrow> Q (ReadyThreads cp) \<noteq> []"
    and "y = Sys_mutex_init \<or> y = Sys_mutex_destroy \<Longrightarrow>
      lh_next (heap s (MutexBlocked (unat b))) = None \<or> list_empty (MutexBlocked (unat b)) (heap s)"
    and "y = Sys_mutex_lock \<Longrightarrow> locked (mutexes s (unat b)) = 0 \<or> lh_next (heap s (MutexBlocked (unat b))) \<noteq> None"
    and "\<And>t. y = Sys_mutex_unlock \<Longrightarrow> list_first (MutexBlocked (unat b)) (heap s) = Some (ThreadList t) \<Longrightarrow>
      thread_p (threads s t) = Some cp"
  shows "keeps_ok (call_sys y b cx dx s)"
proof -
  note ok = calling_ok [OF assms(1)] and cur = kinv_current [OF calling_kinv [OF assms(1)] calling_in [OF assms(1)]]
  note calls = exit_ok [OF assms(1)] fork_ok [OF assms(1,2)] write_ok [OF ok] create_ok [OF assms(1)]
    yield_ok [OF assms(1)] join_ok [OF assms(1)] pthread_exit_ok [OF assms(1)] mutex_init_ok [OF assms(1)]
    mutex_lock_ok [OF assms(1)] mutex_unlock_ok [OF assms(1)] mutex_destroy_ok [OF assms(1)]
  show ?thesis
    using assms(3-6) ok cur by (cases y) (simp_all add: calls sys_ni_syscall_def sys_gettime_def sys_getpid_def)
qed

lemma call_ok:
  assumes "kinv s Q M c cp" and "isolated s (live Q cp)" and "call_rules r s"
  shows "keeps_ok (system_call_handler r s)"
proof -
  note e = system_call_handler_eq [OF assms(1), of r]
  let ?s = "in_call r c s" and ?b = "MutexBlocked (unat (r_ebx r))"
  have "isolated ?s (live Q cp)" by (rule isolated_same [OF assms(2)]) (simp_all add: in_call_def)
  then have cl: "calling ?s Q M c cp" using e(2,3) by (simp add: calling_def)
  have cp: "cp < 10" using kinv_proc [OF assms(1)] by (simp add: proc_running_def)
  have view: "heap ?s = heap s" "mutexes ?s = mutexes s" "thread_p (threads ?s t) = thread_p (threads s t)" for t
    by (simp_all add: in_call_def)
  have rules: "r_eax r = 13 \<Longrightarrow> Q (ReadyThreads cp) \<noteq> []"
    "r_eax r = 26 \<or> r_eax r = 29 \<Longrightarrow> lh_next (heap ?s ?b) = None \<or> list_empty ?b (heap ?s)"
    "r_eax r = 27 \<Longrightarrow> locked (mutexes ?s (unat (r_ebx r))) = 0 \<or> lh_next (heap ?s ?b) \<noteq> None"
    "r_eax r = 28 \<Longrightarrow> (case list_first ?b (heap ?s) of Some (ThreadList t) \<Rightarrow> thread_p (threads s t) = Some cp | _ \<Rightarrow> True)"
    using assms(3) kinv_tables(3) [OF assms(1)] shape_empty_iff [OF kmid_shape [OF kinv_kmid [OF assms(1)]], of "ReadyThreads cp"] cp
    by (simp_all add: call_rules_def view Let_def)
  show ?thesis
  proof (cases "0 \<le> sint (r_eax r) \<and> unat (r_eax r) < 35")
    case False
    then have "dispatch (r_eax r) (r_ebx r) (r_ecx r) (r_edx r) ?s \<in> {None, Some (- ENOSYS, ?s)}"
      by (auto simp: dispatch_def sys_call_table_def)
    then show ?thesis using e(1) calling_ok [OF cl] by auto
  next
    case True
    let ?y = "sys_call_table ! unat (r_eax r)"
    have "sint (r_eax r) = int (unat (r_eax r))" using True by (intro sint_nonneg32) simp
    then have small: "\<not> sint (r_eax r) < 0" "\<not> MAX_SYSCALL < sint (r_eax r)" using True unfolding MAX_SYSCALL_def by linarith+
    have "length sys_call_table = 35" by (simp add: sys_call_table_def)
    with small have d: "system_call_handler r s = call_sys ?y (r_ebx r) (r_ecx r) (r_edx r) ?s"
      using True by (simp only: e(1) dispatch_def if_False if_True)
    have n: "r_eax r = of_nat (unat (r_eax r))" by simp
    have y: "?y = Sys_yield \<Longrightarrow> r_eax r = 13" "?y = Sys_mutex_init \<or> ?y = Sys_mutex_destroy \<Longrightarrow> r_eax r = 26 \<or> r_eax r = 29"
      "?y = Sys_mutex_lock \<Longrightarrow> r_eax r = 27" "?y = Sys_mutex_unlock \<Longrightarrow> r_eax r = 28"
      using table_calls [OF conjunct2 [OF True]] n by (metis of_nat_numeral)+
    show ?thesis unfolding d
    proof (rule call_sys_ok [OF cl e(4)])
      show "thread_p (threads ?s t) = Some cp" if "?y = Sys_mutex_unlock" "list_first ?b (heap ?s) = Some (ThreadList t)" for t
        using rules(4) [OF y(4) [OF that(1)]] that(2) by (simp add: view)
    qed (use rules(1-3) y(1-3) in blast)+
  qed
qed

lemma tick_ok:
  assumes "kinv s Q M c cp" and "isolated s (live Q cp)" and "extra \<le> 1000"
  obtains s' where "clock_handler clk extra s = Some s'" and "kernel_ok s'"
proof -
  obtain s' Q' c' cp' where s': "clock_handler clk extra s = Some s'" "kinv s' Q' M c' cp'"
    "sched_view s' Q' c' cp' = rr_tick (get_quantum_p s) (get_quantum_t s) (sched_view s Q c cp)"
    "phys_mem s' = phys_mem s" "pagusr_table s' = pagusr_table s"
    by (rule clock_handler_step [OF assms(1,3)]) (rule that)
  have "live Q' cp' = live Q cp"
    unfolding live_view [of Q' cp' s' c'] live_view [of Q cp s c] s'(3) by (rule rr_tick_live)
  then have "isolated s' (live Q' cp')" using isolated_same [OF assms(2) s'(5,4)] by simp
  then show thesis by (intro that [OF s'(1)] kernel_okI [OF s'(2)])
qed

lemma key_ok:
  assumes "kinv s Q M c cp" and "isolated s (live Q cp)" and "extra \<le> 1000" and "keyboard_handler k extra s = Some s'"
  shows "kernel_ok s'"
proof -
  let ?s = "kernel_entry (17 + extra) (17 + extra) s"
  have "kinv ?s Q M c cp" using kernel_entry_in_kernel [OF assms(1), of "17 + extra" "17 + extra"] assms(3) by (simp add: entry_depth_def)
  moreover have "isolated ?s (live Q cp)" by (rule isolated_same [OF assms(2)]) (simp_all add: kernel_entry_def)
  ultimately have "kernel_ok ?s" by (rule kernel_okI)
  then show ?thesis using assms(4) by (auto simp: keyboard_handler_def keyboard_routine_def con_ok split: if_splits)
qed

lemma store_ok:
  assumes "kinv s Q M c cp" and "isolated s (live Q cp)" and "user_store a v s = Some s'"
  shows "kernel_ok s'"
proof -
  obtain m where s': "s' = s\<lparr>ram := m\<rparr>"
    using assms(3) by (auto simp: user_store_def split: Option.bind_splits if_splits)
  have "kinv s' Q M c cp" using assms(1) kinv_cong [of s' s Q M c cp] by (simp add: s')
  moreover have "isolated s' (live Q cp)" by (rule isolated_same [OF assms(2)]) (simp_all add: s')
  ultimately show ?thesis by (rule kernel_okI)
qed

lemma orderly_ok:
  assumes "kernel_ok s" and "orderly clk a s" and "kstep clk s a s'"
  shows "kernel_ok s'"
proof -
  obtain Q M c cp where k: "kinv s Q M c cp" "isolated s (live Q cp)" using assms(1) by (auto simp: kernel_ok_def)
  have f: "act clk a s = Some s'" "action_rules a s" using assms(2,3) by (auto simp: orderly_def kstep_iff)
  show ?thesis
  proof (cases a)
    case (Clock extra)
    obtain s'' where "clock_handler clk extra s = Some s''" "kernel_ok s''"
      by (rule tick_ok [OF k]) (use f(2) Clock in simp)
    with f(1) Clock show ?thesis by simp
  next
    case (Keyboard sc extra)
    then show ?thesis using key_ok [OF k] f by simp
  next
    case (Call r)
    then obtain v where "system_call_handler r s = Some (v, s')" using f(1) by auto
    then show ?thesis using call_ok [OF k, of r] f(2) Call by simp
  next
    case (Store p v)
    then show ?thesis using store_ok [OF k] f(1) by simp
  qed
qed

lemma orderly_run_ok: "orderly_run clk s0 as s \<Longrightarrow> kernel_ok s0 \<Longrightarrow> kernel_ok s"
  by (induction rule: orderly_run.induct) (auto intro: orderly_ok)

section \<open>From the start\<close>

lemma main_ok:
  assumes "layout_ok \<sigma>" and "image_ok \<sigma> mem" and "main (kernel0 \<sigma> mem video sp) = Some s0"
  shows "kernel_ok s0"
proof -
  obtain cs m1 where 1: "take_frames alloc_frame 8 (init_frames (\<lambda>_. 0)) = (cs, m1)" by fastforce
  obtain ds m2 where 2: "take_frames alloc_frame 20 m1 = (ds, m2)" by fastforce
  let ?T = "user_pages cs ds (init_table \<sigma> (\<lambda>_. 0))"
  obtain s' where s': "main (kernel0 \<sigma> mem video sp) = Some s'" "kinv s' boot_queues {} 1 1" "phys_mem s' = m2"
    "pagusr_table s' 1 = ?T" by (rule main_eq [OF assms(1,2) 1 2])
  have e: "s' = s0" using s'(1) assms(3) by simp
  have L: "live boot_queues 1 = {1}" by (simp add: live_def)
  note data = boot_data_pages [where \<sigma> = \<sigma> and T = "\<lambda>_. 0", OF 1 2]
  have "data_mapped s' 1" unfolding data_mapped_def s'(3,4) using data(1) by blast
  moreover have "inj_on (data_frame s') ({1} \<times> {264..<284})"
    using data(2) by (auto simp: inj_on_def data_frame_def s'(4) [unfolded One_nat_def])
  ultimately have "isolated s' (live boot_queues 1)" unfolding isolated_def L by simp
  with kernel_okI [OF s'(2)] show ?thesis by (simp add: e)
qed

text \<open>C3: orderly runs keep the kernel in order. From the state \<open>main\<close> leaves, take any sequence of
  clock and keyboard interrupts, system calls (refused ones too) and stores of the running program in
  which every action keeps the rules of \<open>orderly\<close>, listed at the head of this theory. Then the queues
  and descriptors satisfy the invariant, the data pages of the running and the ready processes are
  mapped, each to a frame of its own that is not free, and the next clock interrupt is served. Actions
  that break the rules are steps of \<open>kstep\<close> all the same; the theorem says nothing of what follows them.\<close>

theorem orderly_runs_ok:
  assumes "layout_ok \<sigma>" and "image_ok \<sigma> mem" and "main (kernel0 \<sigma> mem video sp) = Some s0" and "orderly_run clk s0 as s"
  shows "\<exists>Q M c cp. kinv s Q M c cp \<and> (\<forall>i \<in> live Q cp. data_mapped s i)
    \<and> inj_on (\<lambda>(i, p). pbase_addr (pagusr_table s i p)) (live Q cp \<times> {264..<284})
    \<and> (\<forall>extra \<le> 1000. clock_handler clk extra s \<noteq> None)"
proof -
  have "kernel_ok s" by (rule orderly_run_ok [OF assms(4) main_ok [OF assms(1-3)]])
  then obtain Q M c cp where k: "kinv s Q M c cp" "isolated s (live Q cp)" by (auto simp: kernel_ok_def)
  have "clock_handler clk extra s \<noteq> None" if "extra \<le> 1000" for extra
    by (rule tick_ok [OF k that, of clk]) simp
  moreover have "data_frame s = (\<lambda>(i, p). pbase_addr (pagusr_table s i p))"
    by (rule ext) (simp add: data_frame_def split_beta)
  ultimately show ?thesis using k by (intro exI [of _ Q] exI [of _ M] exI [of _ c] exI [of _ cp]) (simp add: isolated_def)
qed

text \<open>A run: the first process forks. Then two processes are live and the parent stores a byte.\<close>

definition fork_call :: user_regs where
  "fork_call = \<lparr>r_eax = 2, r_ebx = 0, r_ecx = 0, r_edx = 0, r_esi = 0, r_edi = 0, r_ebp = 0x11b000, r_ds = 0x2b, r_es = 0x2b,
     r_fs = 0x2b, r_gs = 0x2b, r_eflags = 0x200, ret_addr = 0x100020\<rparr>"

lemma boot_store:
  assumes "take_frames alloc_frame 8 (init_frames (\<lambda>_. 0)) = (cs, m1)" and "take_frames alloc_frame 20 m1 = (ds, m2)"
    and "mmu_table s = Some (without_window (user_pages cs ds (init_table \<sigma> (\<lambda>_. 0))))"
  shows "user_store 0x108000 v s \<noteq> None"
proof -
  note fr = boot_frames [OF assms(1,2)]
  let ?T = "user_pages cs ds (init_table \<sigma> (\<lambda>_. 0))"
  have "ds ! 0 \<in> set (cs @ ds)" using fr(2) by simp
  then have "pool_frame (unat (ds ! 0))" using fr(4) by blast
  then have f: "256 \<le> unat (ds ! 0)" "unat (ds ! 0) < 2 ^ 20" by (simp_all add: pool_frame_def)
  have e: "without_window ?T 264 = user_entry (ds ! 0)" using user_pages_at [OF fr(1,2)] by (simp add: without_window_def)
  have "pbase_addr (user_entry (ds ! 0)) = ds ! 0" using and_20_bits [OF f(2)] by simp
  then show ?thesis using f(1) assms(3) e
    by (simp add: user_store_def user_byte_def translate_def kaddr_def vwrite_def Let_def)
qed

lemma fork_number: "dispatch 2 b c d s = sys_fork s"
  by (simp add: dispatch_def sys_call_table_def)

lemma one_fork:
  obtains s0 v s where "main (kernel0 example_layout (\<lambda>_ _. 0) (\<lambda>_. 0) 0) = Some s0"
    and "image_ok example_layout (\<lambda>_ _. 0)" and "system_call_handler fork_call s0 = Some (v, s)"
    and "orderly_run (\<lambda>_. id) s0 [Call fork_call] s" and "\<not> list_empty Readyqueue (heap s)"
    and "user_store 0x108000 7 s \<noteq> None"
proof -
  have img: "image_ok example_layout (\<lambda>_ _. 0)"
    by (simp add: image_ok_def image_word_def kernel_mapped_def PH_PAGE_def protected_task_addr_def
        elem_addr_def example_layout_def)
  obtain cs m1 where 1: "take_frames alloc_frame 8 (init_frames (\<lambda>_. 0)) = (cs, m1)" by fastforce
  obtain ds m2 where 2: "take_frames alloc_frame 20 m1 = (ds, m2)" by fastforce
  let ?T = "user_pages cs ds (init_table example_layout (\<lambda>_. 0))"
  obtain s0 where s0: "main (kernel0 example_layout (\<lambda>_ _. 0) (\<lambda>_. 0) 0) = Some s0" "kinv s0 boot_queues {} 1 1"
    "phys_mem s0 = m2" "pagusr_table s0 1 = ?T"
    by (rule main_eq [OF example_layout_ok img 1 2, of "\<lambda>_. 0" 0])
  note e = system_call_handler_eq [OF s0(2), of fork_call]
  have eax: "r_eax fork_call = 2" by (simp add: fork_call_def)
  let ?s = "in_call fork_call 1 s0"
  have "data_mapped ?s 1" using boot_data_pages(1) [OF 1 2, of _ example_layout "\<lambda>_. 0"]
    by (simp add: data_mapped_def in_call_def s0(3) s0(4) [unfolded One_nat_def])
  moreover have twenty: "20 \<le> card (free_frames (phys_mem ?s))"
    using boot_frames(5) [OF 1 2] by (simp add: in_call_def s0(3))
  moreover obtain ns pm where 3: "take_frames alloc_frame 20 (phys_mem ?s) = (ns, pm)" by fastforce
  ultimately obtain h m where f: "sys_fork ?s = Some (global_PID ?s + 1, forked ?s 1 1 2 2 1005 ns pm m h)"
    "kinv (forked ?s 1 1 2 2 1005 ns pm m h) (boot_queues(Freequeue := map TaskList [3..<10],
      Free_threadqueue := map ThreadList [3..<10], Readyqueue := boot_queues Readyqueue @ [TaskList 2],
      ReadyThreads 2 := [ThreadList 2])) {} 1 1"
    by - (rule sys_fork_step [OF e(2-4) boot_free 3])
  let ?f = "forked ?s 1 1 2 2 1005 ns pm m h"
  have call: "system_call_handler fork_call s0 = Some (global_PID ?s + 1, ?f)"
    unfolding e(1) eax fork_number by (rule f(1))
  have "act (\<lambda>_. id) (Call fork_call) s0 = Some ?f" by (simp add: call)
  moreover have "call_rules fork_call s0" using kinv_tables(3) [OF s0(2)] by (simp add: call_rules_def fork_call_def Let_def)
  ultimately have "orderly (\<lambda>_. id) (Call fork_call) s0" "kstep (\<lambda>_. id) s0 (Call fork_call) ?f"
    by (auto simp: orderly_def kstep_iff)
  then have run: "orderly_run (\<lambda>_. id) s0 [Call fork_call] ?f" using step [OF start] by fastforce
  have ne: "\<not> list_empty Readyqueue (heap ?f)" using shape_empty_iff [OF kmid_shape [OF kinv_kmid [OF f(2)]], of Readyqueue] by simp
  have "pagusr_table ?f 1 = without_window ?T" by (simp add: forked_def in_call_def s0(4) [unfolded One_nat_def])
  then have "user_store 0x108000 7 ?f \<noteq> None" using kinv_tables(2) [OF f(2)] by (intro boot_store [OF 1 2]) simp
  with s0(1) img call run ne show thesis by (rule that)
qed

lemma ready_other:
  assumes "kinv s Q M c cp" and "\<not> list_empty Readyqueue (heap s)"
  obtains i where "TaskList i \<in> set (Q Readyqueue)"
proof -
  have "Q Readyqueue \<noteq> []" using assms(2) shape_empty_iff [OF kmid_shape [OF kinv_kmid [OF assms(1)]], of Readyqueue] by simp
  then obtain n where n: "n \<in> set (Q Readyqueue)" by fastforce
  then obtain i where "n = TaskList i" by (rule kmid_ready_proc [OF kinv_kmid [OF assms(1)]])
  with n show thesis by (intro that) simp
qed

lemma orderly_runs_ok_witness:
  "\<exists>s0 v s. main (kernel0 example_layout (\<lambda>_ _. 0) (\<lambda>_. 0) 0) = Some s0 \<and> system_call_handler fork_call s0 = Some (v, s)
     \<and> clock_handler (\<lambda>_. id) 4 s \<noteq> None
     \<and> (\<exists>Q M c cp i. kinv s Q M c cp \<and> TaskList i \<in> set (Q Readyqueue) \<and> data_mapped s cp \<and> data_mapped s i)"
proof -
  obtain s0 v s where s: "main (kernel0 example_layout (\<lambda>_ _. 0) (\<lambda>_. 0) 0) = Some s0"
    "image_ok example_layout (\<lambda>_ _. 0)" "system_call_handler fork_call s0 = Some (v, s)"
    "orderly_run (\<lambda>_. id) s0 [Call fork_call] s" "\<not> list_empty Readyqueue (heap s)" by (rule one_fork)
  obtain Q M c cp where k: "kinv s Q M c cp" "\<forall>i \<in> live Q cp. data_mapped s i" "clock_handler (\<lambda>_. id) 4 s \<noteq> None"
    using orderly_runs_ok [OF example_layout_ok s(2,1,4)] by (metis numeral_le_iff semiring_norm(68,69,71))
  obtain i where i: "TaskList i \<in> set (Q Readyqueue)" by (rule ready_other [OF k(1) s(5)])
  then have "i \<in> live Q cp" "cp \<in> live Q cp" by (force simp: live_def)+
  with k i s(1,3) show ?thesis by blast
qed

text \<open>Where the data pages of a live process are.\<close>

lemma data_kaddr:
  assumes "isolated s L" and "i \<in> L" and "264 * 4096 \<le> unat a" and "unat a < 284 * 4096"
  shows "kaddr (pagusr_table s i) a = Some (unat (data_frame s (i, unat a div 4096)), unat a mod 4096)"
    and "264 \<le> unat a div 4096" and "unat a div 4096 < 284"
proof -
  show p: "264 \<le> unat a div 4096" "unat a div 4096 < 284" using assms(3,4) by (simp_all add: less_mult_imp_div_less less_eq_div_iff_mult_less_eq)
  with assms(1,2) have "pte_present (pagusr_table s i (unat a div 4096))" by (simp add: isolated_def data_mapped_def)
  with p show "kaddr (pagusr_table s i) a = Some (unat (data_frame s (i, unat a div 4096)), unat a mod 4096)"
    by (simp add: kaddr_def data_frame_def)
qed

lemma store_private:
  assumes "kinv s Q M c cp" and "isolated s (live Q cp)" and "user_store a v s = Some s'"
    and "264 * 4096 \<le> unat a" and "unat a < 284 * 4096" and "TaskList i \<in> set (Q Readyqueue)"
    and "264 * 4096 \<le> unat b" and "unat b < 284 * 4096"
  shows "vread (pagusr_table s cp) (ram s') a = Some v"
    and "vread (pagusr_table s i) (ram s') b = vread (pagusr_table s i) (ram s) b"
proof -
  have L: "cp \<in> live Q cp" "i \<in> live Q cp" using assms(6) by (force simp: live_def)+
  have "queued (heads M) Q (TaskList i)" by (rule queuedI [of Readyqueue]) (use assms(6) in simp_all)
  then have ne: "i \<noteq> cp" using kinv_proc [OF assms(1)] by (auto simp: proc_running_def)
  note ka = data_kaddr [OF assms(2) L(1) assms(4,5)] and kb = data_kaddr [OF assms(2) L(2) assms(7,8)]
  let ?f = "unat (data_frame s (cp, unat a div 4096))" and ?g = "unat (data_frame s (i, unat b div 4096))"
  have s': "s' = s\<lparr>ram := (ram s)(?f := (ram s ?f)(unat a mod 4096 := v))\<rparr>"
    using assms(3) kinv_tables(2) [OF assms(1)] ka(1) by (simp add: user_store_def vwrite_def split: if_splits)
  then show "vread (pagusr_table s cp) (ram s') a = Some v" using ka(1) by (simp add: vread_def)
  have "?g \<noteq> ?f"
  proof
    assume "?g = ?f"
    have "inj_on (data_frame s) (live Q cp \<times> {264..<284})" using assms(2) by (simp add: isolated_def)
    moreover have "data_frame s (i, unat b div 4096) = data_frame s (cp, unat a div 4096)"
      using \<open>?g = ?f\<close> by (simp add: word_unat_eq_iff)
    moreover have "(i, unat b div 4096) \<in> live Q cp \<times> {264..<284}" "(cp, unat a div 4096) \<in> live Q cp \<times> {264..<284}"
      using L ka kb by simp_all
    ultimately have "(i, unat b div 4096) = (cp, unat a div 4096)" by (rule inj_onD)
    with ne show False by simp
  qed
  then show "vread (pagusr_table s i) (ram s') b = vread (pagusr_table s i) (ram s) b"
    using kb(1) by (simp add: vread_def s')
qed

text \<open>C4: in orderly runs processes do not touch each other's data. After a run from the state \<open>main\<close>
  leaves in which every action keeps the rules of \<open>orderly\<close>, a byte that the running program stores
  into its data pages reads back there and changes nothing at any address of the data pages of
  another process that is ready. A program that first writes the kernel's pages, which \<open>fork\<close> opens to
  the child (\<open>fork_page_tables\<close>), leaves the runs the theorem is about.\<close>

theorem data_is_private:
  assumes "layout_ok \<sigma>" and "image_ok \<sigma> mem" and "main (kernel0 \<sigma> mem video sp) = Some s0" and "orderly_run clk s0 as s"
  shows "\<exists>Q M c cp. kinv s Q M c cp \<and> (\<forall>a v s' i b. user_store a v s = Some s'
    \<and> 264 * 4096 \<le> unat a \<and> unat a < 284 * 4096 \<and> TaskList i \<in> set (Q Readyqueue)
    \<and> 264 * 4096 \<le> unat b \<and> unat b < 284 * 4096 \<longrightarrow>
    vread (pagusr_table s cp) (ram s') a = Some v
    \<and> vread (pagusr_table s i) (ram s') b = vread (pagusr_table s i) (ram s) b)"
proof -
  have "kernel_ok s" by (rule orderly_run_ok [OF assms(4) main_ok [OF assms(1-3)]])
  then obtain Q M c cp where "kinv s Q M c cp" "isolated s (live Q cp)" by (auto simp: kernel_ok_def)
  with store_private show ?thesis by (intro exI [of _ Q] exI [of _ M] exI [of _ c] exI [of _ cp]) blast
qed

lemma data_is_private_witness:
  "\<exists>s0 v s s'. main (kernel0 example_layout (\<lambda>_ _. 0) (\<lambda>_. 0) 0) = Some s0 \<and> system_call_handler fork_call s0 = Some (v, s)
     \<and> user_store 0x108000 7 s = Some s'
     \<and> (\<exists>Q M c cp i. kinv s Q M c cp \<and> TaskList i \<in> set (Q Readyqueue)
       \<and> vread (pagusr_table s cp) (ram s') 0x108000 = Some 7
       \<and> vread (pagusr_table s i) (ram s') 0x108000 = vread (pagusr_table s i) (ram s) 0x108000)"
proof -
  obtain s0 v s where s: "main (kernel0 example_layout (\<lambda>_ _. 0) (\<lambda>_. 0) 0) = Some s0"
    "image_ok example_layout (\<lambda>_ _. 0)" "system_call_handler fork_call s0 = Some (v, s)"
    "orderly_run (\<lambda>_. id) s0 [Call fork_call] s" "\<not> list_empty Readyqueue (heap s)" "user_store 0x108000 7 s \<noteq> None"
    by (rule one_fork)
  obtain s' where s': "user_store 0x108000 7 s = Some s'" using s(6) by blast
  have a: "264 * 4096 \<le> unat (0x108000 :: u32)" "unat (0x108000 :: u32) < 284 * 4096" by simp_all
  obtain Q M c cp where k: "kinv s Q M c cp" "\<forall>a v s' i b. user_store a v s = Some s'
    \<and> 264 * 4096 \<le> unat a \<and> unat a < 284 * 4096 \<and> TaskList i \<in> set (Q Readyqueue)
    \<and> 264 * 4096 \<le> unat b \<and> unat b < 284 * 4096 \<longrightarrow>
    vread (pagusr_table s cp) (ram s') a = Some v
    \<and> vread (pagusr_table s i) (ram s') b = vread (pagusr_table s i) (ram s) b"
    using data_is_private [OF example_layout_ok s(2,1,4)] by blast
  obtain i where i: "TaskList i \<in> set (Q Readyqueue)" by (rule ready_other [OF k(1) s(5)])
  from k(2) [rule_format, of "0x108000" 7 s' i "0x108000"] s' a i k(1) s(1,3) show ?thesis by blast
qed

end
