(* ===== verification/UserMode.thy ===== *)
theory UserMode
  imports Build Tables
begin

text \<open>
  The processor (\<open>hardware.c\<close>, \<open>set_seg_regs\<close> of \<open>system.c\<close> and \<open>set_pe_flag\<close> of \<open>mm.c\<close>): the registers
  the kernel loads, one operation per routine, and the whole of \<open>main\<close> on processor, tables and
  kernel, from the first instruction to the far return into user mode. The words
  \<open>return_gate\<close> pushes are taken off again by its \<open>lret\<close>.
\<close>

section \<open>The processor\<close>

record cpu =
  eflags :: u32
  cr0 :: u32
  reg_cs :: u16
  reg_ds :: u16
  reg_es :: u16
  reg_fs :: u16
  reg_gs :: u16
  reg_ss :: u16
  reg_eip :: u32
  reg_esp :: u32
  idt_reg :: Register
  gdt_reg :: Register
  ldt_reg :: u16
  tr_reg :: u16
  pic_mask :: u8   \<comment> \<open>port \<open>0x21\<close>\<close>

text \<open>Bit 1 of the flags is always set, whatever \<open>popfl\<close> takes from the stack.\<close>

definition get_eflags :: "cpu \<Rightarrow> u32" where
  "get_eflags p = eflags p"

definition set_eflags :: "cpu \<Rightarrow> cpu" where
  "set_eflags p = p\<lparr>eflags := 0 OR 2\<rparr>"

definition set_idt_reg :: "Register \<Rightarrow> cpu \<Rightarrow> cpu" where
  "set_idt_reg r p = p\<lparr>idt_reg := r\<rparr>"

definition set_gdt_reg :: "Register \<Rightarrow> cpu \<Rightarrow> cpu" where
  "set_gdt_reg r p = p\<lparr>gdt_reg := r\<rparr>"

definition set_ldt_reg :: "u16 \<Rightarrow> cpu \<Rightarrow> cpu" where
  "set_ldt_reg ldt p = p\<lparr>ldt_reg := ldt\<rparr>"

definition set_task_reg :: "u16 \<Rightarrow> cpu \<Rightarrow> cpu" where
  "set_task_reg tr p = p\<lparr>tr_reg := tr\<rparr>"

definition delay :: "cpu \<Rightarrow> cpu" where
  "delay p = p"

text \<open>The mask 0xfc leaves the timer and the keyboard enabled; \<open>sti\<close> sets bit 9 of the flags.\<close>

definition enable_int :: "cpu \<Rightarrow> cpu" where
  "enable_int p = (let p1 = delay (p\<lparr>pic_mask := 0xfc\<rparr>) in p1\<lparr>eflags := eflags p1 OR 0x200\<rparr>)"

definition set_pe_flag :: "cpu \<Rightarrow> cpu" where
  "set_pe_flag p = p\<lparr>cr0 := cr0 p OR 0x80000000\<rparr>"

text \<open>\<open>cld\<close> clears bit 10 of the flags.\<close>

definition set_seg_regs :: "u16 \<Rightarrow> u16 \<Rightarrow> u32 \<Rightarrow> cpu \<Rightarrow> cpu" where
  "set_seg_regs data_sel stack_sel stack p =
     (let sp = stack - 5 * 4
      in p\<lparr>eflags := eflags p AND NOT 0x400, reg_ds := data_sel, reg_es := data_sel, reg_fs := data_sel,
           reg_gs := data_sel, reg_ss := stack_sel, reg_esp := sp\<rparr>)"

record machine =
  kern :: kernel
  tabs :: tables
  cpu :: cpu

text \<open>
  \<open>return_gate\<close>: the word at \<open>p_rdtr\<close> is stored 12 bytes above the user's stack pointer, still with
  the kernel's privilege.
\<close>

definition p_rdtr :: u32 where
  "p_rdtr = KERNEL_START + 4 * 2"

definition return_gate :: "u16 \<Rightarrow> u16 \<Rightarrow> u32 \<Rightarrow> u16 \<Rightarrow> u32 \<Rightarrow> machine \<Rightarrow> machine option" where
  "return_gate ds ss sp cs eip m = do {
     PT \<leftarrow> mmu_table (kern m);
     rdtr \<leftarrow> vload32 PT (ram (kern m)) p_rdtr;
     let p1 = (cpu m)\<lparr>reg_es := ds, reg_ds := ds\<rparr>;
     r \<leftarrow> vstore32 PT (sp + 12) rdtr (ram (kern m));
     Some (m\<lparr>kern := (kern m)\<lparr>ram := r\<rparr>,
       cpu := p1\<lparr>reg_cs := cs, reg_eip := eip, reg_ss := ss, reg_esp := sp\<rparr>\<rparr>)
   }"

text \<open>\<open>cpu_idle\<close> up to its empty loop, in which only an interrupt takes the processor away.\<close>

definition cpu_idle :: "machine \<Rightarrow> machine option" where
  "cpu_idle m = do {
     c \<leftarrow> printk (cstring (''IDLE'' @ [CHR 0x0A])) (con (kern m));
     Some (m\<lparr>kern := (kern m)\<lparr>con := c\<rparr>, cpu := (cpu m)\<lparr>eflags := eflags (cpu m) OR 0x200\<rparr>\<rparr>)
   }"

text \<open>
  \<open>main\<close> in full. \<open>init_kernel\<close> is the run from \<open>init_mm\<close> to \<open>init_task1\<close>; paging is switched on at the
  end of \<open>init_mm\<close>. \<open>sh\<close> is \<open>set_handlers\<close> of \<open>libzeos\<close> and \<open>a\<close> holds the handlers' addresses.
\<close>

definition system_main :: "((nat \<Rightarrow> Gate) \<Rightarrow> nat \<Rightarrow> Gate) \<Rightarrow> handlers \<Rightarrow> machine \<Rightarrow> machine option" where
  "system_main sh a m = do {
     let p1 = set_eflags (cpu m);
     let p2 = set_seg_regs KERNEL_DS KERNEL_DS (protected_task_addr (sym (kern m)) 5) p1;
     c1 \<leftarrow> printk (cstring (''Kernel Loaded!    '' @ [CHR 0x0A])) (con (kern m));
     let k1 = (kern m)\<lparr>con := c1\<rparr>;
     let t1 = setGdt a (tabs m);
     let p3 = set_gdt_reg (gdtR t1) p2;
     let t2 = setIdt sh a t1;
     let p4 = set_idt_reg (idtR t2) p3;
     let t3 = setTSS a t2;
     let p5 = set_task_reg (task_reg t3) p4;
     k2 \<leftarrow> init_kernel k1;
     let p6 = set_pe_flag p5;
     k3 \<leftarrow> load_user_image k2;
     c2 \<leftarrow> printk (cstring (''Entering user mode...'' @ [CHR 0x0A])) (con k3);
     let k4 = k3\<lparr>con := c2\<rparr>;
     let p7 = enable_int p6;
     return_gate USER_DS USER_DS USER_ESP USER_CS L_USER_START \<lparr>kern = k4, tabs = t3, cpu = p7\<rparr>
   }"

lemma system_main_eq:
  "system_main sh a m = do {
     k \<leftarrow> main (kern m);
     let t = setTSS a (setIdt sh a (setGdt a (tabs m)));
     let p = enable_int (set_pe_flag (set_task_reg KERNEL_TSS (set_idt_reg (idtR t) (set_gdt_reg (gdtR t)
       (set_seg_regs KERNEL_DS KERNEL_DS (protected_task_addr (sym (kern m)) 5) (set_eflags (cpu m)))))));
     return_gate USER_DS USER_DS USER_ESP USER_CS L_USER_START \<lparr>kern = k, tabs = t, cpu = p\<rparr>
   }"
proof -
  have "task_reg (setTSS a T) = KERNEL_TSS" "idtR (setTSS a T) = idtR T" "gdtR (setTSS a T) = gdtR T" for T
    by (simp_all add: setTSS_def)
  moreover have "gdtR (setIdt sh a T) = gdtR T" for T
    by (simp add: setIdt_def setSysenter_def setMSR_def setInterruptHandler_def Let_def)
  ultimately show ?thesis
    by (simp add: system_main_def main_def Let_def)
qed

section \<open>Entering user mode\<close>

text \<open>The state the processor is in when the first user instruction executes.\<close>

definition in_user_mode :: "handlers \<Rightarrow> machine \<Rightarrow> bool" where
  "in_user_mode a m \<longleftrightarrow> reg_cs (cpu m) = USER_CS \<and> unat (reg_cs (cpu m) AND 3) = 3
     \<and> reg_eip (cpu m) = 0x100000 \<and> reg_ss (cpu m) = USER_DS \<and> reg_esp (cpu m) = USER_ESP
     \<and> reg_ds (cpu m) = USER_DS \<and> reg_es (cpu m) = USER_DS
     \<and> bit (eflags (cpu m)) 9 \<and> bit (cr0 (cpu m)) 31 \<and> pic_mask (cpu m) = 0xfc
     \<and> tr_reg (cpu m) = KERNEL_TSS \<and> idt_reg (cpu m) = \<lparr>reg_limit = 2047, reg_base = idt_addr a\<rparr>"

lemma system_main_runs:
  assumes "layout_ok \<sigma>" and "image_ok \<sigma> mem"
  obtains m PT where "system_main sh a \<lparr>kern = kernel0 \<sigma> mem video sp, tabs = T, cpu = p\<rparr> = Some m"
    and "in_user_mode a m" and "kinv (kern m) boot_queues {} 1 1" and "mmu_table (kern m) = Some PT"
    and "vload32 PT (ram (kern m)) (USER_ESP + 12) = Some (image_word mem 8)"
    and "\<And>i. i < unat (image_word mem 4) \<Longrightarrow> i < 28 * 4096 - 4 \<Longrightarrow> vread PT (ram (kern m)) (usr_main + of_nat i) =
      Some (mem ((0x10000 + unat (image_word mem 0) + i) div 4096)
             ((0x10000 + unat (image_word mem 0) + i) mod 4096))"
proof -
  obtain cs m1 where 1: "take_frames alloc_frame 8 (init_frames (\<lambda>_. 0)) = (cs, m1)" by fastforce
  obtain ds m2 where 2: "take_frames alloc_frame 20 m1 = (ds, m2)" by fastforce
  note fr = boot_frames [OF 1 2]
  let ?PT = "user_pages cs ds (init_table \<sigma> (\<lambda>_. 0))"
  obtain k where k: "main (kernel0 \<sigma> mem video sp) = Some k" "kinv k boot_queues {} 1 1" "mmu_table k = Some ?PT"
    "\<And>i. i < unat (image_word mem 4) \<Longrightarrow> vread ?PT (ram k) (usr_main + of_nat i) =
      Some (mem ((0x10000 + unat (image_word mem 0) + i) div 4096) ((0x10000 + unat (image_word mem 0) + i) mod 4096))"
    "vload32 ?PT (ram k) (KERNEL_START + 8) = Some (image_word mem 8)"
    by (rule main_eq [OF assms 1 2, of video sp]) (rule that)
  have pool: "\<forall>f \<in> set (cs @ ds). 256 \<le> unat f \<and> unat f < 1024" using fr(4) by (auto simp: pool_frame_def)
  then have small: "\<forall>f \<in> set (cs @ ds). unat f < 1024" by blast
  let ?a = "USER_ESP + 12 :: u32"
  have top: "unat (?a + of_nat i) = 28 * 4096 - 4 + 0x100000 + i" if "i < 4" for i
  proof -
    have "unat ?a = 28 * 4096 - 4 + 0x100000" by (simp add: USER_ESP_def)
    then show ?thesis using that by (subst unat_add_of_nat32) simp_all
  qed
  have page: "unat (?a + of_nat i) div 4096 = 283" if "i < 4" for i
    using top [OF that] that by simp
  have same: "kaddr ?PT b = kaddr ?PT (?a + of_nat i) \<longleftrightarrow> b = ?a + of_nat i" if "i < 4" for i b
    using boot_no_alias [OF fr(1-3) pool, of \<sigma> b "?a + of_nat i"] page [OF that] by auto
  have some: "kaddr ?PT (?a + of_nat i) \<noteq> None" if "i < 4" for i
    using page [OF that] by (simp add: boot_kaddr [OF fr(1,2) small] Let_def)
  obtain r where r: "vstore32 ?PT ?a (image_word mem 8) (ram k) = Some r" "vload32 ?PT r ?a = Some (image_word mem 8)"
    "\<And>b. b \<notin> {?a, ?a + 1, ?a + 2, ?a + 3} \<Longrightarrow> vread ?PT r b = vread ?PT (ram k) b"
    by (rule vstore32_reads [where D = UNIV, OF same some UNIV_I]) (auto intro: that)
  have far: "usr_main + of_nat i \<notin> {?a, ?a + 1, ?a + 2, ?a + 3}" if "i < 28 * 4096 - 4" for i
  proof -
    have "unat (usr_main + of_nat i) = 0x100000 + i" unfolding usr_main_def using that by (subst unat_add_of_nat32) simp_all
    then have "unat (usr_main + of_nat i) \<noteq> unat (?a + of_nat j)" if "j < 4" for j
      using top [OF that] \<open>i < 28 * 4096 - 4\<close> by simp
    from this [of 0] this [of 1] this [of 2] this [of 3] show ?thesis by auto
  qed
  let ?t = "setTSS a (setIdt sh a (setGdt a T))" and ?k = "k\<lparr>ram := r\<rparr>"
  let ?p = "enable_int (set_pe_flag (set_task_reg KERNEL_TSS (set_idt_reg (idtR ?t) (set_gdt_reg (gdtR ?t)
       (set_seg_regs KERNEL_DS KERNEL_DS (protected_task_addr \<sigma> 5) (set_eflags p))))))"
  let ?p1 = "?p\<lparr>reg_es := USER_DS, reg_ds := USER_DS, reg_cs := USER_CS, reg_eip := L_USER_START, reg_ss := USER_DS, reg_esp := USER_ESP\<rparr>"
  let ?m = "\<lparr>kern = ?k, tabs = ?t, cpu = ?p1\<rparr>"
  have sy: "sym (kernel0 \<sigma> mem video sp) = \<sigma>" by (simp add: kernel0_def)
  have "system_main sh a \<lparr>kern = kernel0 \<sigma> mem video sp, tabs = T, cpu = p\<rparr> = Some ?m"
    unfolding system_main_eq using k(1,3,5) r(1) sy by (simp add: return_gate_def p_rdtr_def Let_def)
  moreover have "in_user_mode a ?m"
    by (simp add: in_user_mode_def enable_int_def delay_def set_pe_flag_def set_task_reg_def set_idt_reg_def set_gdt_reg_def
      set_seg_regs_def set_eflags_def USER_CS_def bit_or_iff setTSS_def setIdt_def setSysenter_def setMSR_def
      setInterruptHandler_def Let_def)
  moreover have "kinv ?k boot_queues {} 1 1" using k(2) kinv_cong [of ?k k] by simp
  moreover have "mmu_table ?k = Some ?PT" using k(3) by (simp add: mmu_table_def get_PT_of_dir_def)
  ultimately show thesis
    using r(2) r(3) [OF far] k(4) by (intro that [of ?m ?PT]) simp_all
qed

section \<open>From the files to the first instruction\<close>

text \<open>Memory filled from the image, as the boot sector does.\<close>

definition load_sectors :: "u8 list \<Rightarrow> frames" where
  "load_sectors img = (\<lambda>f k. img ! (512 + (4096 * f + k - 0x10000)))"

lemma load_sectors_loaded: "loaded_at img (load_sectors img)"
proof -
  have "4096 * (x div 4096) + x mod 4096 = x" for x :: nat by simp
  from this [of "0x10000 + i" for i] show ?thesis by (simp only: loaded_at_def load_sectors_def) simp
qed

text \<open>C5: the whole way from the files to user mode. \<open>build\<close> makes an image of a boot sector, a system and
  a user program that fit; the kernel started on memory loaded from it runs \<open>main\<close> to its end and
  leaves for user mode: privilege level 3, interrupts and paging enabled, the clock and the keyboard
  unmasked, at address 0x100000, where the user program lies byte by byte, with the word 0x7E1A of
  the image 12 bytes above the stack pointer.\<close>

theorem built_program_starts:
  assumes "fs b = Some f" and "boot_file f boot" and "length boot = 512" and "boot ! 510 = 0x55" and "boot ! 511 = 0xaa"
    and "fs s = Some (plain_file sys)" and "fs u = Some (plain_file usr)"
    and "12 \<le> length sys" and "length sys < 2 ^ 24" and "length usr < 2 ^ 24"
    and "o_bytes ou = []" and "o_pos ou = 0" and "512 + length sys + length usr \<le> o_room ou" and "o_seek ou"
    and "layout_ok \<sigma>" and "kernel_mapped \<sigma> 16" and "length usr \<le> 28 * 4096 - 4"
    and "0x10000 + length sys + length usr \<le> 0x100000"
    and "\<forall>i < length usr. kernel_mapped \<sigma> ((0x10000 + length sys + i) div 4096)"
  shows "\<exists>ou'. build_main fs [b, s, u] ou = Inr ou' \<and> (\<forall>mem. loaded_at (o_bytes ou') mem \<longrightarrow>
    (\<exists>m PT. system_main sh a \<lparr>kern = kernel0 \<sigma> mem video sp, tabs = T, cpu = p\<rparr> = Some m
      \<and> in_user_mode a m \<and> kinv (kern m) boot_queues {} 1 1 \<and> mmu_table (kern m) = Some PT
      \<and> (\<forall>i < length usr. vread PT (ram (kern m)) (0x100000 + of_nat i) = Some (usr ! i))
      \<and> vload32 PT (ram (kern m)) (reg_esp (cpu m) + 12) = Some 0x7E1A))"
proof -
  obtain ou' where b: "build_main fs [b, s, u] ou = Inr ou'" "take 500 (o_bytes ou') = take 500 boot"
    "length sys + length usr \<le> 0xffff0 \<Longrightarrow> length sys + length usr
        \<le> 16 * (unat (o_bytes ou' ! 500) + 256 * unat (o_bytes ou' ! 501))"
    "\<And>mem. loaded_at (o_bytes ou') mem \<Longrightarrow> image_word mem 0 = of_nat (length sys)"
    "\<And>mem. loaded_at (o_bytes ou') mem \<Longrightarrow> image_word mem 4 = of_nat (length usr)"
    "\<And>mem. loaded_at (o_bytes ou') mem \<Longrightarrow> image_word mem 8 = 0x7E1A"
    "\<And>mem i. loaded_at (o_bytes ou') mem \<Longrightarrow> i < length usr \<Longrightarrow>
      mem ((0x10000 + unat (image_word mem 0) + i) div 4096) ((0x10000 + unat (image_word mem 0) + i) mod 4096) = usr ! i"
    by (rule build_main_loads [of fs b f boot s sys u usr ou, OF assms(1-14)]) (rule that)
  have n: "unat (of_nat (length sys) :: u32) = length sys" "unat (of_nat (length usr) :: u32) = length usr"
    using assms(9,10) by (simp_all add: unat_of_nat32)
  have "\<exists>m PT. system_main sh a \<lparr>kern = kernel0 \<sigma> mem video sp, tabs = T, cpu = p\<rparr> = Some m
      \<and> in_user_mode a m \<and> kinv (kern m) boot_queues {} 1 1 \<and> mmu_table (kern m) = Some PT
      \<and> (\<forall>i < length usr. vread PT (ram (kern m)) (0x100000 + of_nat i) = Some (usr ! i))
      \<and> vload32 PT (ram (kern m)) (reg_esp (cpu m) + 12) = Some 0x7E1A"
    if l: "loaded_at (o_bytes ou') mem" for mem
  proof -
    note w = b(4) [OF l] b(5) [OF l] b(6) [OF l]
    have "image_ok \<sigma> mem" using assms(16-19) n by (simp add: image_ok_def w)
    then obtain m PT where m: "system_main sh a \<lparr>kern = kernel0 \<sigma> mem video sp, tabs = T, cpu = p\<rparr> = Some m"
      "in_user_mode a m" "kinv (kern m) boot_queues {} 1 1" "mmu_table (kern m) = Some PT"
      "vload32 PT (ram (kern m)) (USER_ESP + 12) = Some (image_word mem 8)"
      "\<And>i. i < unat (image_word mem 4) \<Longrightarrow> i < 28 * 4096 - 4 \<Longrightarrow> vread PT (ram (kern m)) (usr_main + of_nat i) =
        Some (mem ((0x10000 + unat (image_word mem 0) + i) div 4096)
               ((0x10000 + unat (image_word mem 0) + i) mod 4096))"
      by (rule system_main_runs [OF assms(15), of mem sh a video sp T p]) (rule that)
    have "vread PT (ram (kern m)) (0x100000 + of_nat i) = Some (usr ! i)" if i: "i < length usr" for i
    proof -
      have "i < unat (image_word mem 4)" "i < 28 * 4096 - 4" using i assms(17) n by (simp_all add: w)
      from m(6) [OF this] b(7) [OF l i] show ?thesis by (simp add: usr_main_def)
    qed
    moreover have "reg_esp (cpu m) = USER_ESP" using m(2) by (simp add: in_user_mode_def)
    ultimately show ?thesis using m(1-5) w(3) by (intro exI [of _ m] exI [of _ PT]) simp
  qed
  with b(1) show ?thesis by blast
qed

lemma built_program_starts_witness:
  "\<forall>a T p. \<exists>ou' m. build_main example_files [''boot'', ''system'', ''user''] \<lparr>o_bytes = [], o_pos = 0, o_room = 1440, o_seek = True\<rparr>
       = Inr ou'
     \<and> system_main id a \<lparr>kern = kernel0 example_layout (load_sectors (o_bytes ou')) (\<lambda>_. 0) 0, tabs = T, cpu = p\<rparr> = Some m
     \<and> in_user_mode a m"
proof (intro allI)
  fix a T p
  let ?ou = "\<lparr>o_bytes = [], o_pos = 0, o_room = 1440, o_seek = True\<rparr>"
  have k: "kernel_mapped example_layout 16"
    by (simp add: kernel_mapped_def PH_PAGE_def protected_task_addr_def elem_addr_def example_layout_def)
  have f: "example_files ''boot'' = Some (plain_file (minix_magic @ replicate 24 0 @ example_boot))" "example_files ''system'' = Some (plain_file (replicate 16 7))"
    "example_files ''user'' = Some (plain_file [1, 2, 3])"
    by (simp_all add: example_files_def)
  have u: "\<forall>i < length [1 :: u8, 2, 3]. kernel_mapped example_layout ((0x10000 + length (replicate 16 (7 :: u8)) + i) div 4096)"
  proof (intro allI impI)
    fix i assume "i < length [1 :: u8, 2, 3]"
    then have "(0x10000 + length (replicate 16 (7 :: u8)) + i) div 4096 = 16" by simp
    then show "kernel_mapped example_layout ((0x10000 + length (replicate 16 (7 :: u8)) + i) div 4096)" by (simp only: k)
  qed
  obtain ou' where b: "build_main example_files [''boot'', ''system'', ''user''] ?ou = Inr ou'"
    and m: "\<forall>mem. loaded_at (o_bytes ou') mem \<longrightarrow> (\<exists>m PT. system_main id a \<lparr>kern = kernel0 example_layout mem (\<lambda>_. 0) 0,
      tabs = T, cpu = p\<rparr> = Some m \<and> in_user_mode a m \<and> kinv (kern m) boot_queues {} 1 1 \<and> mmu_table (kern m) = Some PT
      \<and> (\<forall>i < length [1 :: u8, 2, 3]. vread PT (ram (kern m)) (0x100000 + of_nat i) = Some ([1, 2, 3] ! i))
      \<and> vload32 PT (ram (kern m)) (reg_esp (cpu m) + 12) = Some 0x7E1A)"
    by (rule exE [OF built_program_starts [of example_files "''boot''" "plain_file (minix_magic @ replicate 24 0 @ example_boot)" example_boot "''system''"
        "replicate 16 7" "''user''" "[1, 2, 3]" ?ou example_layout id a "\<lambda>_. 0" 0 T p,
        OF f(1) example_boot_ok(1) _ _ _ f(2,3) _ _ _ _ _ _ _ example_layout_ok k _ _ u]])
      (simp_all add: example_boot_ok)
  from m load_sectors_loaded obtain m' where
    "system_main id a \<lparr>kern = kernel0 example_layout (load_sectors (o_bytes ou')) (\<lambda>_. 0) 0, tabs = T, cpu = p\<rparr> = Some m'"
    "in_user_mode a m'" by blast
  with b show "\<exists>ou' m. build_main example_files [''boot'', ''system'', ''user''] ?ou = Inr ou'
     \<and> system_main id a \<lparr>kern = kernel0 example_layout (load_sectors (o_bytes ou')) (\<lambda>_. 0) 0, tabs = T, cpu = p\<rparr> = Some m
     \<and> in_user_mode a m" by blast
qed

end
