(* ===== verification/UserProg.thy ===== *)
theory UserProg
  imports Entry Libc
begin

text \<open>
  The user's test program (\<open>user.c\<close>) with its calls of \<open>libc\<close> and the stubs of \<open>user-utils.S\<close>, run
  on the kernel: every function is the list of its statements, a thread is the list of statements it
  has still to execute, and a step executes the first statement of the thread that runs. A system
  call goes through \<open>system_call_handler\<close>; which thread runs afterwards is for the kernel to say.
\<close>

section \<open>The program\<close>

text \<open>The string variables and the local variables whose addresses are passed.\<close>

datatype text_var = Var_b | Var_a | Var_c | Var_d | Var_e | Var_n

definition newline :: char where
  "newline = CHR 0x0A"

fun text_of :: "text_var \<Rightarrow> string" where
  "text_of Var_b = ''Hola, soy init'' @ [newline]"
| "text_of Var_a = ''Hola, no soy init'' @ [newline]"
| "text_of Var_c = ''Hola'' @ [newline]"
| "text_of Var_d = ''Adeu'' @ [newline]"
| "text_of Var_e = ''Hey'' @ [newline]"
| "text_of Var_n = [newline]"

datatype local_var = Id | Id2

datatype user_fun = Hola | Adeu | Mutex_test_1 | Mutex_test_2 | Mutex_test_3 | Mutex_test_4

text \<open>
  The statements: \<open>Write x\<close> is \<open>write(1, x, strlen(x))\<close>, \<open>Fork_pid\<close> is \<open>pid = fork()\<close>; \<open>Put\<close> is the
  store of a word that ends a call, of \<open>errno\<close> or \<open>pid\<close>.
\<close>

datatype stmt =
    Write text_var
  | Pthread_create local_var user_fun
  | Pthread_join local_var
  | Pthread_exit
  | Mutex_init u32
  | Mutex_lock u32
  | Mutex_unlock u32
  | Mutex_destroy u32
  | Yield
  | Fork_pid
  | If_pid_zero "stmt list"
  | If_pid_positive "stmt list"
  | While_true "stmt list"
  | Put u32 u32

definition hola :: "stmt list" where
  "hola = [Write Var_c, Pthread_exit]"

definition adeu :: "stmt list" where
  "adeu = [While_true [Write Var_d], Pthread_exit]"

definition mutex_test_1 :: "stmt list" where
  "mutex_test_1 = [Mutex_lock 3, Write Var_e, Yield, Mutex_unlock 3, Pthread_exit]"

definition mutex_test_2 :: "stmt list" where
  "mutex_test_2 = [Mutex_lock 3, Write Var_c, Mutex_unlock 3, Pthread_exit]"

definition mutex_test_3 :: "stmt list" where
  "mutex_test_3 = [Mutex_lock 5, Write Var_d, Yield, Mutex_unlock 5, While_true [Write Var_d], Pthread_exit]"

definition mutex_test_4 :: "stmt list" where
  "mutex_test_4 = [Mutex_lock 5, Write Var_c, Mutex_unlock 5, While_true [Write Var_c], Pthread_exit]"

definition prueba1 :: "stmt list" where
  "prueba1 = [Pthread_create Id Hola]"

definition prueba2 :: "stmt list" where
  "prueba2 = [Pthread_create Id Adeu, While_true [Write Var_e]]"

definition prueba3 :: "stmt list" where
  "prueba3 = [Pthread_create Id Hola, Pthread_join Id, Write Var_e]"

definition prueba4 :: "stmt list" where
  "prueba4 = [Fork_pid, If_pid_zero [While_true [Write Var_a]], If_pid_positive [While_true [Write Var_b]]]"

definition prueba5 :: "stmt list" where
  "prueba5 = [Fork_pid, If_pid_zero [While_true [Write Var_a]],
     If_pid_positive [Pthread_create Id Adeu, While_true [Write Var_b]]]"

definition prueba6 :: "stmt list" where
  "prueba6 = [Mutex_init 3, Pthread_create Id Mutex_test_1, Pthread_create Id2 Mutex_test_2, Mutex_destroy 3]"

definition prueba7 :: "stmt list" where
  "prueba7 = [Mutex_init 5, Pthread_create Id Mutex_test_3, Pthread_create Id2 Mutex_test_4, Mutex_destroy 5]"

definition user_main :: "stmt list" where
  "user_main = [While_true []]"

fun fun_body :: "user_fun \<Rightarrow> stmt list" where
  "fun_body Hola = hola"
| "fun_body Adeu = adeu"
| "fun_body Mutex_test_1 = mutex_test_1"
| "fun_body Mutex_test_2 = mutex_test_2"
| "fun_body Mutex_test_3 = mutex_test_3"
| "fun_body Mutex_test_4 = mutex_test_4"

section \<open>Running it\<close>

text \<open>
  What the compiler and the linker choose: the addresses of the variables and functions, and the
  registers a thread enters the kernel with, apart from the arguments. The words the stubs push
  below the user's stack pointer are not modelled.
\<close>

record user_env =
  text_addr :: "text_var \<Rightarrow> u32"
  pid_addr :: u32
  errno_addr :: u32
  local_addr :: "local_var \<Rightarrow> u32"
  fun_addr :: "user_fun \<Rightarrow> u32"
  regs_of :: "nat \<Rightarrow> user_regs"

definition fun_at :: "user_env \<Rightarrow> u32 \<Rightarrow> stmt list option" where
  "fun_at E a = map_option fun_body (find (\<lambda>f. fun_addr E f = a) [Hola, Adeu, Mutex_test_1, Mutex_test_2, Mutex_test_3, Mutex_test_4])"

text \<open>\<open>strlen\<close> on the memory of the running process; it faults on a byte that is not mapped.\<close>

definition user_strlen :: "u32 \<Rightarrow> kernel \<Rightarrow> nat option" where
  "user_strlen p k = do {
     PT \<leftarrow> mmu_table k;
     n \<leftarrow> strlen p (view PT (ram k));
     if \<forall>i \<in> {..n}. vread PT (ram k) (p + of_nat i) \<noteq> None then Some n else None
   }"

text \<open>The registers with which the stubs enter the kernel.\<close>

fun call_regs :: "user_env \<Rightarrow> stmt \<Rightarrow> kernel \<Rightarrow> user_regs \<Rightarrow> user_regs option" where
  "call_regs E (Write x) k r = do {
     p \<leftarrow> load_user (text_addr E x) k;
     n \<leftarrow> user_strlen p k;
     Some (r\<lparr>r_eax := 4, r_ebx := 1, r_ecx := p, r_edx := of_nat n\<rparr>)
   }"
| "call_regs E (Pthread_create i f) k r = Some (r\<lparr>r_eax := 12, r_ebx := local_addr E i, r_ecx := fun_addr E f, r_edx := 0\<rparr>)"
| "call_regs E (Pthread_join i) k r = Some (r\<lparr>r_eax := 24, r_ebx := local_addr E i, r_ecx := 0\<rparr>)"
| "call_regs E Pthread_exit k r = Some (r\<lparr>r_eax := 25, r_ebx := 0\<rparr>)"
| "call_regs E (Mutex_init n) k r = Some (r\<lparr>r_eax := 26, r_ebx := n\<rparr>)"
| "call_regs E (Mutex_lock n) k r = Some (r\<lparr>r_eax := 27, r_ebx := n\<rparr>)"
| "call_regs E (Mutex_unlock n) k r = Some (r\<lparr>r_eax := 28, r_ebx := n\<rparr>)"
| "call_regs E (Mutex_destroy n) k r = Some (r\<lparr>r_eax := 29, r_ebx := n\<rparr>)"
| "call_regs E Yield k r = Some (r\<lparr>r_eax := 13\<rparr>)"
| "call_regs E Fork_pid k r = Some (r\<lparr>r_eax := 2\<rparr>)"
| "call_regs E _ k r = None"

text \<open>
  What the caller does with the result \<open>v\<close> of the call: most stubs test it and leave a negative one,
  negated, in \<open>errno\<close>; those of \<open>yield\<close> and \<open>mutex_destroy\<close> do not.
\<close>

definition tests_result :: "stmt \<Rightarrow> bool" where
  "tests_result st \<longleftrightarrow> (case st of Yield \<Rightarrow> False | Mutex_destroy _ \<Rightarrow> False | _ \<Rightarrow> True)"

definition after_call :: "user_env \<Rightarrow> stmt \<Rightarrow> u32 \<Rightarrow> stmt list" where
  "after_call E st v =
     (let failed = tests_result st \<and> sint v < 0
      in (if failed then [Put (errno_addr E) (- v)] else [])
         @ (if st = Fork_pid then [Put (pid_addr E) (if failed then -1 else v)] else []))"

text \<open>
  A new thread starts where its kernel stack sends it (\<open>sysexit_context\<close>): one made by
  \<open>pthread_create\<close> at a function, a forked child behind its parent's call, with result 0.
\<close>

definition first_statements :: "user_env \<Rightarrow> stmt \<Rightarrow> stmt list \<Rightarrow> nat \<Rightarrow> kernel \<Rightarrow> stmt list option" where
  "first_statements E st r u k =
     (if st = Fork_pid then Some (Put (pid_addr E) 0 # r)
      else do { (eip, sp) \<leftarrow> sysexit_context (register_esp (threads k u) + 8) k; fun_at E eip })"

definition makes_thread :: "stmt \<Rightarrow> bool" where
  "makes_thread st \<longleftrightarrow> (case st of Pthread_create _ _ \<Rightarrow> True | Fork_pid \<Rightarrow> True | _ \<Rightarrow> False)"

text \<open>A word stored by the running program.\<close>

definition user_store_word :: "u32 \<Rightarrow> u32 \<Rightarrow> kernel \<Rightarrow> kernel option" where
  "user_store_word a v k = do {
     PT \<leftarrow> mmu_table k;
     if user_word PT a \<and> (\<forall>i \<in> {..<4}. translate PT True (a + of_nat i) \<noteq> None)
     then do { m \<leftarrow> vstore32 PT a v (ram k); Some (k\<lparr>ram := m\<rparr>) } else None
   }"

record system =
  os :: kernel
  code :: "nat \<Rightarrow> stmt list"

text \<open>The thread whose kernel stack the processor uses; a function that returns to nobody is stuck.\<close>

definition running :: "kernel \<Rightarrow> nat option" where
  "running k = thread_at (sym k) (msr_esp k - of_nat PAGE_SIZE)"

definition enter_kernel :: "user_env \<Rightarrow> nat \<Rightarrow> stmt \<Rightarrow> stmt list \<Rightarrow> system \<Rightarrow> system option" where
  "enter_kernel E c st r sys = do {
     regs \<leftarrow> call_regs E st (os sys) (regs_of E c);
     let free = list_first Free_threadqueue (heap (os sys));
     (v, k) \<leftarrow> system_call_handler regs (os sys);
     let co = (code sys)(c := after_call E st v @ r);
     if makes_thread st \<and> 0 \<le> sint v
     then do {
       lh \<leftarrow> free;
       u \<leftarrow> thread_at (sym k) (list_head_to_thread_struct (sym k) lh);
       co_u \<leftarrow> first_statements E st r u k;
       Some \<lparr>os = k, code = co(u := co_u)\<rparr>
     }
     else Some \<lparr>os = k, code = co\<rparr>
   }"

definition user_step :: "user_env \<Rightarrow> system \<Rightarrow> system option" where
  "user_step E sys = do {
     c \<leftarrow> running (os sys);
     (case code sys c of
        [] \<Rightarrow> None
      | While_true b # r \<Rightarrow> Some (sys\<lparr>code := (code sys)(c := b @ While_true b # r)\<rparr>)
      | If_pid_zero b # r \<Rightarrow> do {
          pid \<leftarrow> load_user (pid_addr E) (os sys);
          Some (sys\<lparr>code := (code sys)(c := (if pid = 0 then b @ r else r))\<rparr>) }
      | If_pid_positive b # r \<Rightarrow> do {
          pid \<leftarrow> load_user (pid_addr E) (os sys);
          Some (sys\<lparr>code := (code sys)(c := (if 0 < sint pid then b @ r else r))\<rparr>) }
      | Put a v # r \<Rightarrow> do {
          k \<leftarrow> user_store_word a v (os sys);
          Some \<lparr>os = k, code = (code sys)(c := r)\<rparr> }
      | st # r \<Rightarrow> enter_kernel E c st r sys)
   }"

fun run :: "user_env \<Rightarrow> nat \<Rightarrow> system \<Rightarrow> system option" where
  "run E 0 sys = Some sys"
| "run E (Suc n) sys = user_step E sys \<bind> run E n"

lemma run_add: "run E (m + n) sys = run E m sys \<bind> run E n"
proof (induction m arbitrary: sys)
  case (Suc m)
  then show ?case by (cases "user_step E sys") simp_all
qed simp

section \<open>One statement\<close>

lemma running_thread: "kinv s Q M c cp \<Longrightarrow> running s = Some c"
proof -
  assume k: "kinv s Q M c cp"
  have l: "layout_ok (sym s)" "c < 22" using kmid_layout [OF kinv_kmid [OF k]] kmid_c [OF kinv_kmid [OF k]] by simp_all
  have "msr_esp s = stack_addr (sym s) c 1024" using kinv_cpu [OF k] by (simp add: on_cpu_def)
  then have "msr_esp s - of_nat PAGE_SIZE = thread_addr (sym s) c" by (simp add: stack_addr_def)
  then show ?thesis unfolding running_def thread_at_def thread_addr_def
    using l layout_thread(2) [OF l(1)] by (simp add: elem_at_elem_addr)
qed

text \<open>The call a statement makes, on the state the handler starts the C function in.\<close>

lemma call_step:
  assumes "kinv s Q M c cp" and "co c = st # r" and "call_regs E st s (regs_of E c) = Some regs"
    and "dispatch (r_eax regs) (r_ebx regs) (r_ecx regs) (r_edx regs) (in_call regs c s) = Some (v, s')"
    and "0 \<le> sint v" and "\<not> makes_thread st" and "st \<noteq> Fork_pid"
  shows "user_step E \<lparr>os = s, code = co\<rparr> = Some \<lparr>os = s', code = co(c := r)\<rparr>"
proof -
  have e: "enter_kernel E c st r \<lparr>os = s, code = co\<rparr> = Some \<lparr>os = s', code = co(c := r)\<rparr>"
    using assms(3-7) system_call_handler_eq(1) [OF assms(1), of regs]
    by (simp add: enter_kernel_def after_call_def)
  then show ?thesis
    using assms(2,3) running_thread [OF assms(1)] by (cases st) (simp_all add: user_step_def)
qed

section \<open>The data of a process\<close>

text \<open>The \<open>n\<close> bytes at \<open>a\<close> lie in the data pages; these are mapped to frames of their own.\<close>

definition in_data :: "u32 \<Rightarrow> nat \<Rightarrow> bool" where
  "in_data a n \<longleftrightarrow> 264 * 4096 \<le> unat a \<and> unat a + n \<le> 284 * 4096"

definition private_data :: "page_table \<Rightarrow> bool" where
  "private_data PT \<longleftrightarrow> (\<forall>p \<in> {264..<284}. pte_present (PT p) \<and> 256 \<le> unat (pbase_addr (PT p)))
     \<and> inj_on (\<lambda>p. pbase_addr (PT p)) {264..<284}"

lemma in_data_offset:
  assumes "in_data a n" and "i < n"
  shows "unat (a + of_nat i) = unat a + i" and "in_data (a + of_nat i) 1"
proof -
  show u: "unat (a + of_nat i) = unat a + i" using assms by (intro unat_add_of_nat32) (simp add: in_data_def)
  show "in_data (a + of_nat i) 1" using assms by (simp add: in_data_def u)
qed

lemma private_kaddr:
  assumes "private_data PT" and "in_data a 1"
  shows "kaddr PT a = Some (unat (pbase_addr (PT (unat a div 4096))), unat a mod 4096)" and "user_byte PT a"
    and "264 \<le> unat a div 4096" and "unat a div 4096 < 284"
proof -
  show p: "264 \<le> unat a div 4096" "unat a div 4096 < 284"
    using assms(2) by (simp_all add: in_data_def less_mult_imp_div_less less_eq_div_iff_mult_less_eq)
  with assms(1) have "pte_present (PT (unat a div 4096))" "256 \<le> unat (pbase_addr (PT (unat a div 4096)))"
    by (simp_all add: private_data_def)
  with p show "kaddr PT a = Some (unat (pbase_addr (PT (unat a div 4096))), unat a mod 4096)" "user_byte PT a"
    by (simp_all add: kaddr_def user_byte_def)
qed

lemma private_no_alias:
  assumes "private_data PT" and "in_data a 1" and "in_data b 1"
  shows "kaddr PT b = kaddr PT a \<longleftrightarrow> b = a"
proof
  assume e: "kaddr PT b = kaddr PT a"
  note a = private_kaddr [OF assms(1,2)] and b = private_kaddr [OF assms(1,3)]
  have "unat (pbase_addr (PT (unat b div 4096))) = unat (pbase_addr (PT (unat a div 4096)))" and m: "unat b mod 4096 = unat a mod 4096"
    using e unfolding a(1) b(1) by simp_all
  then have "pbase_addr (PT (unat b div 4096)) = pbase_addr (PT (unat a div 4096))" by (simp only: word_unat_eq_iff)
  moreover have "inj_on (\<lambda>p. pbase_addr (PT p)) {264..<284}" using assms(1) by (simp add: private_data_def)
  ultimately have "unat b div 4096 = unat a div 4096" using a(3,4) b(3,4) by (auto dest: inj_onD)
  with m have "unat b = unat a" by (metis div_mult_mod_eq)
  then show "b = a" by (simp only: word_unat_eq_iff)
qed simp

lemma in_data_word:
  assumes "private_data PT" and "in_data a 4"
  shows "user_word PT a"
  using private_kaddr(2) [OF assms(1) in_data_offset(2) [OF assms(2), of 0]]
    private_kaddr(2) [OF assms(1) in_data_offset(2) [OF assms(2), of 1]]
    private_kaddr(2) [OF assms(1) in_data_offset(2) [OF assms(2), of 2]]
    private_kaddr(2) [OF assms(1) in_data_offset(2) [OF assms(2), of 3]]
  by (simp add: user_word_def)

lemma private_store:
  assumes "private_data PT" and "in_data a 4"
  obtains m' where "vstore32 PT a v m = Some m'" and "vload32 PT m' a = Some v"
    and "\<And>b. in_data b 1 \<Longrightarrow> b \<notin> {a, a + 1, a + 2, a + 3} \<Longrightarrow> vread PT m' b = vread PT m b"
proof -
  note off = in_data_offset(2) [OF assms(2)]
  have 1: "kaddr PT b = kaddr PT (a + of_nat i) \<longleftrightarrow> b = a + of_nat i" if "i < 4" "b \<in> {b. in_data b 1}" for i b
    using private_no_alias [OF assms(1) off] that by simp
  have 2: "kaddr PT (a + of_nat i) \<noteq> None" if "i < 4" for i
    using private_kaddr(1) [OF assms(1) off [OF that]] by simp
  have 3: "a + of_nat i \<in> {b. in_data b 1}" if "i < 4" for i using off [OF that] by simp
  obtain m' where "vstore32 PT a v m = Some m'" "vload32 PT m' a = Some v"
    "\<And>b. b \<in> {b. in_data b 1} \<Longrightarrow> b \<notin> {a, a + 1, a + 2, a + 3} \<Longrightarrow> vread PT m' b = vread PT m b"
    by (rule vstore32_reads [where D = "{b. in_data b 1}" and v = v and m = m, OF 1 2 3]) (assumption | rule that)+
  then show thesis by (intro that [of m']) simp_all
qed

text \<open>The data pages do not depend on the other pages.\<close>

lemma other_page:
  assumes "284 \<le> page"
  shows "private_data (PT(page := e)) = private_data PT"
    and "in_data a 1 \<Longrightarrow> vread (PT(page := e)) m a = vread PT m a"
proof -
  have "inj_on (\<lambda>p. pbase_addr ((PT(page := e)) p)) {264..<284} = inj_on (\<lambda>p. pbase_addr (PT p)) {264..<284}"
    using assms by (intro inj_on_cong) simp
  then show "private_data (PT(page := e)) = private_data PT" using assms by (auto simp: private_data_def)
  assume "in_data a 1"
  then have "unat a div 4096 < 284" by (simp add: in_data_def less_mult_imp_div_less)
  then show "vread (PT(page := e)) m a = vread PT m a" using assms by (simp add: vread_def kaddr_def Let_def)
qed

text \<open>Variable \<open>x\<close> points to its text at \<open>p\<close>.\<close>

definition bytes_of :: "text_var \<Rightarrow> u8 list" where
  "bytes_of x = map of_char (text_of x)"

definition text_at :: "user_env \<Rightarrow> (u32 \<Rightarrow> u8 option) \<Rightarrow> text_var \<Rightarrow> u32 \<Rightarrow> bool" where
  "text_at E rd x p \<longleftrightarrow> in_data (text_addr E x) 4 \<and> in_data p (length (bytes_of x) + 1)
     \<and> (\<forall>i \<in> {..<4}. rd (text_addr E x + of_nat i) = Some (ucast (drop_bit (8 * i) p)))
     \<and> (\<forall>i \<in> {..length (bytes_of x)}. rd (p + of_nat i) = Some ((bytes_of x @ [0]) ! i))"

lemma text_no_zero: "0 \<notin> set (bytes_of x)" "length (bytes_of x) < 20"
  by (cases x; simp add: bytes_of_def newline_def)+

lemma text_at_cong:
  assumes "text_at E rd x p"
    and "\<And>i. i < 4 \<Longrightarrow> rd' (text_addr E x + of_nat i) = rd (text_addr E x + of_nat i)"
    and "\<And>i. i \<le> length (bytes_of x) \<Longrightarrow> rd' (p + of_nat i) = rd (p + of_nat i)"
  shows "text_at E rd' x p"
  using assms by (simp add: text_at_def)

section \<open>Writing a text\<close>

text \<open>What the user sees of the kernel is the same.\<close>

definition same_user :: "kernel \<Rightarrow> kernel \<Rightarrow> bool" where
  "same_user s s' \<longleftrightarrow> sym s' = sym s \<and> pagusr_table s' = pagusr_table s \<and> ram s' = ram s
     \<and> (\<forall>x. TID (threads s' x) = TID (threads s x))"

lemma in_call_fields [simp]:
  "pagusr_table (in_call r c s) = pagusr_table s" "ram (in_call r c s) = ram s" "con (in_call r c s) = con s"
  "phys_mem (in_call r c s) = phys_mem s" "tasks (in_call r c s) = tasks s" "sym (in_call r c s) = sym s"
  "heap (in_call r c s) = heap s" "mutexes (in_call r c s) = mutexes s"
  "TID (threads (in_call r c s) x) = TID (threads s x)"
  "blocked_by (threads (in_call r c s) x) = blocked_by (threads s x)"
  by (simp_all add: in_call_def)

lemma text_strlen:
  assumes "kinv s Q M c cp" and "text_at E (vread (pagusr_table s cp) (ram s)) x p"
  shows "user_strlen p s = Some (length (bytes_of x))"
proof -
  let ?rd = "vread (pagusr_table s cp) (ram s)"
  have rd: "?rd (p + of_nat i) = Some ((bytes_of x @ [0]) ! i)" if "i \<le> length (bytes_of x)" for i
    using assms(2) that by (simp add: text_at_def)
  have "bytes_at (view (pagusr_table s cp) (ram s)) p (bytes_of x @ [0])"
    using rd by (simp add: bytes_at_def view_def)
  then have "strlen p (view (pagusr_table s cp) (ram s)) = Some (length (bytes_of x))"
    by (rule strlen_bytes [OF _ text_no_zero(1)])
  then show ?thesis using kinv_tables(2) [OF assms(1)] rd by (simp add: user_strlen_def)
qed

lemma load_text_var:
  assumes "kinv s Q M c cp" and "private_data (pagusr_table s cp)"
    and "text_at E (vread (pagusr_table s cp) (ram s)) x p"
  shows "load_user (text_addr E x) s = Some p"
proof -
  have t: "in_data (text_addr E x) 4"
    "\<And>i. i < 4 \<Longrightarrow> vread (pagusr_table s cp) (ram s) (text_addr E x + of_nat i) = Some (ucast (drop_bit (8 * i) p))"
    using assms(3) by (simp_all add: text_at_def)
  have "vload32 (pagusr_table s cp) (ram s) (text_addr E x) = Some p"
    using t(2) [of 0] t(2) [of 1] t(2) [of 2] t(2) [of 3] by (simp add: vload32_def word_of_its_bytes)
  then show ?thesis
    using kinv_tables(2) [OF assms(1)] in_data_word [OF assms(2) t(1)] by (simp add: load_user_def)
qed

lemma write_text:
  assumes "kinv s Q M c cp" and "private_data (pagusr_table s cp)"
    and "text_at E (vread (pagusr_table s cp) (ram s)) x p" and "co c = Write x # r"
  obtains s' where "user_step E \<lparr>os = s, code = co\<rparr> = Some \<lparr>os = s', code = co(c := r)\<rparr>"
    and "kinv s' Q M c cp" and "same_user s s'" and "tasks s' = tasks s"
    and "\<And>y. blocked_by (threads s' y) = blocked_by (threads s y)"
    and "port_e9 (con s') = port_e9 (con s) @ bytes_of x"
proof -
  let ?n = "length (bytes_of x)"
  define regs where "regs = (regs_of E c)\<lparr>r_eax := 4, r_ebx := 1, r_ecx := p, r_edx := of_nat ?n\<rparr>"
  let ?s = "in_call regs c s"
  note e = system_call_handler_eq [OF assms(1), of regs]
  have n: "unat (of_nat ?n :: u32) = ?n" using text_no_zero(2) [of x] by (intro unat_of_nat32) simp
  have sn: "sint (of_nat ?n :: u32) = int ?n" using text_no_zero(2) [of x] n sint_small32 [of "of_nat ?n"] by simp
  have D: "in_data p (?n + 1)" "\<And>i. i \<le> ?n \<Longrightarrow> vread (pagusr_table s cp) (ram s) (p + of_nat i) = Some ((bytes_of x @ [0]) ! i)"
    using assms(3) by (simp_all add: text_at_def)
  have call: "call_regs E (Write x) s (regs_of E c) = Some regs"
    using load_text_var [OF assms(1-3)] text_strlen [OF assms(1,3)] by (simp add: regs_def)
  have ok: "access_ok VERIFY_READ p (of_nat ?n)"
    using D(1) n by (simp add: access_ok_range in_data_def)
  have pt: "mmu_table ?s = Some (pagusr_table s cp)" using kinv_tables(2) [OF e(2)] by simp
  have some: "kaddr (pagusr_table s cp) (p + of_nat i) \<noteq> None" if "i < unat (of_nat ?n :: u32)" for i
    using private_kaddr(1) [OF assms(2) in_data_offset(2) [OF D(1), of i]] that n by simp
  have b: "user_bytes (pagusr_table s cp) (ram s) p ?n = bytes_of x"
    using D(2) by (intro nth_equalityI) (simp_all add: user_bytes_def nth_append)
  obtain con1 where con1: "sys_write 1 p (of_nat ?n) ?s = Some (of_nat ?n, ?s\<lparr>con := con1\<rparr>)"
    "port_e9 con1 = port_e9 (con s) @ bytes_of x"
    using console_write [OF pt ok _ some] sn n b by auto
  let ?s' = "?s\<lparr>con := con1\<rparr>"
  have "dispatch (r_eax regs) (r_ebx regs) (r_ecx regs) (r_edx regs) ?s = Some (of_nat ?n, ?s')"
    using con1(1) by (simp add: dispatch_def sys_call_table_def regs_def)
  from call_step [where co = co, OF assms(1,4) call this] have
    "user_step E \<lparr>os = s, code = co\<rparr> = Some \<lparr>os = ?s', code = co(c := r)\<rparr>" using sn by (simp add: makes_thread_def)
  moreover have "kinv ?s' Q M c cp" using e(2) kinv_cong [of ?s' ?s] by simp
  ultimately show thesis using con1(2) by (intro that [of ?s']) (simp_all add: same_user_def)
qed

section \<open>Threads of the program\<close>

text \<open>\<open>pthread_create\<close>: the new thread has the statements of its function before it.\<close>

lemma create_thread:
  assumes "kinv s Q M c cp" and "private_data (pagusr_table s cp)" and "co c = Pthread_create i f # r"
    and "Q Free_threadqueue = ThreadList u # us" and "find_free_page (pagusr_table s cp) 284 = Some page"
    and "in_data (local_addr E i) 4" and "access_ok VERIFY_READ (fun_addr E f) 4"
    and "fun_at E (fun_addr E f) = Some body"
  obtains s' where "user_step E \<lparr>os = s, code = co\<rparr> = Some \<lparr>os = s', code = co(c := r, u := body)\<rparr>"
    and "kinv s' (Q(Free_threadqueue := us, ReadyThreads cp := Q (ReadyThreads cp) @ [ThreadList u])) M c cp"
    and "private_data (pagusr_table s' cp)" and "con s' = con s"
    and "vload32 (pagusr_table s' cp) (ram s') (local_addr E i) = Some (nthread (tasks s cp))"
    and "\<And>b. in_data b 1 \<Longrightarrow> b \<notin> {local_addr E i, local_addr E i + 1, local_addr E i + 2, local_addr E i + 3} \<Longrightarrow>
      vread (pagusr_table s' cp) (ram s') b = vread (pagusr_table s cp) (ram s) b"
    and "TID (threads s' u) = nthread (tasks s cp)" and "nthread (tasks s' cp) = nthread (tasks s cp) + 1"
    and "TID (threads s' c) = TID (threads s c)" and "mutexes s' = mutexes s"
proof -
  define regs where "regs = (regs_of E c)\<lparr>r_eax := 12, r_ebx := local_addr E i, r_ecx := fun_addr E f, r_edx := 0\<rparr>"
  let ?s = "in_call regs c s" and ?id = "local_addr E i" and ?PT = "pagusr_table s cp"
  note km = kinv_kmid [OF assms(1)] and e = system_call_handler_eq [OF assms(1), of regs]
  obtain g pm where a: "alloc_frame (phys_mem ?s) = (g, pm)" by fastforce
  have w: "user_word (pagusr_table ?s cp) ?id" "find_free_page (pagusr_table ?s cp) 284 = Some page"
    using in_data_word [OF assms(2,6)] assms(5) by simp_all
  obtain h m where s': "sys_pthread_create ?id (fun_addr E f) 0 ?s =
      Some (0, created ?s c cp u (fun_addr E f) page g pm m h)"
    "vstore32 (pagusr_table ?s cp) ?id (nthread (tasks ?s cp)) (ram ?s) = Some m"
    "kinv (created ?s c cp u (fun_addr E f) page g pm m h)
      (Q(Free_threadqueue := us, ReadyThreads cp := Q (ReadyThreads cp) @ [ThreadList u])) M c cp"
    by (rule sys_pthread_create_step [OF e(2,3) assms(7,4) w(2) a w(1)])
  let ?s' = "created ?s c cp u (fun_addr E f) page g pm m h"
  have "ThreadList u \<in> set (Q Free_threadqueue)" using assms(4) by simp
  then have u: "u < 22" using kmid_member [OF km heads_simps(3)] by fastforce
  have uc: "u \<noteq> c" using take_free_thread [OF assms(1,4)] by blast
  have page: "284 \<le> page" using find_free_page_spec [OF assms(5)] by simp
  have T: "pagusr_table ?s' cp = ?PT(page := user_entry g)" "ram ?s' = m" by (simp_all add: created_def)
  obtain m' where m': "vstore32 ?PT ?id (nthread (tasks s cp)) (ram s) = Some m'"
    "vload32 ?PT m' ?id = Some (nthread (tasks s cp))"
    "\<And>b. in_data b 1 \<Longrightarrow> b \<notin> {?id, ?id + 1, ?id + 2, ?id + 3} \<Longrightarrow> vread ?PT m' b = vread ?PT (ram s) b"
    by (rule private_store [OF assms(2,6)]) (rule that)
  have mm: "m' = m" using m'(1) s'(2) by simp
  note off = in_data_offset(2) [OF assms(6)]
  have ld: "vload32 (?PT(page := user_entry g)) m ?id = vload32 ?PT m ?id"
    using other_page(2) [OF page off, of 0] other_page(2) [OF page off, of 1] other_page(2) [OF page off, of 2]
      other_page(2) [OF page off, of 3] by (simp add: vload32_def)
  have lf: "list_first Free_threadqueue (heap s) = Some (ThreadList u)"
    using lq.first_law [OF kmid_shape [OF km] heads_simps(3)] assms(4) by simp
  have sy: "sym ?s' = sym s" by (simp add: created_def)
  have tn: "thread_at (sym ?s') (list_head_to_thread_struct (sym ?s') (ThreadList u)) = Some u"
    unfolding sy using kmid_layout [OF km] u by (intro thread_of_node) simp_all
  have fs: "first_statements E (Pthread_create i f) r u ?s' = Some body"
    using created_context(3) [OF kmid_layout [OF km] u refl] assms(8) by (simp add: first_statements_def)
  have "system_call_handler regs s = Some (0, ?s')"
    unfolding e(1) using s'(1) by (simp add: dispatch_def sys_call_table_def regs_def)
  then have "user_step E \<lparr>os = s, code = co\<rparr> = Some \<lparr>os = ?s', code = co(c := r, u := body)\<rparr>"
    using assms(3) running_thread [OF assms(1)] lf tn fs
    by (simp add: user_step_def enter_kernel_def makes_thread_def after_call_def regs_def [symmetric])
  then show thesis
    using s'(3) m'(2,3) uc other_page(1) [OF page, of ?PT "user_entry g"] other_page(2) [OF page, of _ ?PT "user_entry g"] assms(2) ld
    by (intro that [of ?s']) (simp_all add: T mm created_thread_def, simp_all add: created_def created_thread_def)
qed

text \<open>\<open>pthread_join\<close> in a process that has created a thread.\<close>

lemma join_thread:
  assumes "kinv s Q M c cp" and "private_data (pagusr_table s cp)" and "co c = Pthread_join i # r"
    and "in_data (local_addr E i) 4" and "vload32 (pagusr_table s cp) (ram s) (local_addr E i) = Some v"
    and "\<not> nthread (tasks s cp) < 2" and "Q (ReadyThreads cp) = ThreadList t # ts"
  obtains s' where "user_step E \<lparr>os = s, code = co\<rparr> = Some \<lparr>os = s', code = co(c := r)\<rparr>"
    and "kinv s' (Q(BlockedThreads cp := Q (BlockedThreads cp) @ [ThreadList c], ReadyThreads cp := ts)) M t cp"
    and "blocked_by (threads s' c) = v" and "same_user s s'" and "con s' = con s"
proof -
  define regs where "regs = (regs_of E c)\<lparr>r_eax := 24, r_ebx := local_addr E i, r_ecx := 0\<rparr>"
  let ?s = "in_call regs c s"
  note e = system_call_handler_eq [OF assms(1), of regs]
  have v: "load_user (local_addr E i) ?s = Some v"
    using kinv_tables(2) [OF e(2)] in_data_word [OF assms(2,4)] assms(5) by (simp add: load_user_def)
  have n: "\<not> nthread (tasks ?s cp) < 2" using assms(6) by simp
  obtain s' where s': "sys_pthread_join (local_addr E i) 0 ?s = Some (0, s')"
    "kinv s' (Q(BlockedThreads cp := Q (BlockedThreads cp) @ [ThreadList c], ReadyThreads cp := ts)) M t cp"
    "blocked_by (threads s' c) = v" "same_rest ?s s'" "\<And>x. TID (threads s' x) = TID (threads ?s x)"
    by (rule sys_pthread_join_step [OF e(2,3) n v assms(7)]) (rule that)
  have call: "call_regs E (Pthread_join i) s (regs_of E c) = Some regs" by (simp add: regs_def)
  have d: "dispatch (r_eax regs) (r_ebx regs) (r_ecx regs) (r_edx regs) ?s = Some (0, s')"
    using s'(1) by (simp add: dispatch_def sys_call_table_def regs_def)
  have "user_step E \<lparr>os = s, code = co\<rparr> = Some \<lparr>os = s', code = co(c := r)\<rparr>"
    by (rule call_step [where co = co, OF assms(1,3) call d]) (simp_all add: makes_thread_def)
  then show thesis using s' by (intro that [of s']) (simp_all add: same_user_def same_rest_def)
qed

text \<open>\<open>pthread_exit\<close> of a thread the first waiter waits for.\<close>

lemma exit_thread:
  assumes "kinv s Q M c cp" and "co c = Pthread_exit # r"
    and "Q (ReadyThreads cp) @ first_joined s Q c cp = ThreadList t # ts"
  obtains s' where "user_step E \<lparr>os = s, code = co\<rparr> = Some \<lparr>os = s', code = co(c := r)\<rparr>"
    and "kinv s' (Q(Free_threadqueue := Q Free_threadqueue @ [ThreadList c],
        BlockedThreads cp := drop (length (first_joined s Q c cp)) (Q (BlockedThreads cp)), ReadyThreads cp := ts)) M t cp"
    and "pagusr_table s' = pagusr_table s" and "ram s' = ram s" and "con s' = con s"
proof -
  define regs where "regs = (regs_of E c)\<lparr>r_eax := 25, r_ebx := 0\<rparr>"
  let ?s = "in_call regs c s"
  note e = system_call_handler_eq [OF assms(1), of regs]
  have fj: "first_joined ?s Q c cp = first_joined s Q c cp" by (simp add: first_joined_def split: list.split lnode.split)
  have ne: "Q (ReadyThreads cp) @ first_joined ?s Q c cp \<noteq> []" using assms(3) fj by simp
  obtain s' t' ts' where s': "sys_pthread_exit 0 ?s = Some (0, s')"
    "Q (ReadyThreads cp) @ first_joined ?s Q c cp = ThreadList t' # ts'"
    "kinv s' (Q(Free_threadqueue := Q Free_threadqueue @ [ThreadList c],
        BlockedThreads cp := drop (length (first_joined ?s Q c cp)) (Q (BlockedThreads cp)), ReadyThreads cp := ts')) M t' cp"
    "same_rest ?s s'"
    by (rule sys_pthread_exit_step [OF e(2,3) ne])
  have call: "call_regs E Pthread_exit s (regs_of E c) = Some regs" by (simp add: regs_def)
  have d: "dispatch (r_eax regs) (r_ebx regs) (r_ecx regs) (r_edx regs) ?s = Some (0, s')"
    using s'(1) by (simp add: dispatch_def sys_call_table_def regs_def)
  have "user_step E \<lparr>os = s, code = co\<rparr> = Some \<lparr>os = s', code = co(c := r)\<rparr>"
    by (rule call_step [where co = co, OF assms(1,2) call d]) (simp_all add: makes_thread_def)
  then show thesis using s' assms(3) fj by (intro that [of s']) (simp_all add: same_rest_def)
qed

text \<open>Creating a thread and waiting for it: it is the only one that can run.\<close>

lemma create_and_join:
  assumes "kinv s Q M c cp" and "private_data (pagusr_table s cp)" and "co c = Pthread_create i f # Pthread_join i # r"
    and "Q Free_threadqueue = ThreadList u # us" and "Q (ReadyThreads cp) = []"
    and "find_free_page (pagusr_table s cp) 284 = Some page" and "\<not> nthread (tasks s cp) + 1 < 2"
    and "in_data (local_addr E i) 4" and "access_ok VERIFY_READ (fun_addr E f) 4"
    and "fun_at E (fun_addr E f) = Some body"
  obtains s' where "run E 2 \<lparr>os = s, code = co\<rparr> = Some \<lparr>os = s', code = co(c := r, u := body)\<rparr>"
    and "kinv s' (Q(Free_threadqueue := us, BlockedThreads cp := Q (BlockedThreads cp) @ [ThreadList c])) M u cp"
    and "private_data (pagusr_table s' cp)" and "con s' = con s" and "u \<noteq> c"
    and "blocked_by (threads s' c) = TID (threads s' u)"
    and "\<And>b. in_data b 1 \<Longrightarrow> b \<notin> {local_addr E i, local_addr E i + 1, local_addr E i + 2, local_addr E i + 3} \<Longrightarrow>
      vread (pagusr_table s' cp) (ram s') b = vread (pagusr_table s cp) (ram s) b"
proof -
  let ?id = "local_addr E i" and ?r1 = "Pthread_join i # r"
  let ?Q1 = "Q(Free_threadqueue := us, ReadyThreads cp := Q (ReadyThreads cp) @ [ThreadList u])"
  have uc: "u \<noteq> c" using take_free_thread [OF assms(1,4)] by blast
  obtain s1 where 1: "user_step E \<lparr>os = s, code = co\<rparr> = Some \<lparr>os = s1, code = co(c := ?r1, u := body)\<rparr>"
    "kinv s1 ?Q1 M c cp" "private_data (pagusr_table s1 cp)" "con s1 = con s"
    "vload32 (pagusr_table s1 cp) (ram s1) ?id = Some (nthread (tasks s cp))"
    "\<And>b. in_data b 1 \<Longrightarrow> b \<notin> {?id, ?id + 1, ?id + 2, ?id + 3} \<Longrightarrow>
      vread (pagusr_table s1 cp) (ram s1) b = vread (pagusr_table s cp) (ram s) b"
    "TID (threads s1 u) = nthread (tasks s cp)" "nthread (tasks s1 cp) = nthread (tasks s cp) + 1"
    by (rule create_thread [where co = co, OF assms(1-4,6,8-10)]) (rule that)
  let ?co1 = "co(c := ?r1, u := body)"
  have j: "?co1 c = ?r1" "\<not> nthread (tasks s1 cp) < 2" "?Q1 (ReadyThreads cp) = ThreadList u # []"
    using uc assms(5,7) 1(8) by simp_all
  obtain s2 where 2: "user_step E \<lparr>os = s1, code = ?co1\<rparr> = Some \<lparr>os = s2, code = ?co1(c := r)\<rparr>"
    "kinv s2 (?Q1(BlockedThreads cp := ?Q1 (BlockedThreads cp) @ [ThreadList c], ReadyThreads cp := [])) M u cp"
    "blocked_by (threads s2 c) = nthread (tasks s cp)" "same_user s1 s2" "con s2 = con s1"
    by (rule join_thread [where co = ?co1, OF 1(2,3) j(1) assms(8) 1(5) j(2,3)])
  have "?Q1(BlockedThreads cp := ?Q1 (BlockedThreads cp) @ [ThreadList c], ReadyThreads cp := []) =
      Q(Free_threadqueue := us, BlockedThreads cp := Q (BlockedThreads cp) @ [ThreadList c])"
    using assms(5) by (auto simp: fun_eq_iff)
  moreover have "?co1(c := r) = co(c := r, u := body)" using uc by (auto simp: fun_eq_iff)
  moreover have "run E 2 \<lparr>os = s, code = co\<rparr> = Some \<lparr>os = s2, code = ?co1(c := r)\<rparr>"
    using 1(1) 2(1) by (simp add: numeral_eq_Suc)
  ultimately show thesis
    using 1(3,4,6,7) 2(2-5) uc by (intro that [of s2]) (simp_all add: same_user_def)
qed

text \<open>The \<open>n\<close> bytes at \<open>a\<close> and the \<open>k\<close> bytes at \<open>b\<close> do not overlap; a store to the word at \<open>a\<close> leaves
  a text that is apart from it alone.\<close>

definition apart :: "u32 \<Rightarrow> nat \<Rightarrow> u32 \<Rightarrow> nat \<Rightarrow> bool" where
  "apart a n b k \<longleftrightarrow> unat a + n \<le> unat b \<or> unat b + k \<le> unat a"

definition text_apart :: "user_env \<Rightarrow> u32 \<Rightarrow> text_var \<Rightarrow> u32 \<Rightarrow> bool" where
  "text_apart E a x p \<longleftrightarrow> apart a 4 (text_addr E x) 4 \<and> apart a 4 p (length (bytes_of x) + 1)"

lemma apart_word:
  assumes "apart a 4 b k" and "in_data a 4" and "in_data b k" and "i < k"
  shows "b + of_nat i \<notin> {a, a + 1, a + 2, a + 3}"
proof -
  have "unat (b + of_nat i) \<noteq> unat (a + of_nat j)" if "j < 4" for j
    using assms(1,4) that in_data_offset(1) [OF assms(2) that] in_data_offset(1) [OF assms(3,4)] by (auto simp: apart_def)
  from this [of 0] this [of 1] this [of 2] this [of 3] show ?thesis by auto
qed

lemma text_at_apart:
  assumes "text_at E rd x p" and "in_data a 4" and "text_apart E a x p"
    and "\<And>b. in_data b 1 \<Longrightarrow> b \<notin> {a, a + 1, a + 2, a + 3} \<Longrightarrow> rd' b = rd b"
  shows "text_at E rd' x p"
proof (rule text_at_cong [OF assms(1)])
  have D: "in_data (text_addr E x) 4" "in_data p (length (bytes_of x) + 1)" using assms(1) by (simp_all add: text_at_def)
  have A: "apart a 4 (text_addr E x) 4" "apart a 4 p (length (bytes_of x) + 1)" using assms(3) by (simp_all add: text_apart_def)
  show "rd' (text_addr E x + of_nat i) = rd (text_addr E x + of_nat i)" if "i < 4" for i
    by (rule assms(4) [OF in_data_offset(2) [OF D(1) that] apart_word [OF A(1) assms(2) D(1) that]])
  show "rd' (p + of_nat i) = rd (p + of_nat i)" if "i \<le> length (bytes_of x)" for i
  proof -
    have i: "i < length (bytes_of x) + 1" using that by simp
    show ?thesis by (rule assms(4) [OF in_data_offset(2) [OF D(2) i] apart_word [OF A(2) assms(2) D(2) i]])
  qed
qed

text \<open>A thread that prints and exits while the only other thread of its process waits for it.\<close>

lemma print_and_exit:
  assumes "kinv s Q M u cp" and "private_data (pagusr_table s cp)" and "text_at E (vread (pagusr_table s cp) (ram s)) x p"
    and "co u = [Write x, Pthread_exit]" and "Q (ReadyThreads cp) = []" and "Q (BlockedThreads cp) = [ThreadList c]"
    and "blocked_by (threads s c) = TID (threads s u)"
  obtains s' where "run E 2 \<lparr>os = s, code = co\<rparr> = Some \<lparr>os = s', code = co(u := [])\<rparr>"
    and "kinv s' (Q(Free_threadqueue := Q Free_threadqueue @ [ThreadList u], BlockedThreads cp := [])) M c cp"
    and "pagusr_table s' = pagusr_table s" and "ram s' = ram s" and "port_e9 (con s') = port_e9 (con s) @ bytes_of x"
proof -
  obtain s3 where 3: "user_step E \<lparr>os = s, code = co\<rparr> = Some \<lparr>os = s3, code = co(u := [Pthread_exit])\<rparr>"
    "kinv s3 Q M u cp" "same_user s s3" "tasks s3 = tasks s"
    "\<And>y. blocked_by (threads s3 y) = blocked_by (threads s y)" "port_e9 (con s3) = port_e9 (con s) @ bytes_of x"
    by (rule write_text [where co = co, OF assms(1-4)]) (rule that)
  let ?co3 = "co(u := [Pthread_exit])"
  have "blocked_by (threads s3 c) = TID (threads s3 u)" using assms(7) 3(3,5) by (simp add: same_user_def)
  then have fj: "first_joined s3 Q u cp = [ThreadList c]" using assms(6) by (simp add: first_joined_def)
  have x: "Q (ReadyThreads cp) @ first_joined s3 Q u cp = ThreadList c # []" "?co3 u = Pthread_exit # []"
    using fj assms(5) by simp_all
  obtain s4 where 4: "user_step E \<lparr>os = s3, code = ?co3\<rparr> = Some \<lparr>os = s4, code = ?co3(u := [])\<rparr>"
    "kinv s4 (Q(Free_threadqueue := Q Free_threadqueue @ [ThreadList u],
        BlockedThreads cp := drop (length (first_joined s3 Q u cp)) (Q (BlockedThreads cp)), ReadyThreads cp := [])) M c cp"
    "pagusr_table s4 = pagusr_table s3" "ram s4 = ram s3" "con s4 = con s3"
    by (rule exit_thread [where co = ?co3, OF 3(2) x(2,1)])
  have "Q(Free_threadqueue := Q Free_threadqueue @ [ThreadList u],
        BlockedThreads cp := drop (length (first_joined s3 Q u cp)) (Q (BlockedThreads cp)), ReadyThreads cp := []) =
      Q(Free_threadqueue := Q Free_threadqueue @ [ThreadList u], BlockedThreads cp := [])"
    using assms(5,6) fj by (auto simp: fun_eq_iff)
  then show thesis using 3(1,3,6) 4 by (intro that [of s4]) (simp_all add: numeral_eq_Suc same_user_def)
qed

section \<open>Correctness\<close>

text \<open>C15: the test \<open>prueba3\<close> shows what its comment says. In a process with one thread that calls it, the
  thread creates another, waits for it and is blocked; the new thread prints its text and exits; only
  then the first one goes on and prints its own, and both find the thread descriptors as they were,
  the used one now at the end of the free ones. As long as no clock interrupt switches, this takes
  the five calls of the two functions.\<close>

theorem prueba3_waits:
  assumes "kinv s Q M c cp" and "private_data (pagusr_table s cp)" and "co c = prueba3 @ r"
    and "Q Free_threadqueue = ThreadList u # us" and "Q (ReadyThreads cp) = []" and "Q (BlockedThreads cp) = []"
    and "find_free_page (pagusr_table s cp) 284 = Some page" and "\<not> nthread (tasks s cp) + 1 < 2"
    and "access_ok VERIFY_READ (fun_addr E Hola) 4" and "fun_at E (fun_addr E Hola) = Some hola"
    and "text_at E (vread (pagusr_table s cp) (ram s)) Var_c pc" and "text_at E (vread (pagusr_table s cp) (ram s)) Var_e pe"
    and "in_data (local_addr E Id) 4" and "text_apart E (local_addr E Id) Var_c pc" and "text_apart E (local_addr E Id) Var_e pe"
  shows "\<exists>s' co'. run E 5 \<lparr>os = s, code = co\<rparr> = Some \<lparr>os = s', code = co'\<rparr> \<and> co' c = r
    \<and> kinv s' (Q(Free_threadqueue := us @ [ThreadList u])) M c cp
    \<and> port_e9 (con s') = port_e9 (con s) @ map of_char (''Hola'' @ [newline] @ ''Hey'' @ [newline])"
proof -
  let ?id = "local_addr E Id" and ?r2 = "Write Var_e # r"
  let ?Q2 = "Q(Free_threadqueue := us, BlockedThreads cp := Q (BlockedThreads cp) @ [ThreadList c])"
  have co: "co c = Pthread_create Id Hola # Pthread_join Id # ?r2" using assms(3) by (simp add: prueba3_def)
  obtain s2 where 2: "run E 2 \<lparr>os = s, code = co\<rparr> = Some \<lparr>os = s2, code = co(c := ?r2, u := hola)\<rparr>"
    "kinv s2 ?Q2 M u cp" "private_data (pagusr_table s2 cp)" "con s2 = con s" "u \<noteq> c"
    "blocked_by (threads s2 c) = TID (threads s2 u)"
    "\<And>b. in_data b 1 \<Longrightarrow> b \<notin> {?id, ?id + 1, ?id + 2, ?id + 3} \<Longrightarrow>
      vread (pagusr_table s2 cp) (ram s2) b = vread (pagusr_table s cp) (ram s) b"
    by (rule create_and_join [where co = co, OF assms(1,2) co assms(4,5,7,8,13,9,10)]) (rule that)
  have tc: "text_at E (vread (pagusr_table s2 cp) (ram s2)) Var_c pc" by (rule text_at_apart [OF assms(11,13,14) 2(7)])
  have te: "text_at E (vread (pagusr_table s2 cp) (ram s2)) Var_e pe" by (rule text_at_apart [OF assms(12,13,15) 2(7)])
  let ?co2 = "co(c := ?r2, u := hola)"
  have w: "?co2 u = [Write Var_c, Pthread_exit]" "?Q2 (ReadyThreads cp) = []" "?Q2 (BlockedThreads cp) = [ThreadList c]"
    using assms(5,6) by (simp_all add: hola_def)
  obtain s4 where 4: "run E 2 \<lparr>os = s2, code = ?co2\<rparr> = Some \<lparr>os = s4, code = ?co2(u := [])\<rparr>"
    "kinv s4 (?Q2(Free_threadqueue := ?Q2 Free_threadqueue @ [ThreadList u], BlockedThreads cp := [])) M c cp"
    "pagusr_table s4 = pagusr_table s2" "ram s4 = ram s2" "port_e9 (con s4) = port_e9 (con s2) @ bytes_of Var_c"
    by (rule print_and_exit [where co = ?co2, OF 2(2,3) tc w 2(6)]) (rule that)
  have Q4: "?Q2(Free_threadqueue := ?Q2 Free_threadqueue @ [ThreadList u], BlockedThreads cp := []) =
      Q(Free_threadqueue := us @ [ThreadList u])" using assms(6) by (auto simp: fun_eq_iff)
  let ?co4 = "?co2(u := [])"
  have y: "private_data (pagusr_table s4 cp)" "text_at E (vread (pagusr_table s4 cp) (ram s4)) Var_e pe" "?co4 c = Write Var_e # r"
    using 2(3,5) 4(3,4) te by simp_all
  obtain s5 where 5: "user_step E \<lparr>os = s4, code = ?co4\<rparr> = Some \<lparr>os = s5, code = ?co4(c := r)\<rparr>"
    "kinv s5 (Q(Free_threadqueue := us @ [ThreadList u])) M c cp"
    "port_e9 (con s5) = port_e9 (con s4) @ bytes_of Var_e"
    by (rule write_text [where co = ?co4, OF 4(2) [unfolded Q4] y]) (rule that)
  have "run E 5 \<lparr>os = s, code = co\<rparr> = run E 2 \<lparr>os = s, code = co\<rparr> \<bind> (\<lambda>sys. run E 2 sys \<bind> run E 1)"
    unfolding run_add [of E 2 3, simplified] run_add [of E 2 1, simplified] by simp
  also have "\<dots> = Some \<lparr>os = s5, code = ?co4(c := r)\<rparr>"
    unfolding 2(1) Option.bind.simps 4(1) using 5(1) by simp
  finally show ?thesis
    using 2(4) 4(5) 5(2,3)
    by (intro exI [of _ s5] exI [of _ "?co4(c := r)"]) (simp add: bytes_of_def)
qed

text \<open>A memory with the texts and variables of the tests at the start of the first data page.\<close>

definition example_env :: user_env where
  "example_env = \<lparr>text_addr = (\<lambda>x. if x = Var_c then 0x108000 else if x = Var_d then 0x108018 else if x = Var_a then 0x108024
     else if x = Var_b then 0x108028 else 0x108004), pid_addr = 0x108100,
     errno_addr = 0x108104, local_addr = (\<lambda>i. if i = Id then 0x108108 else 0x10810c),
     fun_addr = (\<lambda>f. if f = Hola then 0x100000 else 0x100100),
     regs_of = (\<lambda>_. \<lparr>r_eax = 0, r_ebx = 0, r_ecx = 0, r_edx = 0, r_esi = 0, r_edi = 0, r_ebp = 0x11bf00,
       r_ds = 0x2b, r_es = 0x2b, r_fs = 0x2b, r_gs = 0x2b, r_eflags = 0x202, ret_addr = 0x100040\<rparr>)\<rparr>"

definition example_data :: "u8 list" where
  "example_data = [0x08, 0x80, 0x10, 0, 0x10, 0x80, 0x10, 0] @ bytes_of Var_c @ [0, 0, 0]
     @ bytes_of Var_e @ [0, 0, 0, 0, 0x1c, 0x80, 0x10, 0] @ bytes_of Var_d @ [0]
     @ [0, 0, 0x2c, 0x80, 0x10, 0, 0x40, 0x80, 0x10, 0] @ bytes_of Var_a @ [0, 0] @ bytes_of Var_b @ [0]"

definition with_texts :: kernel where
  "with_texts = booted\<lparr>ram := (\<lambda>f k. if f = unat (pbase_addr (pagusr_table booted 1 264)) \<and> k < length example_data
     then example_data ! k else 0)\<rparr>"

lemma with_texts_ok:
  "kinv with_texts boot_queues {} 1 1" "pagusr_table with_texts = pagusr_table booted" "tasks with_texts = tasks booted"
  "private_data (pagusr_table with_texts 1)" "find_free_page (pagusr_table with_texts 1) 284 = Some 284"
proof -
  show "kinv with_texts boot_queues {} 1 1" using booted_kinv kinv_cong [of with_texts booted] by (simp add: with_texts_def)
  show e: "pagusr_table with_texts = pagusr_table booted" "tasks with_texts = tasks booted" by (simp_all add: with_texts_def)
  obtain cs m1 ds where 1: "take_frames alloc_frame 8 (init_frames (\<lambda>_. 0)) = (cs, m1)"
    and 2: "take_frames alloc_frame 20 m1 = (ds, phys_mem booted)"
    and T: "pagusr_table booted 1 = user_pages cs ds (init_table example_layout (\<lambda>_. 0))"
    by (rule booted_facts)
  show "private_data (pagusr_table with_texts 1)"
    unfolding e T private_data_def using boot_data_pages [where \<sigma> = example_layout and T = "\<lambda>_. 0", OF 1 2] by (auto simp: pool_frame_def)
  show "find_free_page (pagusr_table with_texts 1) 284 = Some 284" using booted_pages(1) by (simp add: e)
qed

lemma example_data_length: "length example_data = 80"
  by (simp add: example_data_def bytes_of_def newline_def)

lemma with_texts_reads:
  assumes "i < 80"
  shows "vread (pagusr_table with_texts 1) (ram with_texts) (0x108000 + of_nat i) = Some (example_data ! i)"
proof -
  have D: "in_data 0x108000 80" by (simp add: in_data_def)
  have u: "unat (0x108000 + of_nat i :: u32) = 0x108000 + i" using in_data_offset(1) [OF D assms] by simp
  have "0x108000 + i = i + 264 * 4096" by simp
  then have dm: "(0x108000 + i) div 4096 = 264" "(0x108000 + i) mod 4096 = i"
    using assms by (simp_all only: mod_mult_self1 div_mult_self1) simp_all
  show ?thesis
    using private_kaddr(1) [OF with_texts_ok(4) in_data_offset(2) [OF D assms]] assms example_data_length unfolding u dm
    by (simp add: vread_def) (simp add: with_texts_def)
qed

text \<open>A pointer and a text in it.\<close>

lemma example_part:
  assumes "example_data = pre @ mid @ post" and "a = 0x108000 + of_nat (length pre)"
  shows "in_data a (length mid)"
    and "i < length mid \<Longrightarrow> vread (pagusr_table with_texts 1) (ram with_texts) (a + of_nat i) = Some (mid ! i)"
proof -
  have l: "length pre + length mid \<le> 80"
    using arg_cong [OF assms(1), of length] unfolding example_data_length by simp
  have "unat a = 0x108000 + length pre" unfolding assms(2) using l by (subst unat_add_of_nat32) simp_all
  then show "in_data a (length mid)" using l by (simp add: in_data_def)
  show "vread (pagusr_table with_texts 1) (ram with_texts) (a + of_nat i) = Some (mid ! i)" if "i < length mid"
  proof -
    have "example_data ! (length pre + i) = mid ! i" unfolding assms(1) using that by (simp add: nth_append)
    then show ?thesis using with_texts_reads [of "length pre + i"] that l by (simp add: assms(2) add.assoc)
  qed
qed

lemma example_text:
  assumes "example_data = pre @ [ucast p, ucast (drop_bit 8 p), ucast (drop_bit 16 p), ucast (drop_bit 24 p)] @ post"
    and "text_addr example_env x = 0x108000 + of_nat (length pre)"
    and "example_data = pre' @ (bytes_of x @ [0]) @ post'" and "p = 0x108000 + of_nat (length pre')"
  shows "text_at example_env (vread (pagusr_table with_texts 1) (ram with_texts)) x p"
  unfolding text_at_def
proof (intro conjI ballI)
  show "vread (pagusr_table with_texts 1) (ram with_texts) (text_addr example_env x + of_nat i) = Some (ucast (drop_bit (8 * i) p))"
    if "i \<in> {..<4}" for i
  proof -
    have "i \<in> {0, 1, 2, 3}" using that by auto
    then show ?thesis using example_part(2) [OF assms(1,2), of i] by auto
  qed
  show "vread (pagusr_table with_texts 1) (ram with_texts) (p + of_nat i) = Some ((bytes_of x @ [0]) ! i)"
    if "i \<in> {..length (bytes_of x)}" for i
    using that by (intro example_part(2) [OF assms(3,4)]) simp
qed (use example_part(1) [OF assms(1,2)] example_part(1) [OF assms(3,4)] in \<open>simp_all add: numeral_eq_Suc\<close>)

lemma with_texts_texts:
  "text_at example_env (vread (pagusr_table with_texts 1) (ram with_texts)) Var_c 0x108008"
  "text_at example_env (vread (pagusr_table with_texts 1) (ram with_texts)) Var_e 0x108010"
  "text_at example_env (vread (pagusr_table with_texts 1) (ram with_texts)) Var_d 0x10801c"
  "text_at example_env (vread (pagusr_table with_texts 1) (ram with_texts)) Var_a 0x10802c"
  "text_at example_env (vread (pagusr_table with_texts 1) (ram with_texts)) Var_b 0x108040"
proof -
  note ex = example_data_def bytes_of_def newline_def example_env_def
  show "text_at example_env (vread (pagusr_table with_texts 1) (ram with_texts)) Var_c 0x108008"
    by (rule example_text [of "take 0 example_data" _ "drop 4 example_data" _ "take 8 example_data" "drop 14 example_data"])
      (simp_all add: ex)
  show "text_at example_env (vread (pagusr_table with_texts 1) (ram with_texts)) Var_e 0x108010"
    by (rule example_text [of "take 4 example_data" _ "drop 8 example_data" _ "take 16 example_data" "drop 21 example_data"])
      (simp_all add: ex)
  show "text_at example_env (vread (pagusr_table with_texts 1) (ram with_texts)) Var_d 0x10801c"
    by (rule example_text [of "take 24 example_data" _ "drop 28 example_data" _ "take 28 example_data" "drop 34 example_data"])
      (simp_all add: ex)
  show "text_at example_env (vread (pagusr_table with_texts 1) (ram with_texts)) Var_a 0x10802c"
    by (rule example_text [of "take 36 example_data" _ "drop 40 example_data" _ "take 44 example_data" "drop 63 example_data"])
      (simp_all add: ex)
  show "text_at example_env (vread (pagusr_table with_texts 1) (ram with_texts)) Var_b 0x108040"
    by (rule example_text [of "take 40 example_data" _ "drop 44 example_data" _ "take 64 example_data" "drop 80 example_data"])
      (simp_all add: ex)
qed

lemma prueba3_waits_witness:
  "\<exists>sys. run example_env 5 \<lparr>os = with_texts, code = (\<lambda>_. prueba3)\<rparr> = Some sys
     \<and> port_e9 (con (os sys)) = port_e9 (con with_texts) @ map of_char (''Hola'' @ [newline] @ ''Hey'' @ [newline])"
proof -
  have free: "boot_queues Free_threadqueue = ThreadList 2 # map ThreadList [3..<10]" by (simp add: upt_rec)
  have "nthread (tasks booted 1) = 2" by (rule booted_facts)
  then have n: "\<not> nthread (tasks with_texts 1) + 1 < 2" by (simp add: with_texts_ok(3))
  have ok: "access_ok VERIFY_READ (fun_addr example_env Hola) 4" by (simp add: access_ok_range example_env_def)
  have at: "fun_at example_env (fun_addr example_env Hola) = Some hola" by (simp add: fun_at_def example_env_def)
  have id: "in_data (local_addr example_env Id) 4" by (simp add: in_data_def example_env_def)
  have ap: "text_apart example_env (local_addr example_env Id) Var_c 0x108008"
    "text_apart example_env (local_addr example_env Id) Var_e 0x108010"
    by (simp_all add: text_apart_def apart_def example_env_def bytes_of_def newline_def)
  have q: "boot_queues (ReadyThreads 1) = []" "boot_queues (BlockedThreads 1) = []" by simp_all
  have co: "(\<lambda>_. prueba3) (1 :: nat) = prueba3 @ []" by simp
  from prueba3_waits [where co = "\<lambda>_. prueba3", OF with_texts_ok(1,4) co free q with_texts_ok(5) n ok at with_texts_texts(1,2) id ap]
  show ?thesis by fastforce
qed

end
