(* ===== verification/UserFork.thy ===== *)
theory UserFork
  imports UserProg
begin

text \<open>
  \<open>prueba4\<close> of the test program: \<open>fork\<close> from user mode, with the store of its result in the variable
  \<open>pid\<close> of each process and the branches that follow.
\<close>

section \<open>Storing a result\<close>

definition writable_data :: "page_table \<Rightarrow> bool" where
  "writable_data PT \<longleftrightarrow> (\<forall>p \<in> {264..<284}. pte_user (PT p) \<and> pte_rw (PT p))"

lemma writable_translate:
  assumes "private_data PT" and "writable_data PT" and "in_data a 1"
  shows "translate PT True a \<noteq> None"
  using private_kaddr(3,4) [OF assms(1,3)] assms(1,2) by (simp add: translate_def private_data_def writable_data_def Let_def)

text \<open>What is not stored to is not changed, seen through any page table.\<close>

lemma vwrite_elsewhere:
  "vwrite PT a v m = Some m' \<Longrightarrow> kaddr PT' b \<noteq> kaddr PT a \<Longrightarrow> vread PT' m' b = vread PT' m b"
  by (cases "kaddr PT a"; cases "kaddr PT' b") (auto simp: vwrite_def vread_def split: if_splits)

lemma vstore32_elsewhere:
  assumes "vstore32 PT a v m = Some m'" and "\<And>j. j < 4 \<Longrightarrow> kaddr PT' b \<noteq> kaddr PT (a + of_nat j)"
  shows "vread PT' m' b = vread PT' m b"
proof -
  have k: "kaddr PT' b \<noteq> kaddr PT a" "kaddr PT' b \<noteq> kaddr PT (a + 1)" "kaddr PT' b \<noteq> kaddr PT (a + 2)"
    "kaddr PT' b \<noteq> kaddr PT (a + 3)"
    using assms(2) [of 0] assms(2) [of 1] assms(2) [of 2] assms(2) [of 3] by simp_all
  obtain m1 m2 m3 where m: "vwrite PT a (ucast v) m = Some m1" "vwrite PT (a + 1) (ucast (drop_bit 8 v)) m1 = Some m2"
    "vwrite PT (a + 2) (ucast (drop_bit 16 v)) m2 = Some m3" "vwrite PT (a + 3) (ucast (drop_bit 24 v)) m3 = Some m'"
    using assms(1) by (auto simp: vstore32_def split: Option.bind_splits)
  show ?thesis
    using vwrite_elsewhere [OF m(1) k(1)] vwrite_elsewhere [OF m(2) k(2)] vwrite_elsewhere [OF m(3) k(3)]
      vwrite_elsewhere [OF m(4) k(4)] by simp
qed

lemma put_step:
  assumes "kinv s Q M c cp" and "private_data (pagusr_table s cp)" and "writable_data (pagusr_table s cp)"
    and "co c = Put a v # r" and "in_data a 4"
  obtains s' where "user_step E \<lparr>os = s, code = co\<rparr> = Some \<lparr>os = s', code = co(c := r)\<rparr>"
    and "kinv s' Q M c cp" and "pagusr_table s' = pagusr_table s" and "load_user a s' = Some v" and "con s' = con s"
    and "\<And>b. in_data b 1 \<Longrightarrow> b \<notin> {a, a + 1, a + 2, a + 3} \<Longrightarrow>
      vread (pagusr_table s cp) (ram s') b = vread (pagusr_table s cp) (ram s) b"
    and "\<And>PT b. \<forall>j<4. kaddr PT b \<noteq> kaddr (pagusr_table s cp) (a + of_nat j) \<Longrightarrow>
      vread PT (ram s') b = vread PT (ram s) b"
proof -
  let ?PT = "pagusr_table s cp"
  obtain m where m: "vstore32 ?PT a v (ram s) = Some m" "vload32 ?PT m a = Some v"
    "\<And>b. in_data b 1 \<Longrightarrow> b \<notin> {a, a + 1, a + 2, a + 3} \<Longrightarrow> vread ?PT m b = vread ?PT (ram s) b"
    by (rule private_store [OF assms(2,5)]) (rule that)
  let ?s = "s\<lparr>ram := m\<rparr>"
  have k: "kinv ?s Q M c cp" using assms(1) kinv_cong [of ?s s] by simp
  have w: "user_word ?PT a" by (rule in_data_word [OF assms(2,5)])
  have "translate ?PT True (a + of_nat i) \<noteq> None" if "i < 4" for i
    by (rule writable_translate [OF assms(2,3) in_data_offset(2) [OF assms(5) that]])
  then have "user_store_word a v s = Some ?s"
    using kinv_tables(2) [OF assms(1)] w m(1) by (simp add: user_store_word_def)
  then have "user_step E \<lparr>os = s, code = co\<rparr> = Some \<lparr>os = ?s, code = co(c := r)\<rparr>"
    using assms(4) running_thread [OF assms(1)] by (simp add: user_step_def)
  moreover have "load_user a ?s = Some v" using kinv_tables(2) [OF k] w m(2) by (simp add: load_user_def)
  moreover have "vread PT m b = vread PT (ram s) b" if "\<forall>j<4. kaddr PT b \<noteq> kaddr ?PT (a + of_nat j)" for PT b
    using that by (intro vstore32_elsewhere [OF m(1)]) blast
  ultimately show thesis using k m(3) by (intro that [of ?s]) simp_all
qed

lemma if_steps:
  assumes "kinv s Q M c cp" and "load_user (pid_addr E) s = Some v"
  shows "co c = If_pid_zero b # r \<Longrightarrow>
      user_step E \<lparr>os = s, code = co\<rparr> = Some \<lparr>os = s, code = co(c := (if v = 0 then b @ r else r))\<rparr>"
    and "co c = If_pid_positive b # r \<Longrightarrow>
      user_step E \<lparr>os = s, code = co\<rparr> = Some \<lparr>os = s, code = co(c := (if 0 < sint v then b @ r else r))\<rparr>"
  using running_thread [OF assms(1)] assms(2) by (simp_all add: user_step_def)

section \<open>Forking\<close>

lemma child_table_data:
  assumes "length ds = 20" and "distinct ds" and "\<And>f. f \<in> set ds \<Longrightarrow> pool_frame (unat f)"
  shows "private_data (child_table T0 TP ds)" and "writable_data (child_table T0 TP ds)"
proof -
  have e: "pbase_addr (child_table T0 TP ds p) = ds ! (p - 264)" "256 \<le> unat (ds ! (p - 264))" if "264 \<le> p" "p < 284" for p
  proof -
    have f: "pool_frame (unat (ds ! (p - 264)))" using that assms(1,3) by simp
    then show "256 \<le> unat (ds ! (p - 264))" by (simp add: pool_frame_def)
    have "ds ! (p - 264) AND 0xFFFFF = ds ! (p - 264)" using f by (intro and_20_bits) (simp add: pool_frame_def)
    then show "pbase_addr (child_table T0 TP ds p) = ds ! (p - 264)" using that by (simp add: child_table_def)
  qed
  have "inj_on (\<lambda>p. pbase_addr (child_table T0 TP ds p)) {264..<284}"
  proof (rule inj_onI)
    fix p q :: nat assume pq: "p \<in> {264..<284}" "q \<in> {264..<284}"
      and f: "pbase_addr (child_table T0 TP ds p) = pbase_addr (child_table T0 TP ds q)"
    have "ds ! (p - 264) = ds ! (q - 264)" using f pq e(1) [of p] e(1) [of q] by simp
    then have "p - 264 = q - 264" using pq assms(1) nth_eq_iff_index_eq [OF assms(2), of "p - 264" "q - 264"] by auto
    then show "p = q" using pq by auto
  qed
  then show "private_data (child_table T0 TP ds)" using e by (auto simp: private_data_def child_table_def)
  show "writable_data (child_table T0 TP ds)" by (auto simp: writable_data_def child_table_def)
qed

lemma without_window_data [simp]:
  "private_data (without_window TP) = private_data TP" "writable_data (without_window TP) = writable_data TP"
proof -
  have "inj_on (\<lambda>p. pbase_addr (without_window TP p)) {264..<284} = inj_on (\<lambda>p. pbase_addr (TP p)) {264..<284}"
    by (intro inj_on_cong) (simp add: without_window_def)
  then show "private_data (without_window TP) = private_data TP" by (auto simp: private_data_def without_window_def)
  show "writable_data (without_window TP) = writable_data TP" by (auto simp: writable_data_def without_window_def)
qed

lemma fork_process:
  assumes "kinv s Q M c cp" and "private_data (pagusr_table s cp)" and "writable_data (pagusr_table s cp)"
    and "data_mapped s cp" and "co c = Fork_pid # r"
    and "Q Freequeue = TaskList i # fs" and "Q Free_threadqueue = ThreadList u # us"
    and "20 \<le> card (free_frames (phys_mem s))" and "0 \<le> sint (global_PID s + 1)"
  obtains s' where "user_step E \<lparr>os = s, code = co\<rparr> =
      Some \<lparr>os = s', code = co(c := Put (pid_addr E) (global_PID s + 1) # r, u := Put (pid_addr E) 0 # r)\<rparr>"
    and "kinv s' (Q(Freequeue := fs, Free_threadqueue := us, Readyqueue := Q Readyqueue @ [TaskList i],
        ReadyThreads i := [ThreadList u])) M c cp"
    and "private_data (pagusr_table s' cp)" and "writable_data (pagusr_table s' cp)"
    and "private_data (pagusr_table s' i)" and "writable_data (pagusr_table s' i)" and "u \<noteq> c"
    and "\<And>a. in_data a 1 \<Longrightarrow> vread (pagusr_table s' i) (ram s') a = vread (pagusr_table s cp) (ram s) a"
    and "\<And>a b. in_data a 1 \<Longrightarrow> in_data b 1 \<Longrightarrow> kaddr (pagusr_table s' i) a \<noteq> kaddr (pagusr_table s' cp) b"
    and "\<And>a. in_data a 1 \<Longrightarrow> vread (pagusr_table s' cp) (ram s') a = vread (pagusr_table s cp) (ram s) a"
    and "con s' = con s"
proof -
  define regs where "regs = (regs_of E c)\<lparr>r_eax := 2\<rparr>"
  let ?s = "in_call regs c s" and ?TP = "pagusr_table s cp" and ?T0 = "pagusr_table s i"
  note km = kinv_kmid [OF assms(1)] and e = system_call_handler_eq [OF assms(1), of regs]
  obtain ds pm where f: "take_frames alloc_frame 20 (phys_mem ?s) = (ds, pm)" by fastforce
  have d: "20 \<le> card (free_frames (phys_mem ?s))" "data_mapped ?s cp"
    using assms(4,8) by (simp_all add: data_mapped_def)
  note fr = fp.take_frames_spec [OF d(1) f]
  have ds: "length ds = 20" "distinct ds" "\<And>f. f \<in> set ds \<Longrightarrow> pool_frame (unat f) \<and> unat f \<in> free_frames (phys_mem s)"
    using fr by (auto simp: free_frames_def)
  then have small: "\<And>f. f \<in> set ds \<Longrightarrow> unat f < 2 ^ 20" by (fastforce simp: pool_frame_def)
  obtain h m where s': "sys_fork ?s = Some (global_PID ?s + 1, forked ?s c cp i u 1005 ds pm m h)"
    "copied_pages (pagusr_table ?s cp) ds (ram ?s) m"
    "kinv (forked ?s c cp i u 1005 ds pm m h) (Q(Freequeue := fs, Free_threadqueue := us,
      Readyqueue := Q Readyqueue @ [TaskList i], ReadyThreads i := [ThreadList u])) M c cp"
    by (rule sys_fork_step [OF e(2-4) assms(6,7) f d])
  let ?s' = "forked ?s c cp i u 1005 ds pm m h"
  have cm: "copied_pages ?TP ds (ram s) m" using s'(2) by simp
  have "queued (heads M) Q (TaskList i)" "queued (heads M) Q (ThreadList u)"
    using assms(6,7) by (auto intro: queuedI [of Freequeue] queuedI [of Free_threadqueue])
  then have ne: "i \<noteq> cp" "u \<noteq> c" using kinv_proc [OF assms(1)] kinv_thread [OF assms(1)]
    by (auto simp: proc_running_def thread_running_def)
  have u: "u < 22" using kmid_member [OF km heads_simps(3), of "ThreadList u"] assms(7) by simp
  have T: "pagusr_table ?s' i = child_table ?T0 ?TP ds" "pagusr_table ?s' cp = without_window ?TP" "ram ?s' = m"
    using ne by (simp_all add: forked_def)
  have pg: "264 * 4096 \<le> unat a" "unat a < 284 * 4096" "pte_present (?TP (unat a div 4096))"
    "unat (pbase_addr (?TP (unat a div 4096))) \<notin> unat ` set ds" "unat a div 4096 - 264 < 20" if "in_data a 1" for a
    using private_kaddr(3,4) [OF assms(2) that] assms(4) ds(3) that by (auto simp: in_data_def data_mapped_def)
  have call: "system_call_handler regs s = Some (global_PID s + 1, ?s')"
    unfolding e(1) using s'(1) by (simp add: dispatch_def sys_call_table_def regs_def) (simp add: in_call_def)
  have lf: "list_first Free_threadqueue (heap s) = Some (ThreadList u)"
    using lq.first_law [OF kmid_shape [OF km] heads_simps(3)] assms(7) by simp
  have tn: "thread_at (sym ?s') (list_head_to_thread_struct (sym ?s') (ThreadList u)) = Some u"
    using kmid_layout [OF km] u by (intro thread_of_node) (simp_all add: forked_def)
  have "user_step E \<lparr>os = s, code = co\<rparr> =
      Some \<lparr>os = ?s', code = co(c := Put (pid_addr E) (global_PID s + 1) # r, u := Put (pid_addr E) 0 # r)\<rparr>"
    using assms(5,9) running_thread [OF assms(1)] call lf tn
    by (simp add: user_step_def enter_kernel_def makes_thread_def after_call_def first_statements_def regs_def [symmetric])
  moreover have "vread (pagusr_table ?s' i) (ram ?s') a = vread ?TP (ram s) a" if "in_data a 1" for a
    using child_reads(1) [OF cm ds(1) small pg(1-3) [OF that]] by (simp add: T)
  moreover have "vread (pagusr_table ?s' cp) (ram ?s') a = vread ?TP (ram s) a" if "in_data a 1" for a
    using parent_reads(1) [OF cm pg(1-4) [OF that]] by (simp add: T)
  moreover have "con ?s' = con s" by (simp add: forked_def)
  moreover have "kaddr (pagusr_table ?s' i) a \<noteq> kaddr (pagusr_table ?s' cp) b" if a: "in_data a 1" and b: "in_data b 1" for a b
  proof -
    have "unat (ds ! (unat a div 4096 - 264)) \<in> unat ` set ds" using pg(5) [OF a] ds(1) by simp
    then show ?thesis
      using child_reads(2) [OF cm ds(1) small pg(1-3) [OF a], of ?T0] parent_reads(2) [OF cm pg(1-4) [OF b]] pg(4) [OF b]
      by (auto simp: T)
  qed
  ultimately show thesis
    using s'(3) ne(2) assms(2,3) child_table_data [OF ds(1,2), of ?T0 ?TP] ds(3)
    by (intro that [of ?s']) (simp_all add: T)
qed

text \<open>The child's side of \<open>prueba4\<close>, when it first runs.\<close>

lemma child_goes_on:
  assumes "kinv t Q M u i" and "private_data (pagusr_table t i)" and "writable_data (pagusr_table t i)"
    and "co u = Put (pid_addr E) 0 # If_pid_zero b # r" and "in_data (pid_addr E) 4"
  obtains t' where "run E 2 \<lparr>os = t, code = co\<rparr> = Some \<lparr>os = t', code = co(u := b @ r)\<rparr>"
    and "kinv t' Q M u i" and "load_user (pid_addr E) t' = Some 0"
proof -
  obtain t' where t': "user_step E \<lparr>os = t, code = co\<rparr> = Some \<lparr>os = t', code = co(u := If_pid_zero b # r)\<rparr>"
    "kinv t' Q M u i" "load_user (pid_addr E) t' = Some 0"
    by (rule put_step [where co = co, OF assms])
  moreover have "run E 2 \<lparr>os = t, code = co\<rparr> = Some \<lparr>os = t', code = co(u := b @ r)\<rparr>"
    using t'(1) if_steps(1) [OF t'(2,3)] by (simp add: numeral_eq_Suc)
  ultimately show thesis by (intro that [of t'])
qed

text \<open>The example's memory is ready for a \<open>fork\<close>.\<close>

lemma with_texts_fork:
  "writable_data (pagusr_table with_texts 1)" "data_mapped with_texts 1" "global_PID with_texts = 1000"
  "20 \<le> card (free_frames (phys_mem with_texts))"
proof -
  obtain cs m1 ds where 1: "take_frames alloc_frame 8 (init_frames (\<lambda>_. 0)) = (cs, m1)"
    and 2: "take_frames alloc_frame 20 m1 = (ds, phys_mem booted)"
    and T: "pagusr_table booted 1 = user_pages cs ds (init_table example_layout (\<lambda>_. 0))"
    by (rule booted_facts)
  show "writable_data (pagusr_table with_texts 1)"
    unfolding with_texts_ok(2) T using boot_frames(1,2) [OF 1 2] by (auto simp: writable_data_def user_pages_at)
  show "data_mapped with_texts 1" "20 \<le> card (free_frames (phys_mem with_texts))"
    using entered_data by (simp_all add: data_mapped_def with_texts_def)
  have "global_PID booted = 1000" by (rule booted_facts)
  then show "global_PID with_texts = 1000" by (simp add: with_texts_def)
qed

section \<open>Correctness\<close>

text \<open>C16: \<open>prueba4\<close> splits into two processes that go different ways. The caller of \<open>fork\<close> stores the
  child's number in its variable \<open>pid\<close> and comes, after four statements, to the loop that writes \<open>b\<close>;
  the child waits ready, its data as the parent's were before the call, untouched by the parent's store,
  and from any state in which it runs for the first time it stores 0 in its own \<open>pid\<close> and comes to the
  loop that writes \<open>a\<close>.\<close>

theorem prueba4_splits:
  assumes "kinv s Q M c cp" and "private_data (pagusr_table s cp)" and "writable_data (pagusr_table s cp)"
    and "data_mapped s cp" and "co c = prueba4 @ r"
    and "Q Freequeue = TaskList i # fs" and "Q Free_threadqueue = ThreadList u # us"
    and "20 \<le> card (free_frames (phys_mem s))" and "0 < sint (global_PID s + 1)" and "in_data (pid_addr E) 4"
  shows "\<exists>s' co'. run E 4 \<lparr>os = s, code = co\<rparr> = Some \<lparr>os = s', code = co'\<rparr>
    \<and> co' c = While_true [Write Var_b] # r \<and> load_user (pid_addr E) s' = Some (global_PID s + 1)
    \<and> kinv s' (Q(Freequeue := fs, Free_threadqueue := us, Readyqueue := Q Readyqueue @ [TaskList i],
        ReadyThreads i := [ThreadList u])) M c cp
    \<and> (\<forall>a. in_data a 1 \<longrightarrow> vread (pagusr_table s' i) (ram s') a = vread (pagusr_table s cp) (ram s) a)
    \<and> (\<forall>s2 Q2 M2 co2. kinv s2 Q2 M2 u i \<and> pagusr_table s2 i = pagusr_table s' i \<and> co2 u = co' u \<longrightarrow>
        (\<exists>s3 co3. run E 2 \<lparr>os = s2, code = co2\<rparr> = Some \<lparr>os = s3, code = co3\<rparr> \<and> kinv s3 Q2 M2 u i
          \<and> hd (co3 u) = While_true [Write Var_a] \<and> load_user (pid_addr E) s3 = Some 0))"
proof -
  let ?zero = "If_pid_zero [While_true [Write Var_a]]" and ?pos = "If_pid_positive [While_true [Write Var_b]]"
  let ?r = "?zero # ?pos # r" and ?pid = "global_PID s + 1"
  have co: "co c = Fork_pid # ?r" using assms(5) by (simp add: prueba4_def)
  have pos: "0 \<le> sint ?pid" "?pid \<noteq> 0" using assms(9) by auto
  obtain s1 where 1: "user_step E \<lparr>os = s, code = co\<rparr> =
      Some \<lparr>os = s1, code = co(c := Put (pid_addr E) ?pid # ?r, u := Put (pid_addr E) 0 # ?r)\<rparr>"
    "kinv s1 (Q(Freequeue := fs, Free_threadqueue := us, Readyqueue := Q Readyqueue @ [TaskList i],
        ReadyThreads i := [ThreadList u])) M c cp"
    "private_data (pagusr_table s1 cp)" "writable_data (pagusr_table s1 cp)"
    "private_data (pagusr_table s1 i)" "writable_data (pagusr_table s1 i)" "u \<noteq> c"
    "\<And>a. in_data a 1 \<Longrightarrow> vread (pagusr_table s1 i) (ram s1) a = vread (pagusr_table s cp) (ram s) a"
    "\<And>a b. in_data a 1 \<Longrightarrow> in_data b 1 \<Longrightarrow> kaddr (pagusr_table s1 i) a \<noteq> kaddr (pagusr_table s1 cp) b"
    by (rule fork_process [where co = co, OF assms(1-4) co assms(6-8) pos(1)]) (rule that)
  let ?co1 = "co(c := Put (pid_addr E) ?pid # ?r, u := Put (pid_addr E) 0 # ?r)"
  have c1: "?co1 c = Put (pid_addr E) ?pid # ?r" using 1(7) by simp
  obtain s2 where 2: "user_step E \<lparr>os = s1, code = ?co1\<rparr> = Some \<lparr>os = s2, code = ?co1(c := ?r)\<rparr>"
    "kinv s2 (Q(Freequeue := fs, Free_threadqueue := us, Readyqueue := Q Readyqueue @ [TaskList i],
        ReadyThreads i := [ThreadList u])) M c cp"
    "pagusr_table s2 = pagusr_table s1" "load_user (pid_addr E) s2 = Some ?pid"
    "\<And>PT b. \<forall>j<4. kaddr PT b \<noteq> kaddr (pagusr_table s1 cp) (pid_addr E + of_nat j) \<Longrightarrow>
      vread PT (ram s2) b = vread PT (ram s1) b"
    by (rule put_step [where co = ?co1, OF 1(2-4) c1 assms(10)]) (rule that)
  have child: "vread (pagusr_table s2 i) (ram s2) a = vread (pagusr_table s cp) (ram s) a" if "in_data a 1" for a
  proof -
    have "\<forall>j<4. kaddr (pagusr_table s1 i) a \<noteq> kaddr (pagusr_table s1 cp) (pid_addr E + of_nat j)"
      using 1(9) [OF that in_data_offset(2) [OF assms(10)]] by simp
    then show ?thesis using 2(5) 1(8) [OF that] by (simp add: 2(3))
  qed
  let ?co4 = "?co1(c := While_true [Write Var_b] # r)"
  have "run E 4 \<lparr>os = s, code = co\<rparr> = Some \<lparr>os = s2, code = ?co4\<rparr>"
    using 1(1) 2(1) if_steps [OF 2(2,4)] pos(2) assms(9) by (simp add: numeral_eq_Suc)
  moreover have "\<exists>t3 co3. run E 2 \<lparr>os = t, code = co2\<rparr> = Some \<lparr>os = t3, code = co3\<rparr> \<and> kinv t3 Q2 M2 u i
      \<and> hd (co3 u) = While_true [Write Var_a] \<and> load_user (pid_addr E) t3 = Some 0"
    if t: "kinv t Q2 M2 u i" "pagusr_table t i = pagusr_table s2 i" "co2 u = ?co4 u" for t Q2 M2 co2
  proof -
    have p: "private_data (pagusr_table t i)" "writable_data (pagusr_table t i)" "co2 u = Put (pid_addr E) 0 # ?r"
      using 1(5-7) t(2,3) by (simp_all add: 2(3))
    obtain t' where "run E 2 \<lparr>os = t, code = co2\<rparr> = Some \<lparr>os = t', code = co2(u := [While_true [Write Var_a]] @ ?pos # r)\<rparr>"
      "kinv t' Q2 M2 u i" "load_user (pid_addr E) t' = Some 0"
      by (rule child_goes_on [where co = co2, OF t(1) p assms(10)])
    then show ?thesis by auto
  qed
  ultimately show ?thesis
    using 2(2,4) child by (intro exI [of _ s2] exI [of _ ?co4]) (auto simp: 1(7))
qed

lemma prueba4_splits_witness:
  "\<exists>sys. run example_env 4 \<lparr>os = with_texts, code = (\<lambda>_. prueba4)\<rparr> = Some sys
     \<and> code sys 1 = [While_true [Write Var_b]] \<and> load_user 0x108100 (os sys) = Some 1001"
proof -
  note w = with_texts_fork
  have co: "(\<lambda>_. prueba4) (1 :: nat) = prueba4 @ []" by simp
  have pid: "in_data (pid_addr example_env) 4" "pid_addr example_env = 0x108100" by (simp_all add: in_data_def example_env_def)
  have pos: "0 < sint (global_PID with_texts + 1)" by (simp add: w(3))
  from prueba4_splits [where co = "\<lambda>_. prueba4", OF with_texts_ok(1,4) w(1,2) co boot_free w(4) pos pid(1)]
  show ?thesis using pid(2) w(3) by fastforce
qed

end
