(* ===== verification/UserTicks.thy ===== *)
theory UserTicks
  imports UserFork Ticks
begin

text \<open>
  The test programs under the clock: the statements of the threads are interleaved with clock interrupts in
  any order, and the scheduler chooses who runs. Interrupts come between statements: within one, the call runs
  with interrupts off, and \<open>strlen\<close> before it only reads. \<open>threads_write_on\<close> is about threads
  that write their strings forever, what \<open>prueba2\<close>, \<open>prueba4\<close> and \<open>prueba5\<close> come to.
\<close>

section \<open>Who may run\<close>

text \<open>The ready threads with their processes, and those together with the running one.\<close>

definition waiting :: "rr \<Rightarrow> (nat \<times> nat) set" where
  "waiting v = {(t, p). p < NR_TASKS \<and> t \<in> set (rr_threads v p)}"

definition runnable :: "rr \<Rightarrow> (nat \<times> nat) set" where
  "runnable v = insert (rr_thread v, rr_process v) (waiting v)"

lemma waiting_requeue:
  assumes "rr_process v < 10"
  shows "waiting (rr_requeue_thread v) = runnable v" and "waiting (rr_requeue_process v) = runnable v"
  using assms by (auto simp: waiting_def runnable_def rr_requeue_thread_def rr_requeue_process_def split: if_splits)

lemma runnable_next:
  shows "rr_process v < 10 \<Longrightarrow> rr_threads v (rr_process v) \<noteq> [] \<Longrightarrow> runnable (rr_next_thread TQ v) = waiting v"
    and "hd (rr_ready v) < 10 \<Longrightarrow> rr_threads v (hd (rr_ready v)) \<noteq> [] \<Longrightarrow> runnable (rr_next_process PQ TQ v) = waiting v"
proof -
  have one: "runnable (rr_next_thread TQ w) = waiting w" if p: "rr_process w < 10" "rr_threads w (rr_process w) \<noteq> []" for w
  proof -
    have ts: "set (rr_threads w (rr_process w)) = insert (hd (rr_threads w (rr_process w))) (set (tl (rr_threads w (rr_process w))))"
      using p(2) by (metis list.collapse list.set(2))
    show ?thesis
      using p(1) ts by (auto simp: runnable_def waiting_def rr_next_thread_def Let_def split: if_splits)
  qed
  then show "rr_process v < 10 \<Longrightarrow> rr_threads v (rr_process v) \<noteq> [] \<Longrightarrow> runnable (rr_next_thread TQ v) = waiting v" by blast
  show "runnable (rr_next_process PQ TQ v) = waiting v" if "hd (rr_ready v) < 10" "rr_threads v (hd (rr_ready v)) \<noteq> []"
    using that one [of "v\<lparr>rr_process := hd (rr_ready v), rr_ready := tl (rr_ready v), rr_qp := PQ (hd (rr_ready v))\<rparr>"]
    by (simp add: rr_next_process_def Let_def waiting_def)
qed

text \<open>A tick passes the processor on; nobody is lost and nobody new comes.\<close>

lemma rr_tick_runnable:
  assumes "rr_process v < 10" and "\<And>p. p \<in> set (rr_ready v) \<Longrightarrow> p < 10 \<and> rr_threads v p \<noteq> []"
  shows "runnable (rr_tick PQ TQ v) = runnable v"
proof -
  define w where "w = v\<lparr>rr_qt := rr_qt v - 1, rr_qp := rr_qp v - 1\<rparr>"
  have w: "rr_process w = rr_process v" "rr_ready w = rr_ready v" "rr_threads w = rr_threads v" "runnable w = runnable v"
    by (simp_all add: w_def runnable_def waiting_def)
  have "runnable (rr_next_thread TQ (rr_requeue_thread w)) = runnable v"
    using assms(1) waiting_requeue(1) [of w] w by (subst runnable_next(1)) (simp_all add: rr_requeue_thread_def)
  moreover have "runnable (rr_next_process PQ TQ (rr_requeue_process w)) = runnable v" if "rr_ready v \<noteq> []"
    using assms(1) assms(2) [OF hd_in_set [OF that]] that waiting_requeue(2) [of w] w
    by (subst runnable_next(2)) (simp_all add: rr_requeue_process_def rr_requeue_thread_def)
  moreover have "runnable (w\<lparr>rr_qp := a, rr_qt := b\<rparr>) = runnable v" for a b
    using w by (simp add: runnable_def waiting_def)
  ultimately show ?thesis unfolding rr_tick_def w_def [symmetric] Let_def using w(2) by simp
qed

section \<open>Statements and interrupts\<close>

text \<open>\<open>Tick extra\<close>: a clock interrupt; \<open>extra\<close> as for \<^const>\<open>clock_handler\<close>.\<close>

datatype event = Tick nat | Statement

fun next_event :: "user_env \<Rightarrow> (u32 \<Rightarrow> console \<Rightarrow> console) \<Rightarrow> event \<Rightarrow> system \<Rightarrow> system option" where
  "next_event E show (Tick extra) sys = map_option (\<lambda>k. sys\<lparr>os := k\<rparr>) (clock_handler show extra (os sys))"
| "next_event E show Statement sys = user_step E sys"

fun events :: "user_env \<Rightarrow> (u32 \<Rightarrow> console \<Rightarrow> console) \<Rightarrow> event list \<Rightarrow> system \<Rightarrow> system option" where
  "events E show [] sys = Some sys"
| "events E show (e # es) sys = next_event E show e sys \<bind> events E show es"

lemma tick_step:
  assumes "kinv s Q M c cp" and "extra \<le> 1000"
  obtains s' Q' c' cp' where "next_event E show (Tick extra) \<lparr>os = s, code = co\<rparr> = Some \<lparr>os = s', code = co\<rparr>"
    and "kinv s' Q' M c' cp'" and "runnable (sched_view s' Q' c' cp') = runnable (sched_view s Q c cp)"
    and "con s' = show (zeos_ticks s) (con s)" and "ram s' = ram s" and "pagusr_table s' = pagusr_table s"
proof -
  have cp: "cp < 10" using kinv_proc [OF assms(1)] by (simp add: proc_running_def)
  have ready: "p < 10 \<and> rr_threads (sched_view s Q c cp) p \<noteq> []" if p: "p \<in> set (rr_ready (sched_view s Q c cp))" for p
  proof -
    obtain n where n: "n \<in> set (Q Readyqueue)" "p = elem_index n" using p by (auto simp: sched_view_def)
    obtain q where "n = TaskList q" "q < 10" "Q (ReadyThreads q) \<noteq> []"
      by (rule kmid_ready_proc [OF kinv_kmid [OF assms(1)] n(1)])
    then show ?thesis using n(2) by (simp add: sched_view_def)
  qed
  obtain s' Q' c' cp' where s': "clock_handler show extra s = Some s'" "kinv s' Q' M c' cp'"
    "sched_view s' Q' c' cp' = rr_tick (get_quantum_p s) (get_quantum_t s) (sched_view s Q c cp)"
    "con s' = show (zeos_ticks s) (con s)" "ram s' = ram s" "pagusr_table s' = pagusr_table s"
    by (rule clock_handler_step [OF assms]) (rule that)
  have "runnable (sched_view s' Q' c' cp') = runnable (sched_view s Q c cp)"
    unfolding s'(3) using cp ready by (intro rr_tick_runnable) (simp add: sched_view_def)
  with s' show thesis by (intro that [of s' Q' c' cp']) simp_all
qed

section \<open>Programs that only write, from some point on\<close>

text \<open>How far a thread has come: statements that are executed once, then the loop and the call in it.\<close>

fun rank :: "stmt list \<Rightarrow> nat" where
  "rank (If_pid_zero b # r) = 1"
| "rank (If_pid_positive b # r) = 2"
| "rank (While_true b # r) = 3"
| "rank (Write x # r) = 4"
| "rank _ = 0"

definition progress :: "(nat \<times> nat) set \<Rightarrow> (nat \<Rightarrow> stmt list) \<Rightarrow> nat" where
  "progress R co = (\<Sum>t \<in> fst ` R. rank (co t))"

lemma rank_le: "rank st \<le> 4"
  by (induction st rule: rank.induct) simp_all

lemma progress_le: "finite R \<Longrightarrow> progress R co \<le> 4 * card (fst ` R)"
  using sum_bounded_above [of "fst ` R" "\<lambda>t. rank (co t)" 4] by (simp add: progress_def rank_le mult.commute)

lemma progress_update:
  assumes "finite R" and "(c, cp) \<in> R" and "Suc (rank (co c)) \<le> n + rank st"
  shows "Suc (progress R co) \<le> n + progress R (co(c := st))"
proof -
  have c: "finite (fst ` R)" "c \<in> fst ` R" using assms(1,2) by force+
  have "(\<Sum>t \<in> fst ` R - {c}. rank ((co(c := st)) t)) = (\<Sum>t \<in> fst ` R - {c}. rank (co t))" by (intro sum.cong) simp_all
  then show ?thesis using assms(3) by (simp add: progress_def sum.remove [OF c])
qed

lemma finite_runnable: "finite (runnable v)"
proof -
  have "waiting v \<subseteq> (\<Union>p<10. set (rr_threads v p)) \<times> {..<10}" by (auto simp: waiting_def)
  then have "finite (waiting v)" by (rule finite_subset) simp
  then show ?thesis by (simp add: runnable_def)
qed

text \<open>
  What a set \<open>R\<close> of threads with a common invariant \<open>I\<close> promises: it is about memory and code only, and a
  statement of any of them keeps it, prints nothing or whole strings of \<open>T\<close>, and makes progress.
\<close>

locale interleaved =
  fixes E :: user_env and R :: "(nat \<times> nat) set" and I :: "kernel \<Rightarrow> (nat \<Rightarrow> stmt list) \<Rightarrow> bool" and T :: "text_var set"
  assumes same_memory: "I s co \<Longrightarrow> ram s' = ram s \<Longrightarrow> pagusr_table s' = pagusr_table s \<Longrightarrow> I s' co"
    and statement: "kinv s Q M c cp \<Longrightarrow> I s co \<Longrightarrow> (c, cp) \<in> R \<Longrightarrow>
      \<exists>s' st ws. user_step E \<lparr>os = s, code = co\<rparr> = Some \<lparr>os = s', code = co(c := st)\<rparr> \<and> kinv s' Q M c cp \<and> I s' (co(c := st))
        \<and> set ws \<subseteq> T \<and> port_e9 (con s') = port_e9 (con s) @ concat (map bytes_of ws)
        \<and> Suc (rank (co c)) \<le> 2 * length ws + rank st"
begin

text \<open>Then so does any interleaving with the clock.\<close>

lemma events_run:
  assumes "kinv s Q M c cp" and "R = runnable (sched_view s Q c cp)" and "I s co"
    and "\<forall>extra. Tick extra \<in> set es \<longrightarrow> extra \<le> 1000" and "\<forall>n k. port_e9 (show n k) = port_e9 k"
  shows "\<exists>s' co' Q' c' cp' ws. events E show es \<lparr>os = s, code = co\<rparr> = Some \<lparr>os = s', code = co'\<rparr>
    \<and> kinv s' Q' M c' cp' \<and> runnable (sched_view s' Q' c' cp') = R \<and> I s' co'
    \<and> port_e9 (con s') = port_e9 (con s) @ concat (map bytes_of ws) \<and> set ws \<subseteq> T
    \<and> length (filter (\<lambda>e. e = Statement) es) + progress R co \<le> 2 * length ws + progress R co'"
  using assms(1-4)
proof (induction es arbitrary: s co Q c cp)
  case Nil
  then show ?case
    by (intro exI [of _ s] exI [of _ co] exI [of _ Q] exI [of _ c] exI [of _ cp] exI [of _ "[]"]) simp
next
  case (Cons e es)
  have es: "\<forall>extra. Tick extra \<in> set es \<longrightarrow> extra \<le> 1000" using Cons.prems(4) by simp
  have fin: "finite R" using Cons.prems(2) by (simp add: finite_runnable)
  have cR: "(c, cp) \<in> R" using Cons.prems(2) by (simp add: runnable_def sched_view_def)
  show ?case
  proof (cases e)
    case (Tick extra)
    then have "extra \<le> 1000" using Cons.prems(4) by simp
    then obtain s1 Q1 c1 cp1 where 1: "next_event E show (Tick extra) \<lparr>os = s, code = co\<rparr> = Some \<lparr>os = s1, code = co\<rparr>"
      "kinv s1 Q1 M c1 cp1" "runnable (sched_view s1 Q1 c1 cp1) = runnable (sched_view s Q c cp)"
      "con s1 = show (zeos_ticks s) (con s)" "ram s1 = ram s" "pagusr_table s1 = pagusr_table s"
      by (rule tick_step [OF Cons.prems(1)]) (rule that)
    have "I s1 co" by (rule same_memory [OF Cons.prems(3) 1(5,6)])
    with Cons.IH [OF 1(2) _ _ es] Cons.prems(2) 1 Tick assms(5) show ?thesis by simp
  next
    case Statement
    obtain s1 st w1 where 1: "user_step E \<lparr>os = s, code = co\<rparr> = Some \<lparr>os = s1, code = co(c := st)\<rparr>"
      "kinv s1 Q M c cp" "I s1 (co(c := st))" "set w1 \<subseteq> T"
      "port_e9 (con s1) = port_e9 (con s) @ concat (map bytes_of w1)" "Suc (rank (co c)) \<le> 2 * length w1 + rank st"
      using statement [OF Cons.prems(1,3) cR] by blast
    have R1: "R = runnable (sched_view s1 Q c cp)" using Cons.prems(2) by (simp add: runnable_def waiting_def sched_view_def)
    obtain s' co' Q' c' cp' ws where 2: "events E show es \<lparr>os = s1, code = co(c := st)\<rparr> = Some \<lparr>os = s', code = co'\<rparr>"
      "kinv s' Q' M c' cp'" "runnable (sched_view s' Q' c' cp') = R" "I s' co'"
      "port_e9 (con s') = port_e9 (con s1) @ concat (map bytes_of ws)" "set ws \<subseteq> T"
      "length (filter (\<lambda>e. e = Statement) es) + progress R (co(c := st)) \<le> 2 * length ws + progress R co'"
      using Cons.IH [OF 1(2) R1 1(3) es] by blast
    have "Suc (progress R co) \<le> 2 * length w1 + progress R (co(c := st))" by (rule progress_update [where co = co, OF fin cR 1(6)])
    then show ?thesis
      using 1(1,4,5) 2 Statement
      by (intro exI [of _ s'] exI [of _ co'] exI [of _ Q'] exI [of _ c'] exI [of _ cp'] exI [of _ "w1 @ ws"]) auto
  qed
qed

end

section \<open>Threads that write forever\<close>

definition writer :: "text_var \<Rightarrow> stmt list \<Rightarrow> bool" where
  "writer x st \<longleftrightarrow> (\<exists>r. st = While_true [Write x] # r \<or> st = Write x # While_true [Write x] # r)"

text \<open>Every thread of \<open>R\<close> writes its own string \<open>X t\<close>, which its process has in memory.\<close>

definition writers :: "user_env \<Rightarrow> kernel \<Rightarrow> (nat \<Rightarrow> stmt list) \<Rightarrow> (nat \<times> nat) set \<Rightarrow> (nat \<Rightarrow> text_var) \<Rightarrow> bool" where
  "writers E s co R X \<longleftrightarrow> (\<forall>(t, p) \<in> R. writer (X t) (co t) \<and> private_data (pagusr_table s p)
     \<and> (\<exists>a. text_at E (vread (pagusr_table s p) (ram s)) (X t) a))"

lemma writers_update:
  "writers E s co R X \<Longrightarrow> writer (X c) st \<Longrightarrow> writers E s (co(c := st)) R X"
  by (auto simp: writers_def)

lemma writer_step:
  assumes "kinv s Q M c cp" and "private_data (pagusr_table s cp)"
    and "text_at E (vread (pagusr_table s cp) (ram s)) x a" and "writer x (co c)"
  obtains s' st ws where "user_step E \<lparr>os = s, code = co\<rparr> = Some \<lparr>os = s', code = co(c := st)\<rparr>"
    and "kinv s' Q M c cp" and "ram s' = ram s" and "pagusr_table s' = pagusr_table s" and "writer x st" and "set ws \<subseteq> {x}"
    and "port_e9 (con s') = port_e9 (con s) @ concat (map bytes_of ws)" and "Suc (rank (co c)) \<le> 2 * length ws + rank st"
proof -
  from assms(4) consider r where "co c = While_true [Write x] # r" | r where "co c = Write x # While_true [Write x] # r"
    by (auto simp: writer_def)
  then show thesis
  proof cases
    case 1
    then have "user_step E \<lparr>os = s, code = co\<rparr> = Some \<lparr>os = s, code = co(c := Write x # co c)\<rparr>"
      using running_thread [OF assms(1)] by (simp add: user_step_def)
    then show thesis using 1 assms(1) by (intro that [of s "Write x # co c" "[]"]) (auto simp: writer_def)
  next
    case 2
    obtain s' where s': "user_step E \<lparr>os = s, code = co\<rparr> = Some \<lparr>os = s', code = co(c := While_true [Write x] # r)\<rparr>"
      "kinv s' Q M c cp" "same_user s s'" "port_e9 (con s') = port_e9 (con s) @ bytes_of x"
      by (rule write_text [where co = co, OF assms(1-3) 2]) (rule that)
    then show thesis
      using 2 by (intro that [of s' "While_true [Write x] # r" "[x]"]) (auto simp: writer_def same_user_def)
  qed
qed

interpretation wr: interleaved E R "\<lambda>s co. writers E s co R X" "X ` fst ` R" for E R X
proof
  show "writers E s co R X \<Longrightarrow> ram s' = ram s \<Longrightarrow> pagusr_table s' = pagusr_table s \<Longrightarrow> writers E s' co R X" for s s' co
    by (simp add: writers_def)
next
  fix s Q M c cp co assume k: "kinv s Q M c cp" and w: "writers E s co R X" and cR: "(c, cp) \<in> R"
  then obtain a where p: "private_data (pagusr_table s cp)" "text_at E (vread (pagusr_table s cp) (ram s)) (X c) a"
    "writer (X c) (co c)" by (auto simp: writers_def)
  obtain s' st ws where s': "user_step E \<lparr>os = s, code = co\<rparr> = Some \<lparr>os = s', code = co(c := st)\<rparr>"
    "kinv s' Q M c cp" "ram s' = ram s" "pagusr_table s' = pagusr_table s" "writer (X c) st" "set ws \<subseteq> {X c}"
    "port_e9 (con s') = port_e9 (con s) @ concat (map bytes_of ws)" "Suc (rank (co c)) \<le> 2 * length ws + rank st"
    by (rule writer_step [where co = co, OF k p]) (rule that)
  have "writers E s' (co(c := st)) R X"
    using writers_update [of E s' co R X c st] w s'(3-5) by (simp add: writers_def)
  moreover have "set ws \<subseteq> X ` fst ` R" using s'(6) cR by force
  ultimately show "\<exists>s' st ws. user_step E \<lparr>os = s, code = co\<rparr> = Some \<lparr>os = s', code = co(c := st)\<rparr> \<and> kinv s' Q M c cp
        \<and> writers E s' (co(c := st)) R X \<and> set ws \<subseteq> X ` fst ` R
        \<and> port_e9 (con s') = port_e9 (con s) @ concat (map bytes_of ws) \<and> Suc (rank (co c)) \<le> 2 * length ws + rank st"
    using s'(1,2,7,8) by blast
qed

text \<open>Writers are in the loop from the start.\<close>

lemma writers_progress:
  assumes "writers E s co R X" and "finite R"
  shows "3 * card (fst ` R) \<le> progress R co"
proof -
  have "3 \<le> rank (co t)" if "t \<in> fst ` R" for t using that assms(1) by (auto simp: writers_def writer_def)
  then show ?thesis using sum_bounded_below [of "fst ` R" 3 "\<lambda>t. rank (co t)"] by (simp add: progress_def mult.commute)
qed

lemma writers_run:
  assumes "kinv s Q M c cp" and "R = runnable (sched_view s Q c cp)" and "writers E s co R X"
    and "\<forall>extra. Tick extra \<in> set es \<longrightarrow> extra \<le> 1000" and "\<forall>n k. port_e9 (show n k) = port_e9 k"
  obtains s' co' Q' c' cp' ws where "events E show es \<lparr>os = s, code = co\<rparr> = Some \<lparr>os = s', code = co'\<rparr>"
    and "kinv s' Q' M c' cp'" and "runnable (sched_view s' Q' c' cp') = R" and "writers E s' co' R X"
    and "port_e9 (con s') = port_e9 (con s) @ concat (map bytes_of ws)" and "set ws \<subseteq> X ` fst ` R"
    and "length (filter (\<lambda>e. e = Statement) es) \<le> 2 * length ws + card (fst ` R)"
proof -
  have fin: "finite R" using assms(2) by (simp add: finite_runnable)
  obtain s' co' Q' c' cp' ws where r: "events E show es \<lparr>os = s, code = co\<rparr> = Some \<lparr>os = s', code = co'\<rparr>"
    "kinv s' Q' M c' cp'" "runnable (sched_view s' Q' c' cp') = R" "writers E s' co' R X"
    "port_e9 (con s') = port_e9 (con s) @ concat (map bytes_of ws)" "set ws \<subseteq> X ` fst ` R"
    "length (filter (\<lambda>e. e = Statement) es) + progress R co \<le> 2 * length ws + progress R co'"
    using wr.events_run [OF assms] by blast
  then have "length (filter (\<lambda>e. e = Statement) es) \<le> 2 * length ws + card (fst ` R)"
    using writers_progress [OF assms(3) fin] progress_le [OF fin, of co'] by linarith
  with r show thesis by (intro that)
qed

section \<open>Two threads\<close>

text \<open>A thread makes a second one, and both write.\<close>

lemma two_writers:
  assumes "kinv s Q M c cp" and "private_data (pagusr_table s cp)"
    and "co c = Pthread_create i f # r" and "writer x r" and "writer y body"
    and "Q Free_threadqueue = ThreadList u # us" and "\<forall>p. Q (ReadyThreads p) = []"
    and "find_free_page (pagusr_table s cp) 284 = Some page"
    and "access_ok VERIFY_READ (fun_addr E f) 4" and "fun_at E (fun_addr E f) = Some body"
    and "text_at E (vread (pagusr_table s cp) (ram s)) x px" and "text_at E (vread (pagusr_table s cp) (ram s)) y py"
    and "in_data (local_addr E i) 4" and "text_apart E (local_addr E i) x px" and "text_apart E (local_addr E i) y py"
  obtains s' where "user_step E \<lparr>os = s, code = co\<rparr> = Some \<lparr>os = s', code = co(c := r, u := body)\<rparr>"
    and "kinv s' (Q(Free_threadqueue := us, ReadyThreads cp := [ThreadList u])) M c cp" and "con s' = con s" and "u \<noteq> c"
    and "runnable (sched_view s' (Q(Free_threadqueue := us, ReadyThreads cp := [ThreadList u])) c cp) = {(c, cp), (u, cp)}"
    and "writers E s' (co(c := r, u := body)) {(c, cp), (u, cp)} (\<lambda>t. if t = c then x else y)"
proof -
  let ?id = "local_addr E i"
  have uc: "u \<noteq> c" using take_free_thread [OF assms(1,6)] by blast
  have cp: "cp < 10" using kinv_proc [OF assms(1)] by (simp add: proc_running_def)
  obtain s1 where 1: "user_step E \<lparr>os = s, code = co\<rparr> = Some \<lparr>os = s1, code = co(c := r, u := body)\<rparr>"
    "kinv s1 (Q(Free_threadqueue := us, ReadyThreads cp := Q (ReadyThreads cp) @ [ThreadList u])) M c cp"
    "private_data (pagusr_table s1 cp)" "con s1 = con s"
    "\<And>b. in_data b 1 \<Longrightarrow> b \<notin> {?id, ?id + 1, ?id + 2, ?id + 3} \<Longrightarrow>
      vread (pagusr_table s1 cp) (ram s1) b = vread (pagusr_table s cp) (ram s) b"
    by (rule create_thread [where co = co, OF assms(1-3,6,8,13,9,10)]) (rule that)
  have tx: "text_at E (vread (pagusr_table s1 cp) (ram s1)) x px" by (rule text_at_apart [OF assms(11,13,14) 1(5)])
  have ty: "text_at E (vread (pagusr_table s1 cp) (ram s1)) y py" by (rule text_at_apart [OF assms(12,13,15) 1(5)])
  have "writers E s1 (co(c := r, u := body)) {(c, cp), (u, cp)} (\<lambda>t. if t = c then x else y)"
    using uc tx ty 1(3) assms(4,5) by (auto simp: writers_def)
  moreover have "runnable (sched_view s1 (Q(Free_threadqueue := us, ReadyThreads cp := [ThreadList u])) c cp) = {(c, cp), (u, cp)}"
    using assms(7) cp by (auto simp: runnable_def waiting_def sched_view_def split: if_splits)
  ultimately show thesis using 1(1,2,4) assms(7) uc by (intro that [of s1]) simp_all
qed

text \<open>\<open>prueba2\<close> in the example's memory.\<close>

lemma prueba2_code: "(\<lambda>_. prueba2) (1 :: nat) = Pthread_create Id Adeu # [While_true [Write Var_e]]"
  by (simp add: prueba2_def)

lemma example_writers: "writer Var_e [While_true [Write Var_e]]" "writer Var_d adeu"
  by (auto simp: writer_def adeu_def)

lemma no_ready: "\<forall>p. boot_queues (ReadyThreads p) = []"
  by simp

lemma adeu_calls:
  "access_ok VERIFY_READ (fun_addr example_env Adeu) 4" "fun_at example_env (fun_addr example_env Adeu) = Some adeu"
  by (simp_all add: access_ok_range fun_at_def example_env_def)

lemma adeu_data:
  "in_data (local_addr example_env Id) 4" "text_apart example_env (local_addr example_env Id) Var_e 0x108010"
  "text_apart example_env (local_addr example_env Id) Var_d 0x10801c"
  by (simp_all add: in_data_def text_apart_def apart_def example_env_def bytes_of_def newline_def)

section \<open>Correctness\<close>

text \<open>C18: threads that write their strings forever never stop and are never disturbed. Whatever the order
  of statements and clock interrupts, the system does not fault, the same threads stay runnable, and the
  output is a sequence of whole strings, each one of a runnable thread, never mixed within a string. Of \<open>n\<close>
  statements of \<open>m\<close> runnable threads at least \<open>(n - m) / 2\<close> print a string.\<close>

theorem threads_write_on:
  assumes "kinv s Q M c cp" and "R = runnable (sched_view s Q c cp)" and "writers E s co R X"
    and "\<forall>extra. Tick extra \<in> set es \<longrightarrow> extra \<le> 1000" and "\<forall>n k. port_e9 (show n k) = port_e9 k"
  shows "\<exists>s' co' Q' c' cp' ws. events E show es \<lparr>os = s, code = co\<rparr> = Some \<lparr>os = s', code = co'\<rparr>
    \<and> kinv s' Q' M c' cp' \<and> runnable (sched_view s' Q' c' cp') = R \<and> writers E s' co' R X
    \<and> port_e9 (con s') = port_e9 (con s) @ concat (map bytes_of ws) \<and> set ws \<subseteq> X ` fst ` R
    \<and> length (filter (\<lambda>e. e = Statement) es) \<le> 2 * length ws + card (fst ` R)"
  by (rule writers_run [OF assms]) blast

lemma threads_write_on_witness:
  "\<exists>s co sys ws. co (1 :: nat) = [While_true [Write Var_e]] \<and> co 2 = adeu
     \<and> events example_env (\<lambda>_. id) (concat (replicate 1000 [Statement, Statement, Statement, Tick 0])) \<lparr>os = s, code = co\<rparr> = Some sys
     \<and> port_e9 (con (os sys)) = port_e9 (con s) @ concat (map bytes_of ws) \<and> 1499 \<le> length ws"
proof -
  let ?Q = "boot_queues(Free_threadqueue := map ThreadList [3..<10], ReadyThreads 1 := [ThreadList 2])"
  let ?co = "(\<lambda>_ :: nat. prueba2)(1 := [While_true [Write Var_e]], 2 := adeu)"
  define es where "es = concat (replicate 1000 [Statement, Statement, Statement, Tick 0])"
  obtain s where s: "kinv s ?Q {} 1 1" "runnable (sched_view s ?Q 1 1) = {(1, 1), (2, 1)}"
    "writers example_env s ?co {(1, 1), (2, 1)} (\<lambda>t. if t = 1 then Var_e else Var_d)"
    by (rule two_writers [where co = "\<lambda>_. prueba2", OF with_texts_ok(1,4) prueba2_code
        example_writers boot_free(2) no_ready with_texts_ok(5) adeu_calls with_texts_texts(2,3) adeu_data])
  have start: "?co 1 = [While_true [Write Var_e]]" "?co 2 = adeu" by simp_all
  have ticks: "\<forall>extra. Tick extra \<in> set es \<longrightarrow> extra \<le> 1000" by (auto simp: es_def)
  have n: "length (filter (\<lambda>e. e = Statement) (concat (replicate k [Statement, Statement, Statement, Tick 0]))) = 3 * k" for k
    by (induction k) simp_all
  have "\<forall>n k. port_e9 ((\<lambda>_. id) n k) = port_e9 k" by simp
  from threads_write_on [OF s(1) s(2) [symmetric] s(3) ticks this] obtain s' co' ws
    where "events example_env (\<lambda>_. id) es \<lparr>os = s, code = ?co\<rparr> = Some \<lparr>os = s', code = co'\<rparr>"
      "port_e9 (con s') = port_e9 (con s) @ concat (map bytes_of ws)"
      "length (filter (\<lambda>e. e = Statement) es) \<le> 2 * length ws + card (fst ` {(1 :: nat, 1 :: nat), (2, 1)})" by blast
  moreover from this(3) have "1499 \<le> length ws" unfolding es_def n by simp
  ultimately show ?thesis unfolding es_def
    by (intro exI [of _ s] exI [of _ ?co] exI [of _ "\<lparr>os = s', code = co'\<rparr>"] exI [of _ ws]) (auto simp only: system.simps start)
qed

text \<open>C19: \<open>prueba2\<close> runs on: after its thread has made the second one, any order of statements and clock
  interrupts goes on without a fault, one of the two threads runs and the other is ready, and the output is a
  sequence of whole strings \<open>Hey\<close> and \<open>Adeu\<close>.\<close>

theorem prueba2_runs_on:
  assumes "kinv s Q M c cp" and "private_data (pagusr_table s cp)" and "co c = prueba2 @ r"
    and "Q Free_threadqueue = ThreadList u # us" and "\<forall>p. Q (ReadyThreads p) = []"
    and "find_free_page (pagusr_table s cp) 284 = Some page"
    and "access_ok VERIFY_READ (fun_addr E Adeu) 4" and "fun_at E (fun_addr E Adeu) = Some adeu"
    and "text_at E (vread (pagusr_table s cp) (ram s)) Var_d pd" and "text_at E (vread (pagusr_table s cp) (ram s)) Var_e pe"
    and "in_data (local_addr E Id) 4" and "text_apart E (local_addr E Id) Var_d pd" and "text_apart E (local_addr E Id) Var_e pe"
    and "\<forall>extra. Tick extra \<in> set es \<longrightarrow> extra \<le> 1000" and "\<forall>n k. port_e9 (show n k) = port_e9 k"
  shows "\<exists>s' co' Q' c' ws. events E show (Statement # es) \<lparr>os = s, code = co\<rparr> = Some \<lparr>os = s', code = co'\<rparr>
    \<and> kinv s' Q' M c' cp \<and> runnable (sched_view s' Q' c' cp) = {(c, cp), (u, cp)}
    \<and> port_e9 (con s') = port_e9 (con s) @ concat (map bytes_of ws) \<and> set ws \<subseteq> {Var_d, Var_e}
    \<and> length (filter (\<lambda>e. e = Statement) es) \<le> 2 * length ws + 2"
proof -
  let ?R = "{(c, cp), (u, cp)}" and ?X = "\<lambda>t. if t = c then Var_e else Var_d"
  let ?co = "co(c := While_true [Write Var_e] # r, u := adeu)"
  have code: "co c = Pthread_create Id Adeu # While_true [Write Var_e] # r" using assms(3) by (simp add: prueba2_def)
  have wr: "writer Var_e (While_true [Write Var_e] # r)" "writer Var_d adeu" by (auto simp: writer_def adeu_def)
  obtain s1 where 1: "user_step E \<lparr>os = s, code = co\<rparr> = Some \<lparr>os = s1, code = ?co\<rparr>"
    "kinv s1 (Q(Free_threadqueue := us, ReadyThreads cp := [ThreadList u])) M c cp" "con s1 = con s" "u \<noteq> c"
    "runnable (sched_view s1 (Q(Free_threadqueue := us, ReadyThreads cp := [ThreadList u])) c cp) = ?R"
    "writers E s1 ?co ?R ?X"
    by (rule two_writers [where co = co, OF assms(1,2) code wr assms(4-8,10,9,11,13,12)]) (rule that)
  obtain s' co' Q' c' cp' ws where 2: "events E show es \<lparr>os = s1, code = ?co\<rparr> = Some \<lparr>os = s', code = co'\<rparr>"
    "kinv s' Q' M c' cp'" "runnable (sched_view s' Q' c' cp') = ?R"
    "port_e9 (con s') = port_e9 (con s1) @ concat (map bytes_of ws)" "set ws \<subseteq> ?X ` fst ` ?R"
    "length (filter (\<lambda>e. e = Statement) es) \<le> 2 * length ws + card (fst ` ?R)"
    by (rule writers_run [OF 1(2) 1(5) [symmetric] 1(6) assms(14,15)]) (rule that)
  have "(c', cp') \<in> ?R" unfolding 2(3) [symmetric] by (simp add: runnable_def sched_view_def)
  then have cp': "cp' = cp" by auto
  have "length (filter (\<lambda>e. e = Statement) es) \<le> 2 * length ws + 2" using 2(6) 1(4) by simp
  moreover have "set ws \<subseteq> {Var_d, Var_e}" using 2(5) by (auto split: if_splits)
  ultimately show ?thesis using 1(1,3) 2(1-4) cp' by auto
qed

lemma prueba2_runs_on_witness:
  "\<exists>sys. events example_env (\<lambda>_. id) (Statement # concat (replicate 1000 [Statement, Tick 0])) \<lparr>os = with_texts, code = (\<lambda>_. prueba2)\<rparr> = Some sys
     \<and> (\<exists>ws. port_e9 (con (os sys)) = port_e9 (con with_texts) @ concat (map bytes_of ws) \<and> 499 \<le> length ws)"
proof -
  define es where "es = concat (replicate 1000 [Statement, Tick 0])"
  have co: "(\<lambda>_. prueba2) (1 :: nat) = prueba2 @ []" by simp
  have ticks: "\<forall>extra. Tick extra \<in> set es \<longrightarrow> extra \<le> 1000" by (auto simp: es_def)
  have show_ok: "\<forall>n k. port_e9 ((\<lambda>_. id) n k) = port_e9 k" by simp
  have n: "length (filter (\<lambda>e. e = Statement) (concat (replicate k [Statement, Tick 0]))) = k" for k
    by (induction k) simp_all
  from prueba2_runs_on [where co = "\<lambda>_. prueba2", OF with_texts_ok(1,4) co boot_free(2) no_ready with_texts_ok(5) adeu_calls
      with_texts_texts(3,2) adeu_data(1,3,2) ticks show_ok]
  obtain s' co' ws where "events example_env (\<lambda>_. id) (Statement # es) \<lparr>os = with_texts, code = \<lambda>_. prueba2\<rparr> = Some \<lparr>os = s', code = co'\<rparr>"
    "port_e9 (con s') = port_e9 (con with_texts) @ concat (map bytes_of ws)"
    "length (filter (\<lambda>e. e = Statement) es) \<le> 2 * length ws + 2" by blast
  moreover from this(3) have "499 \<le> length ws" unfolding es_def n by simp
  ultimately show ?thesis unfolding es_def by (intro exI [of _ "\<lparr>os = s', code = co'\<rparr>"]) (auto simp only: system.simps)
qed

end
