(* ===== verification/UserBoth.thy ===== *)
theory UserBoth
  imports UserTicks
begin

text \<open>
  \<open>prueba4\<close> under the clock: after the \<open>fork\<close> parent and child run interleaved, each on its own copy of the
  variable \<open>pid\<close>, pass their branches and write forever.
\<close>

section \<open>Threads on their way to a loop\<close>

text \<open>\<open>leads E x v st\<close>: in a process whose \<open>pid\<close> is \<open>v\<close>, the statements \<open>st\<close> come to the loop that writes \<open>x\<close>.\<close>

inductive leads :: "user_env \<Rightarrow> text_var \<Rightarrow> u32 \<Rightarrow> stmt list \<Rightarrow> bool" for E x where
  loop: "writer x st \<Longrightarrow> leads E x v st"
| zero: "leads E x v (if v = 0 then b @ r else r) \<Longrightarrow> 1 < rank (if v = 0 then b @ r else r) \<Longrightarrow> leads E x v (If_pid_zero b # r)"
| positive: "leads E x v (if 0 < sint v then b @ r else r) \<Longrightarrow> 2 < rank (if 0 < sint v then b @ r else r) \<Longrightarrow>
    leads E x v (If_pid_positive b # r)"
| store: "leads E x v' r \<Longrightarrow> 0 < rank r \<Longrightarrow> leads E x v (Put (pid_addr E) v' # r)"

text \<open>A thread whose process has its string and its \<open>pid\<close>, apart from each other, and is on its way.\<close>

definition party :: "user_env \<Rightarrow> kernel \<Rightarrow> nat \<Rightarrow> text_var \<Rightarrow> stmt list \<Rightarrow> bool" where
  "party E s p x st \<longleftrightarrow> private_data (pagusr_table s p) \<and> writable_data (pagusr_table s p)
     \<and> (\<exists>a. text_at E (vread (pagusr_table s p) (ram s)) x a \<and> text_apart E (pid_addr E) x a)
     \<and> (\<exists>v. vload32 (pagusr_table s p) (ram s) (pid_addr E) = Some v \<and> leads E x v st)"

text \<open>Different threads are of different processes, which share no byte of their data.\<close>

definition strangers :: "kernel \<Rightarrow> (nat \<times> nat) set \<Rightarrow> bool" where
  "strangers s R \<longleftrightarrow> (\<forall>(t, p) \<in> R. \<forall>(t', p') \<in> R. (t', p') \<noteq> (t, p) \<longrightarrow> t' \<noteq> t \<and>
     (\<forall>a b. in_data a 1 \<longrightarrow> in_data b 1 \<longrightarrow> kaddr (pagusr_table s p') b \<noteq> kaddr (pagusr_table s p) a))"

lemma strangersD:
  assumes "strangers s R" and "(t, p) \<in> R" and "(t', p') \<in> R" and "(t', p') \<noteq> (t, p)"
  shows "t' \<noteq> t" and "in_data a 1 \<Longrightarrow> in_data b 1 \<Longrightarrow> kaddr (pagusr_table s p') b \<noteq> kaddr (pagusr_table s p) a"
  using assms unfolding strangers_def by blast+

definition parties :: "user_env \<Rightarrow> kernel \<Rightarrow> (nat \<Rightarrow> stmt list) \<Rightarrow> (nat \<times> nat) set \<Rightarrow> (nat \<Rightarrow> text_var) \<Rightarrow> bool" where
  "parties E s co R X \<longleftrightarrow> in_data (pid_addr E) 4 \<and> strangers s R \<and> (\<forall>(t, p) \<in> R. party E s p (X t) (co t))"

text \<open>Memory that agrees on the data pages has the same texts and variables.\<close>

lemma text_at_data:
  assumes "text_at E rd x a" and "\<And>b. in_data b 1 \<Longrightarrow> rd' b = rd b"
  shows "text_at E rd' x a"
proof (rule text_at_cong [OF assms(1)])
  show "rd' (text_addr E x + of_nat i) = rd (text_addr E x + of_nat i)" if "i < 4" for i
    using assms(1) that by (intro assms(2) in_data_offset(2)) (auto simp: text_at_def)
  show "rd' (a + of_nat i) = rd (a + of_nat i)" if "i \<le> length (bytes_of x)" for i
    using assms(1) that by (intro assms(2) in_data_offset(2) [of a "length (bytes_of x) + 1"]) (auto simp: text_at_def)
qed

lemma private_load:
  assumes "private_data PT" and "in_data a 4"
  obtains v where "vload32 PT m a = Some v"
proof -
  have "\<exists>b. vread PT m (a + of_nat j) = Some b" if "j < 4" for j
    using private_kaddr(1) [OF assms(1) in_data_offset(2) [OF assms(2) that]] by (simp add: vread_def)
  from this [of 0] this [of 1] this [of 2] this [of 3] show thesis using that by (auto simp: vload32_def)
qed

lemma party_cong:
  assumes "party E s p x st" and "in_data (pid_addr E) 4" and "pagusr_table s' p = pagusr_table s p"
    and "\<And>b. in_data b 1 \<Longrightarrow> vread (pagusr_table s p) (ram s') b = vread (pagusr_table s p) (ram s) b"
  shows "party E s' p x st"
proof -
  let ?PT = "pagusr_table s p"
  have "vread ?PT (ram s') (pid_addr E + of_nat j) = vread ?PT (ram s) (pid_addr E + of_nat j)" if "j < 4" for j
    by (rule assms(4) [OF in_data_offset(2) [OF assms(2) that]])
  from this [of 0] this [of 1] this [of 2] this [of 3]
  have "vload32 ?PT (ram s') (pid_addr E) = vload32 ?PT (ram s) (pid_addr E)" by (simp add: vload32_def)
  moreover have "text_at E (vread ?PT (ram s')) x a" if "text_at E (vread ?PT (ram s)) x a" for a
    by (rule text_at_data [OF that assms(4)])
  ultimately show ?thesis using assms(1,3) by (auto simp: party_def)
qed

lemma parties_update:
  assumes "parties E s co R X" and "(c, cp) \<in> R" and "pagusr_table s' = pagusr_table s" and "party E s' cp (X c) st"
    and "\<And>t p b. (t, p) \<in> R \<Longrightarrow> (t, p) \<noteq> (c, cp) \<Longrightarrow> in_data b 1 \<Longrightarrow>
      vread (pagusr_table s p) (ram s') b = vread (pagusr_table s p) (ram s) b"
  shows "parties E s' (co(c := st)) R X"
proof -
  have i: "in_data (pid_addr E) 4" "strangers s R" using assms(1) by (simp_all add: parties_def)
  have "party E s' p (X t) ((co(c := st)) t)" if t: "(t, p) \<in> R" for t p
  proof (cases "(t, p) = (c, cp)")
    case True
    then show ?thesis using assms(4) by simp
  next
    case False
    have "party E s p (X t) (co t)" using assms(1) t by (auto simp: parties_def)
    then have "party E s' p (X t) (co t)"
      by (rule party_cong [OF _ i(1)]) (simp_all add: assms(3) assms(5) [OF t False])
    then show ?thesis using strangersD(1) [OF i(2) assms(2) t False] by simp
  qed
  moreover have "strangers s' R" using i(2) assms(3) by (simp add: strangers_def)
  ultimately show ?thesis using i(1) by (auto simp: parties_def)
qed

section \<open>A step\<close>

text \<open>A store of a party's own word keeps its text and is not seen by the others.\<close>

lemma party_store:
  assumes "kinv s Q M c cp" and "parties E s co R X" and "(c, cp) \<in> R" and "co c = Put (pid_addr E) v # r"
    and "leads E (X c) v r"
  obtains s' where "user_step E \<lparr>os = s, code = co\<rparr> = Some \<lparr>os = s', code = co(c := r)\<rparr>" and "kinv s' Q M c cp"
    and "parties E s' (co(c := r)) R X" and "con s' = con s"
proof -
  let ?PT = "pagusr_table s cp"
  have i: "in_data (pid_addr E) 4" "strangers s R" "party E s cp (X c) (co c)" using assms(2,3) by (auto simp: parties_def)
  then obtain a where p: "private_data ?PT" "writable_data ?PT" "text_at E (vread ?PT (ram s)) (X c) a"
    "text_apart E (pid_addr E) (X c) a" by (auto simp: party_def)
  obtain s' where s': "user_step E \<lparr>os = s, code = co\<rparr> = Some \<lparr>os = s', code = co(c := r)\<rparr>"
    "kinv s' Q M c cp" "pagusr_table s' = pagusr_table s" "load_user (pid_addr E) s' = Some v" "con s' = con s"
    "\<And>b. in_data b 1 \<Longrightarrow> b \<notin> {pid_addr E, pid_addr E + 1, pid_addr E + 2, pid_addr E + 3} \<Longrightarrow>
      vread ?PT (ram s') b = vread ?PT (ram s) b"
    "\<And>PT b. \<forall>j<4. kaddr PT b \<noteq> kaddr ?PT (pid_addr E + of_nat j) \<Longrightarrow> vread PT (ram s') b = vread PT (ram s) b"
    by (rule put_step [where co = co, OF assms(1) p(1,2) assms(4) i(1)]) (rule that)
  have "vload32 ?PT (ram s') (pid_addr E) = Some v"
    using s'(3,4) kinv_tables(2) [OF s'(2)] by (simp add: load_user_def split: if_splits)
  moreover have "text_at E (vread ?PT (ram s')) (X c) a" by (rule text_at_apart [OF p(3) i(1) p(4) s'(6)])
  ultimately have "party E s' cp (X c) r" using p(1,2,4) s'(3) assms(5) by (auto simp: party_def)
  then have "parties E s' (co(c := r)) R X"
  proof (rule parties_update [OF assms(2,3) s'(3)])
    show "vread (pagusr_table s p) (ram s') b = vread (pagusr_table s p) (ram s) b"
      if "(t, p) \<in> R" "(t, p) \<noteq> (c, cp)" "in_data b 1" for t p b
      using strangersD(2) [OF i(2) assms(3) that(1,2) in_data_offset(2) [OF i(1)] that(3)] by (intro s'(7)) simp
  qed
  then show thesis using s'(1,2,5) by (intro that)
qed

lemma party_step:
  assumes "kinv s Q M c cp" and "parties E s co R X" and "(c, cp) \<in> R"
  shows "\<exists>s' st ws. user_step E \<lparr>os = s, code = co\<rparr> = Some \<lparr>os = s', code = co(c := st)\<rparr> \<and> kinv s' Q M c cp
    \<and> parties E s' (co(c := st)) R X \<and> set ws \<subseteq> X ` fst ` R
    \<and> port_e9 (con s') = port_e9 (con s) @ concat (map bytes_of ws) \<and> Suc (rank (co c)) \<le> 2 * length ws + rank st"
proof -
  let ?PT = "pagusr_table s cp"
  have i: "in_data (pid_addr E) 4" "strangers s R" "party E s cp (X c) (co c)" using assms(2,3) by (auto simp: parties_def)
  then obtain a v where p: "private_data ?PT" "writable_data ?PT" "text_at E (vread ?PT (ram s)) (X c) a"
    "text_apart E (pid_addr E) (X c) a" "vload32 ?PT (ram s) (pid_addr E) = Some v" "leads E (X c) v (co c)"
    by (auto simp: party_def)
  have XR: "X c \<in> X ` fst ` R" using assms(3) by force
  have stay: "parties E s (co(c := st)) R X" if "leads E (X c) v st" for st
    using p that by (intro parties_update [OF assms(2,3)]) (auto simp: party_def)
  have ld: "load_user (pid_addr E) s = Some v"
    using kinv_tables(2) [OF assms(1)] in_data_word [OF p(1) i(1)] p(5) by (simp add: load_user_def)
  from p(6) show ?thesis
  proof cases
    case loop
    obtain s' st ws where s': "user_step E \<lparr>os = s, code = co\<rparr> = Some \<lparr>os = s', code = co(c := st)\<rparr>"
      "kinv s' Q M c cp" "ram s' = ram s" "pagusr_table s' = pagusr_table s" "writer (X c) st" "set ws \<subseteq> {X c}"
      "port_e9 (con s') = port_e9 (con s) @ concat (map bytes_of ws)" "Suc (rank (co c)) \<le> 2 * length ws + rank st"
      by (rule writer_step [where co = co, OF assms(1) p(1,3) loop]) (rule that)
    have "parties E s' (co(c := st)) R X"
      using stay [OF leads.loop [OF s'(5)]] s'(3,4) by (simp add: parties_def strangers_def party_def)
    then show ?thesis using s' XR by blast
  next
    case (zero b r)
    then show ?thesis
      using if_steps(1) [where co = co, OF assms(1) ld zero(1)] assms(1) stay [OF zero(2)]
      by (intro exI [of _ s] exI [of _ "if v = 0 then b @ r else r"] exI [of _ "[]"]) simp
  next
    case (positive b r)
    then show ?thesis
      using if_steps(2) [where co = co, OF assms(1) ld positive(1)] assms(1) stay [OF positive(2)]
      by (intro exI [of _ s] exI [of _ "if 0 < sint v then b @ r else r"] exI [of _ "[]"]) simp
  next
    case (store v' r)
    obtain s' where s': "user_step E \<lparr>os = s, code = co\<rparr> = Some \<lparr>os = s', code = co(c := r)\<rparr>"
      "kinv s' Q M c cp" "parties E s' (co(c := r)) R X" "con s' = con s"
      by (rule party_store [where co = co, OF assms store(1,2)]) (rule that)
    then show ?thesis using store by (intro exI [of _ s'] exI [of _ r] exI [of _ "[]"]) simp
  qed
qed

interpretation pr: interleaved E R "\<lambda>s co. parties E s co R X" "X ` fst ` R" for E R X
proof
  show "parties E s co R X \<Longrightarrow> ram s' = ram s \<Longrightarrow> pagusr_table s' = pagusr_table s \<Longrightarrow> parties E s' co R X" for s s' co
    by (simp add: parties_def strangers_def party_def)
qed (rule party_step)

section \<open>Correctness\<close>

text \<open>C17: \<open>prueba4\<close> runs on. From its call of \<open>fork\<close> on, any order of statements and clock interrupts goes
  on without a fault: the kernel's invariant is kept, parent and child stay runnable, and what they print is a
  sequence of whole strings, the parent's \<open>b\<close> and the child's \<open>a\<close>. Of \<open>n\<close> statements at least \<open>(n - 8) / 2\<close> print a
  string.\<close>

theorem prueba4_runs_on:
  assumes "kinv s Q M c cp" and "private_data (pagusr_table s cp)" and "writable_data (pagusr_table s cp)"
    and "data_mapped s cp" and "co c = prueba4 @ r"
    and "Q Freequeue = TaskList i # fs" and "Q Free_threadqueue = ThreadList u # us" and "\<forall>p. Q (ReadyThreads p) = []"
    and "20 \<le> card (free_frames (phys_mem s))" and "0 < sint (global_PID s + 1)" and "in_data (pid_addr E) 4"
    and "text_at E (vread (pagusr_table s cp) (ram s)) Var_a pa" and "text_at E (vread (pagusr_table s cp) (ram s)) Var_b pb"
    and "text_apart E (pid_addr E) Var_a pa" and "text_apart E (pid_addr E) Var_b pb"
    and "\<forall>extra. Tick extra \<in> set es \<longrightarrow> extra \<le> 1000" and "\<forall>n k. port_e9 (show n k) = port_e9 k"
  shows "\<exists>s' co' Q' c' cp' ws. events E show (Statement # es) \<lparr>os = s, code = co\<rparr> = Some \<lparr>os = s', code = co'\<rparr>
    \<and> kinv s' Q' M c' cp' \<and> runnable (sched_view s' Q' c' cp') = {(c, cp), (u, i)}
    \<and> port_e9 (con s') = port_e9 (con s) @ concat (map bytes_of ws) \<and> set ws \<subseteq> {Var_a, Var_b}
    \<and> length (filter (\<lambda>e. e = Statement) es) \<le> 2 * length ws + 8"
proof -
  let ?zero = "If_pid_zero [While_true [Write Var_a]]" and ?pos = "If_pid_positive [While_true [Write Var_b]]"
  let ?r = "?zero # ?pos # r" and ?pid = "global_PID s + 1" and ?R = "{(c, cp), (u, i)}"
  let ?Q = "Q(Freequeue := fs, Free_threadqueue := us, Readyqueue := Q Readyqueue @ [TaskList i], ReadyThreads i := [ThreadList u])"
  let ?co = "co(c := Put (pid_addr E) ?pid # ?r, u := Put (pid_addr E) 0 # ?r)" and ?X = "\<lambda>t. if t = c then Var_b else Var_a"
  have co: "co c = Fork_pid # ?r" using assms(5) by (simp add: prueba4_def)
  have pos: "0 \<le> sint ?pid" "?pid \<noteq> 0" using assms(10) by auto
  have i: "i < 10" using kmid_member [OF kinv_kmid [OF assms(1)] heads_simps(1), of "TaskList i"] assms(6) by simp
  obtain s1 where 1: "user_step E \<lparr>os = s, code = co\<rparr> = Some \<lparr>os = s1, code = ?co\<rparr>" "kinv s1 ?Q M c cp"
    "private_data (pagusr_table s1 cp)" "writable_data (pagusr_table s1 cp)"
    "private_data (pagusr_table s1 i)" "writable_data (pagusr_table s1 i)" "u \<noteq> c"
    "\<And>a. in_data a 1 \<Longrightarrow> vread (pagusr_table s1 i) (ram s1) a = vread (pagusr_table s cp) (ram s) a"
    "\<And>a b. in_data a 1 \<Longrightarrow> in_data b 1 \<Longrightarrow> kaddr (pagusr_table s1 i) a \<noteq> kaddr (pagusr_table s1 cp) b"
    "\<And>a. in_data a 1 \<Longrightarrow> vread (pagusr_table s1 cp) (ram s1) a = vread (pagusr_table s cp) (ram s) a" "con s1 = con s"
    by (rule fork_process [where co = co, OF assms(1-4) co assms(6,7,9) pos(1)]) (rule that)
  have R: "?R = runnable (sched_view s1 ?Q c cp)"
    using assms(8) i by (auto simp: runnable_def waiting_def sched_view_def split: if_splits)
  have loops: "leads E Var_b ?pid ([While_true [Write Var_b]] @ r)" "leads E Var_a 0 ([While_true [Write Var_a]] @ ?pos # r)"
    by (auto intro!: leads.loop simp: writer_def)
  have "leads E Var_b ?pid (?pos # r)" by (rule leads.positive) (use assms(10) loops(1) in simp_all)
  then have "leads E Var_b ?pid ?r" by (intro leads.zero) (use pos(2) in simp_all)
  then have parent: "leads E Var_b v (Put (pid_addr E) ?pid # ?r)" for v by (rule leads.store) simp
  have "leads E Var_a 0 ?r" by (rule leads.zero) (use loops(2) in simp_all)
  then have child: "leads E Var_a v (Put (pid_addr E) 0 # ?r)" for v by (rule leads.store) simp
  obtain v w where v: "vload32 (pagusr_table s1 cp) (ram s1) (pid_addr E) = Some v"
    "vload32 (pagusr_table s1 i) (ram s1) (pid_addr E) = Some w"
    using private_load [OF 1(3) assms(11)] private_load [OF 1(5) assms(11)] by metis
  have "party E s1 cp Var_b (?co c)"
    using 1(3,4,7) v(1) parent assms(15) text_at_data [OF assms(13) 1(10)] by (auto simp: party_def)
  moreover have "party E s1 i Var_a (?co u)"
    using 1(5,6) v(2) child assms(14) text_at_data [OF assms(12) 1(8)] by (auto simp: party_def)
  moreover have "strangers s1 ?R" using 1(7) 1(9) 1(9) [symmetric] by (auto simp: strangers_def)
  ultimately have pt: "parties E s1 ?co ?R ?X" using 1(7) assms(11) by (simp add: parties_def)
  obtain s' co' Q' c' cp' ws where 2: "events E show es \<lparr>os = s1, code = ?co\<rparr> = Some \<lparr>os = s', code = co'\<rparr>"
    "kinv s' Q' M c' cp'" "runnable (sched_view s' Q' c' cp') = ?R" "set ws \<subseteq> ?X ` fst ` ?R"
    "port_e9 (con s') = port_e9 (con s1) @ concat (map bytes_of ws)"
    "length (filter (\<lambda>e. e = Statement) es) + progress ?R ?co \<le> 2 * length ws + progress ?R co'"
    using pr.events_run [OF 1(2) R pt assms(16,17)] by blast
  have "progress ?R co' \<le> 8" using progress_le [of ?R co'] 1(7) by simp
  then have "length (filter (\<lambda>e. e = Statement) es) \<le> 2 * length ws + 8" using 2(6) by linarith
  moreover have "set ws \<subseteq> {Var_a, Var_b}" using 2(4) by (auto split: if_splits)
  ultimately show ?thesis using 1(1,11) 2(1-3,5) by auto
qed

lemma prueba4_runs_on_witness:
  "\<exists>sys ws. events example_env (\<lambda>_. id) (Statement # concat (replicate 1000 [Statement, Tick 0])) \<lparr>os = with_texts, code = (\<lambda>_. prueba4)\<rparr> = Some sys
     \<and> port_e9 (con (os sys)) = port_e9 (con with_texts) @ concat (map bytes_of ws) \<and> 496 \<le> length ws"
proof -
  define es where "es = concat (replicate 1000 [Statement, Tick 0])"
  have co: "(\<lambda>_. prueba4) (1 :: nat) = prueba4 @ []" by simp
  have pid: "in_data (pid_addr example_env) 4" "text_apart example_env (pid_addr example_env) Var_a 0x10802c"
    "text_apart example_env (pid_addr example_env) Var_b 0x108040"
    by (simp_all add: in_data_def text_apart_def apart_def example_env_def bytes_of_def newline_def)
  have pos: "0 < sint (global_PID with_texts + 1)" by (simp add: with_texts_fork(3))
  have ticks: "\<forall>extra. Tick extra \<in> set es \<longrightarrow> extra \<le> 1000" by (auto simp: es_def)
  have show_ok: "\<forall>n k. port_e9 ((\<lambda>_. id) n k) = port_e9 k" by simp
  have n: "length (filter (\<lambda>e. e = Statement) (concat (replicate k [Statement, Tick 0]))) = k" for k
    by (induction k) simp_all
  from prueba4_runs_on [where co = "\<lambda>_. prueba4", OF with_texts_ok(1,4) with_texts_fork(1,2) co boot_free no_ready
      with_texts_fork(4) pos pid(1) with_texts_texts(4,5) pid(2,3) ticks show_ok]
  obtain s' co' ws where "events example_env (\<lambda>_. id) (Statement # es) \<lparr>os = with_texts, code = \<lambda>_. prueba4\<rparr> = Some \<lparr>os = s', code = co'\<rparr>"
    "port_e9 (con s') = port_e9 (con with_texts) @ concat (map bytes_of ws)"
    "length (filter (\<lambda>e. e = Statement) es) \<le> 2 * length ws + 8" by blast
  moreover from this(3) have "496 \<le> length ws" unfolding es_def n by simp
  ultimately show ?thesis unfolding es_def by (intro exI [of _ "\<lparr>os = s', code = co'\<rparr>"]) (auto simp only: system.simps)
qed

end
