(* ===== verification/Spec2Isabelle.thy ===== *)
theory Spec2Isabelle
  imports Ticks Tables Entry MutexProofs WriteProofs Refused ExitProofs Libc Build Reach UserMode UserBoth Errno
begin

text \<open>
  A model of ZeOS, a teaching operating system for the 80386 (\<open>src/\<close>): a kernel with processes, threads
  of a process, a two-level round robin scheduler, mutexes and fourteen system calls, the user's library and
  test program, and the tool that writes the disk image. Every theory below names the C functions its definitions
  translate; a definition has the name of its C function.

  \<^bold>\<open>The parts and how they interact.\<close> \<open>build\<close> writes boot sector, system and user program to one image. The
  boot sector loads it at 0x10000 and jumps to \<open>main\<close>, which sets up segments, interrupts and page tables, makes
  the idle thread and process 1, copies the user program behind the page tables and leaves for user mode. From
  there the kernel runs only when it is called: \<open>sysenter\<close> enters \<open>system_call_handler\<close>, which dispatches through
  \<open>sys_call_table\<close> to \<open>sys.c\<close> and \<open>mutex.c\<close>; the clock enters \<open>clock_handler\<close>, which calls \<open>schedule\<close>. Calls and
  scheduler move thread and process descriptors between lists (\<open>list.c\<close>) and switch kernel stacks
  (\<open>inner_task_switch\<close>); fork, exit and thread creation take frames and page table entries from \<open>mm.c\<close>.

  \<^bold>\<open>State.\<close> Theory Kernel: the record \<open>kernel\<close> has the globals of the kernel (descriptor arrays, queues, mutexes,
  frame map, page tables and directories, quanta, ticks, console) with physical memory \<open>ram\<close> and the registers the
  kernel's code depends on. Pointers to list fields are values of \<open>lnode\<close>, which stand for the addresses that
  \<open>node_addr\<close> gives (theory Layout); the addresses of the arrays are chosen by the linker and arbitrary under
  \<open>layout_ok\<close>, what \<open>system.lds\<close> guarantees. A kernel stack is an array of 1024 words of its thread. An operation
  returns an option: \<^const>\<open>None\<close> is a processor fault inside the kernel (a page that is not present), or a point from
  which the model does not follow the code, because it reads or writes memory that is none of the objects above as
  if it were (a list head taken for a descriptor, a stack pointer outside the stacks, kernel frames through a user
  pointer). A theorem that shows \<^const>\<open>Some\<close> shows that there is neither. List stores through null pointers are
  followed: they fault, or go to page 0 where a process has it (\<open>null_mapped\<close>). Error returns are values: the
  negated error number, as in the source. Integers are words of their C width.

  \<^bold>\<open>Theories.\<close>
  \<^item> Prelude: words, loops and options shared by all. Types: \<open>include/types.h\<close>, \<open>segment.h\<close>, \<open>mm_address.h\<close>, constants.
    Errno: \<open>errno.h\<close> and the way of an error to the user.
  \<^item> Lists: \<open>list.c\<close>, \<open>list.h\<close>, cell by cell, with the interface \<open>intrusive_queues\<close> the queues are used through.
  \<^item> Layout: addresses of descriptors, stacks and list fields; distinct nodes do not overlap.
  \<^item> Mm: \<open>mm.c\<close>, with the interface of the frame allocator. Utils: \<open>utils.c\<close>, \<open>p_stats.c\<close>. Vmem: the copy loops and
    word accesses through a page table. Io: \<open>io.c\<close>, \<open>devices.c\<close>.
  \<^item> Kernel, Sched: state and \<open>sched.c\<close>. Invariant: \<open>kinv s Q M c cp\<close>, thread \<open>c\<close> of process \<open>cp\<close> runs, \<open>Q\<close> gives the
    contents of every queue, \<open>M\<close> the mutexes whose list is initialised. SchedProofs computes every scheduler
    operation under it. Policy: the abstract two-level round robin \<open>rr_tick\<close>; Ticks: \<open>schedule\<close> implements it,
    with its time slices and its fairness.
  \<^item> Boot, BootProofs: \<open>main\<close>, phase by phase. Scenario: the states the witnesses start from.
  \<^item> Syscalls, MutexSys, Dispatch: \<open>sys.c\<close>, \<open>mutex.c\<close>, \<open>entry.S\<close>, \<open>sys_call_table.S\<close>, \<open>interrupt.c\<close>. ThreadProofs, ForkProofs,
    ExitProofs, MutexProofs, WriteProofs, Refused: the calls on every branch. Entry: the frame of a call and how a
    new thread and a forked child leave the kernel.
  \<^item> Reach: all of the above as one labelled transition system, in which whatever the model does not follow may lead
    to any state, and a discipline for its runs; what holds at the end of every run from \<open>main\<close> that keeps it.
  \<^item> Tables, UserMode: descriptor tables, \<open>hardware.c\<close>, and \<open>main\<close> with the processor's registers. Build: \<open>build.c\<close>.
    UserMode composes the two, from the files to the first user instruction.
  \<^item> Libc, UserProg: \<open>libc.c\<close>, the stubs of \<open>user-utils.S\<close> and \<open>user.c\<close>, executed on the kernel. UserFork: its
    test of \<open>fork\<close>, both processes. UserTicks: statements and clock interrupts in any order, with the interface
    \<open>interleaved\<close> of programs that write forever; UserBoth: the test of \<open>fork\<close> in it.

  \<^bold>\<open>What is shown.\<close> Functional: each call's effect on every queue, descriptor and page table it touches, error
  returns and faults included. Invariants: \<open>kinv\<close> is established by \<open>main\<close> and kept by ticks and by calls
  that keep the rules of Reach; in such runs the data pages of running and ready processes stay disjoint. Refinement: pointer lists implement sequences, \<open>schedule\<close>
  implements the abstract policy, copying through page tables implements copying. Termination: the loops of
  \<open>sys_write\<close>, \<open>sys_pthread_exit\<close>, \<open>sys_exit\<close> and \<open>sys_fork\<close> are partial functions or recursions, and the theorems state
  that a result is returned; no fuel is used. Where the code does not do what it means to, the theorem states what
  it does (for instance \<open>lost_process_quantum\<close>, \<open>fork_page_tables\<close>, \<open>mutex_null_pointers\<close>, \<open>last_thread_faults\<close>).

  \<^bold>\<open>Bounds.\<close> Those of the code: 10 processes, 22 thread descriptors, 20 mutexes, 1024 frames and page table
  entries, kernel stacks of 1024 words. \<open>extra\<close> in the clock's entry, at most 1000, stands for the words the C functions
  push before the stack is switched, which depends on the compiler.

  \<^bold>\<open>Not modelled.\<close> \<open>bootsect.S\<close> is 16-bit start-up code; what it leaves in memory is the hypothesis \<open>loaded_at\<close>.
  \<open>libzeos\<close> is a binary: \<open>set_handlers\<close> and \<open>zeos_show_clock\<close> are parameters. \<open>p_threads.c\<close> is not compiled and not
  valid C. The macro \<open>list_for_each_safe\<close> has no callers. The processor's
  translation caches, the frames of the C functions on the kernel stacks (a saved stack pointer stands for the place
  from where they unwind to the frame of the call or interrupt), the registers an interrupt saves, the keyboard controller, the end-of-interrupt command, the bytes stubs push on the
  user's stack and the timing of instructions are left out.
\<close>

section \<open>Starting up\<close>

text \<open>C9: \<open>main\<close> boots. For any layout the linker may choose, any contents of memory with a user
  image that fits, any video memory and stack, it completes: it prints its two messages, hands
  28 distinct frames of the pool to the first process (356 are left), copies the user image to
  the address where that process starts, and leaves process 1, thread 1 running for full
  quanta in a state that satisfies the kernel's invariant.\<close>

theorem main_boots:
  assumes "layout_ok \<sigma>" and "image_ok \<sigma> mem"
  shows "\<exists>s PT. main (kernel0 \<sigma> mem video sp) = Some s \<and> kinv s boot_queues {} 1 1
    \<and> mmu_table s = Some PT \<and> remaining_quantum_p s = 20 \<and> remaining_quantum_t s = 10 \<and> PID (tasks s 1) = 1
    \<and> port_e9 (con s) = map of_char (loaded_msg @ entering_msg) \<and> on_screen (con s)
    \<and> card (free_frames (phys_mem s)) = 356
    \<and> (\<forall>i < unat (image_word mem 4). vread PT (ram s) (usr_main + of_nat i) =
        Some (mem ((0x10000 + unat (image_word mem 0) + i) div 4096)
               ((0x10000 + unat (image_word mem 0) + i) mod 4096)))"
proof -
  obtain cs m1 where 1: "take_frames alloc_frame 8 (init_frames (\<lambda>_. 0)) = (cs, m1)" by fastforce
  obtain ds m2 where 2: "take_frames alloc_frame 20 m1 = (ds, m2)" by fastforce
  note fr = boot_frames [OF 1 2]
  show ?thesis
    by (rule main_eq [OF assms 1 2, of video sp]) (use fr(5) in blast)
qed

lemma main_boots_witness:
  "\<exists>s. main (kernel0 example_layout (\<lambda>_ _. 0) (\<lambda>_. 0) 0) = Some s \<and> card (free_frames (phys_mem s)) = 356"
proof -
  have "image_ok example_layout (\<lambda>_ _. 0)"
    by (simp add: image_ok_def image_word_def kernel_mapped_def PH_PAGE_def protected_task_addr_def
        elem_addr_def example_layout_def)
  from main_boots [OF example_layout_ok this, of "\<lambda>_. 0" 0] show ?thesis by blast
qed

section \<open>Threads\<close>



text \<open>C11: \<open>sys_pthread_create\<close> makes a thread of the process that is ready to run: the first
  free thread leaves the free queue and becomes the last ready one; its kernel stack is set up
  so that its first return to user mode goes to \<open>start_routine\<close> with the stack pointer at the
  end of a fresh page, mapped writable to a newly allocated frame in the first page behind the
  data that had none; the identifier is stored at \<open>id\<close>; the caller keeps running.\<close>

theorem pthread_create_makes_thread:
  assumes "kinv s Q M c cp" and "in_kernel s c" and "access_ok VERIFY_READ start 4"
    and "Q Free_threadqueue = ThreadList u # us"
    and "find_free_page (pagusr_table s cp) 284 = Some page"
    and "user_word (pagusr_table s cp) idp"
  shows "\<exists>s'. sys_pthread_create idp start arg s = Some (0, s')
    \<and> kinv s' (Q(Free_threadqueue := us, ReadyThreads cp := Q (ReadyThreads cp) @ [ThreadList u])) M c cp
    \<and> in_kernel s' c \<and> register_esp (threads s' u) = stack_addr (sym s) u 1006
    \<and> kstack (threads s' u) 1019 = start \<and> kstack (threads s' u) 1022 = 4096 * (of_nat page + 1)
    \<and> TID (threads s' u) = nthread (tasks s cp) \<and> nthread (tasks s' cp) = nthread (tasks s cp) + 1
    \<and> pagusr_table s' cp = (pagusr_table s cp)(page := user_entry (fst (alloc_frame (phys_mem s))))
    \<and> phys_mem s' = snd (alloc_frame (phys_mem s))
    \<and> vstore32 (pagusr_table s cp) idp (nthread (tasks s cp)) (ram s) = Some (ram s')"
proof -
  obtain f pm where f: "alloc_frame (phys_mem s) = (f, pm)" by fastforce
  obtain h m where s': "sys_pthread_create idp start arg s = Some (0, created s c cp u start page f pm m h)"
    "vstore32 (pagusr_table s cp) idp (nthread (tasks s cp)) (ram s) = Some m"
    "kinv (created s c cp u start page f pm m h)
      (Q(Free_threadqueue := us, ReadyThreads cp := Q (ReadyThreads cp) @ [ThreadList u])) M c cp"
    "in_kernel (created s c cp u start page f pm m h) c"
    by (rule sys_pthread_create_step [OF assms(1-5) f assms(6)])
  from s' f show ?thesis
    by (intro exI [of _ "created s c cp u start page f pm m h"])
      (simp add: created_def created_thread_def algebra_simps)
qed

lemma pthread_create_makes_thread_witness:
  "\<exists>s'. sys_pthread_create 0x108000 0x100000 0 entered = Some (0, s') \<and> kstack (threads s' 2) 1022 = 0x11d000"
proof -
  have ok: "access_ok VERIFY_READ 0x100000 4" by (simp add: access_ok_range)
  have free: "boot_queues Free_threadqueue = ThreadList 2 # map ThreadList [3..<10]" by (simp add: upt_rec)
  have page: "find_free_page (pagusr_table entered 1) 284 = Some 284" using booted_pages(1) by simp
  have w: "user_word (pagusr_table entered 1) 0x108000" using booted_pages(2) [of "0x108000"] by simp
  from pthread_create_makes_thread [OF entered_kinv ok free page w, of 0] show ?thesis by auto
qed

text \<open>C12: \<open>sys_pthread_join\<close> blocks the caller: in a process that has created threads, the
  running thread records the identifier it waits for, goes to the end of the blocked threads of
  its process and the first ready thread runs.\<close>

theorem pthread_join_blocks:
  assumes "kinv s Q M c cp" and "in_kernel s c" and "\<not> nthread (tasks s cp) < 2"
    and "load_user idp s = Some v" and "Q (ReadyThreads cp) = ThreadList t # ts"
  shows "\<exists>s'. sys_pthread_join idp value_ptr s = Some (0, s')
    \<and> kinv s' (Q(BlockedThreads cp := Q (BlockedThreads cp) @ [ThreadList c], ReadyThreads cp := ts)) M t cp
    \<and> blocked_by (threads s' c) = v \<and> same_rest s s'"
  by (rule sys_pthread_join_step [OF assms]) blast

lemma pthread_join_blocks_witness: "\<exists>s s'. sys_pthread_join 0x108000 0 s = Some (0, s')"
proof -
  let ?Q = "boot_queues(Free_threadqueue := map ThreadList [3..<10], ReadyThreads 1 := [ThreadList 2])"
  obtain s where s: "kinv s ?Q {} 1 1" "in_kernel s 1" "nthread (tasks s 1) = nthread (tasks booted 1) + 1"
    "user_word (pagusr_table s 1) 0x108000" by (rule second_thread)
  have "nthread (tasks booted 1) = 2" by (rule booted_facts)
  then have n: "\<not> nthread (tasks s 1) < 2" using s(3) by simp
  obtain v where v: "load_user 0x108000 s = Some v"
    using s(4) kinv_tables(2) [OF s(1)]
    by (auto simp: load_user_def vload32_def vread_def user_word_def user_byte_def split: option.splits)
  have q: "?Q (ReadyThreads 1) = ThreadList 2 # []" by simp
  from pthread_join_blocks [OF s(1,2) n v q, of 0] show ?thesis by blast
qed

text \<open>C13: \<open>sys_pthread_exit\<close> frees the running thread and wakes at most one waiter: it rotates
  the blocked threads of the process, but only the one that was first is really moved to the
  ready threads, and only if it waits for the thread that exits; every other waiter stays
  blocked. The first thread that is ready then runs.\<close>

theorem pthread_exit_wakes_first:
  assumes "kinv s Q M c cp" and "in_kernel s c" and "Q (ReadyThreads cp) @ first_joined s Q c cp = ThreadList t # ts"
  shows "\<exists>s'. sys_pthread_exit v s = Some (0, s')
    \<and> kinv s' (Q(Free_threadqueue := Q Free_threadqueue @ [ThreadList c],
        BlockedThreads cp := drop (length (first_joined s Q c cp)) (Q (BlockedThreads cp)),
        ReadyThreads cp := ts)) M t cp
    \<and> same_rest s s'"
proof -
  have ne: "Q (ReadyThreads cp) @ first_joined s Q c cp \<noteq> []" using assms(3) by simp
  obtain s' t' ts' where s': "sys_pthread_exit v s = Some (0, s')"
    "Q (ReadyThreads cp) @ first_joined s Q c cp = ThreadList t' # ts'"
    "kinv s' (Q(Free_threadqueue := Q Free_threadqueue @ [ThreadList c],
        BlockedThreads cp := drop (length (first_joined s Q c cp)) (Q (BlockedThreads cp)),
        ReadyThreads cp := ts')) M t' cp"
    "same_rest s s'"
    by (rule sys_pthread_exit_step [OF assms(1,2) ne])
  with assms(3) show ?thesis by auto
qed

lemma pthread_exit_wakes_first_witness: "\<exists>s s'. sys_pthread_exit 0 s = Some (0, s')"
proof -
  obtain s where s: "kinv s (boot_queues(Free_threadqueue := map ThreadList [3..<10], ReadyThreads 1 := [ThreadList 2])) {} 1 1"
    "in_kernel s 1" by (rule second_thread)
  let ?Q = "boot_queues(Free_threadqueue := map ThreadList [3..<10], ReadyThreads 1 := [ThreadList 2])"
  have "?Q (ReadyThreads 1) @ first_joined s ?Q 1 1 = ThreadList 2 # []" by (simp add: first_joined_def)
  from pthread_exit_wakes_first [OF s this, of 0] show ?thesis by blast
qed

end
